(* ===== verification/Cndb_Prelude.thy ===== *)
theory Cndb_Prelude
  imports "HOL-Library.Word" "HOL-Library.FSet" "HOL-Library.Finite_Map"
begin

text \<open>
  Types and lemmas shared by every component: the machine integers of the Rust code, byte
  buffers with the slicing operations the code uses on them (\<open>buf[a..b]\<close> and
  \<open>copy_from_slice\<close>), little-endian integers (\<open>to_le_bytes\<close>, \<open>from_le_bytes\<close>), the
  result type with the \<open>?\<close> operator, \<open>max_by_key\<close> and \<open>min_by_key\<close> of iterators, and
  the decimal printing of integers used in error messages.
\<close>

unbundle bit_operations_syntax

section \<open>Collections of facts\<close>

named_theorems buf_simps \<open>lengths, slices and updates of byte buffers\<close>
named_theorems res_simps \<open>unfolding of the result and state-result combinators\<close>

section \<open>Machine integers and byte buffers\<close>

type_synonym u8 = "8 word"
type_synonym u32 = "32 word"
type_synonym u64 = "64 word"
type_synonym bytes = "u8 list"

text \<open>The slice \<open>buf[a..b]\<close>.\<close>

definition bslice :: "'a list \<Rightarrow> nat \<Rightarrow> nat \<Rightarrow> 'a list" where
  "bslice bs a b = take (b - a) (drop a bs)"

text \<open>The effect of \<open>buf[a..a + x.len()].copy_from_slice(x)\<close> on \<open>buf\<close>.\<close>

definition put_at :: "'a list \<Rightarrow> nat \<Rightarrow> 'a list \<Rightarrow> 'a list" where
  "put_at bs a xs = take a bs @ xs @ drop (a + length xs) bs"

lemma length_bslice [buf_simps]: "length (bslice bs a b) = min (b - a) (length bs - a)"
  by (simp add: bslice_def)

lemma length_put_at [buf_simps]:
  "a + length xs \<le> length bs \<Longrightarrow> length (put_at bs a xs) = length bs"
  by (simp add: put_at_def)

lemma nth_bslice [buf_simps]:
  "i < b - a \<Longrightarrow> a + i < length bs \<Longrightarrow> bslice bs a b ! i = bs ! (a + i)"
  by (simp add: bslice_def)

lemma bslice_put_at_same:
  "a + length xs \<le> length bs \<Longrightarrow> b = a + length xs \<Longrightarrow> bslice (put_at bs a xs) a b = xs"
  by (simp add: bslice_def put_at_def)

lemma bslice_put_at_before:
  "b \<le> a \<Longrightarrow> a \<le> length bs \<Longrightarrow> bslice (put_at bs a xs) c b = bslice bs c b"
  by (rule nth_equalityI) (auto simp: bslice_def put_at_def nth_append)

lemma bslice_put_at_after:
  assumes "a + length xs \<le> c" and "a + length xs \<le> length bs"
  shows "bslice (put_at bs a xs) c b = bslice bs c b"
proof -
  have "drop c (take a bs @ xs @ drop (a + length xs) bs) = drop c bs"
    using assms by (simp add: drop_append)
  then show ?thesis by (simp add: bslice_def put_at_def)
qed

lemma bslice_split: "a \<le> b \<Longrightarrow> b \<le> c \<Longrightarrow> bslice bs a c = bslice bs a b @ bslice bs b c"
proof -
  assume h: "a \<le> b" "b \<le> c"
  have "take (c - a) (drop a bs) = take (b - a) (drop a bs) @ take (c - b) (drop (b - a) (drop a bs))"
    using h take_add [of "b - a" "c - b" "drop a bs"] by simp
  then show ?thesis using h by (simp add: bslice_def add.commute)
qed

lemma bslice_bslice: "a + c \<le> b \<Longrightarrow> a + d \<le> b \<Longrightarrow> bslice (bslice bs a b) c d = bslice bs (a + c) (a + d)"
  by (simp add: bslice_def drop_take min_def add.commute)

lemma bslice_within:
  assumes "a \<le> c" and "c \<le> d" and "d \<le> b"
  shows "bslice bs c d = bslice (bslice bs a b) (c - a) (d - a)"
proof -
  have "bslice (bslice bs a b) (c - a) (d - a) = bslice bs (a + (c - a)) (a + (d - a))"
    using assms by (intro bslice_bslice) simp_all
  then show ?thesis using assms by simp
qed

lemma bslice_empty [buf_simps]: "b \<le> a \<Longrightarrow> bslice bs a b = []"
  by (simp add: bslice_def)

lemma bslice_eq_nth:
  assumes "length u \<ge> b" and "length v \<ge> b"
    and "\<And>i. a \<le> i \<Longrightarrow> i < b \<Longrightarrow> u ! i = v ! i"
  shows "bslice u a b = bslice v a b"
  using assms by (intro nth_equalityI) (auto simp: buf_simps)

lemma bslice_nth_eq:
  assumes "bslice u a b = bslice v a b" and "a \<le> i" and "i < b" and "b \<le> length u" and "b \<le> length v"
  shows "u ! i = v ! i"
proof -
  have "bslice u a b ! (i - a) = bslice v a b ! (i - a)" using assms(1) by simp
  then show ?thesis using assms(2-) by (simp add: nth_bslice)
qed

section \<open>Little-endian integers\<close>

definition le_bytes :: "nat \<Rightarrow> 'a::len word \<Rightarrow> bytes" where
  "le_bytes n w = map (\<lambda>i. ucast (drop_bit (8 * i) w)) [0..<n]"

fun le_word :: "bytes \<Rightarrow> 'a::len word" where
  "le_word [] = 0"
| "le_word (b # bs) = ucast b OR push_bit 8 (le_word bs)"

lemma length_le_bytes [simp]: "length (le_bytes n w) = n"
  by (simp add: le_bytes_def)

lemma bit_le_word:
  "bit (le_word bs :: 'a::len word) n \<longleftrightarrow>
     n < LENGTH('a) \<and> n div 8 < length bs \<and> bit (bs ! (n div 8)) (n mod 8)"
proof (induction bs arbitrary: n)
  case Nil
  then show ?case by simp
next
  case (Cons b bs)
  show ?case
  proof (cases "n < 8")
    case True
    then show ?thesis by (auto simp: bit_or_iff bit_ucast_iff bit_push_bit_iff)
  next
    case False
    then obtain m where n: "n = 8 + m" by (metis add.commute le_add_diff_inverse2 not_le)
    have "\<not> bit b n"
    proof
      assume "bit b n"
      then have "n < 8" using bit_imp_le_length by fastforce
      with False show False by simp
    qed
    then show ?thesis
      using n Cons [of m] by (auto simp: bit_or_iff bit_ucast_iff bit_push_bit_iff)
  qed
qed

lemma le_word_le_bytes:
  assumes "LENGTH('a::len) \<le> 8 * n"
  shows "le_word (le_bytes n (w :: 'a word)) = w"
proof (rule bit_word_eqI)
  fix k assume k: "k < LENGTH('a)"
  then have kn: "k div 8 < n" using assms by (simp add: less_mult_imp_div_less mult.commute)
  have "8 * (k div 8) + k mod 8 = k" by simp
  then show "bit (le_word (le_bytes n w) :: 'a word) k = bit w k"
    using k kn by (auto simp: bit_le_word le_bytes_def bit_ucast_iff bit_drop_bit_eq)
qed

lemma le_word_bytes4 [simp]: "le_word (le_bytes 4 (w :: u32)) = w"
  by (rule le_word_le_bytes) simp

lemma le_word_bytes8 [simp]: "le_word (le_bytes 8 (w :: u64)) = w"
  by (rule le_word_le_bytes) simp

lemma le_bytes_le_word:
  assumes "8 * length bs \<le> LENGTH('a::len)"
  shows "le_bytes (length bs) (le_word bs :: 'a word) = bs"
proof (rule nth_equalityI)
  fix i assume "i < length (le_bytes (length bs) (le_word bs :: 'a word))"
  then have i: "i < length bs" by simp
  show "le_bytes (length bs) (le_word bs :: 'a word) ! i = bs ! i"
  proof (rule bit_word_eqI)
    fix k assume k: "k < LENGTH(8)"
    then have "8 * i + k < LENGTH('a)" using i assms by simp
    moreover have "(8 * i + k) div 8 = i" and "(8 * i + k) mod 8 = k" using k by simp_all
    ultimately show "bit (le_bytes (length bs) (le_word bs :: 'a word) ! i) k = bit (bs ! i) k"
      using i k by (simp add: le_bytes_def bit_ucast_iff bit_drop_bit_eq bit_le_word)
  qed
qed simp

lemma le_bytes_inj4: "le_bytes 4 (v :: u32) = le_bytes 4 w \<Longrightarrow> v = w"
  by (metis le_word_bytes4)

section \<open>Word arithmetic without wrap-around\<close>

named_theorems word_nat \<open>reading words as naturals where nothing wraps\<close>

lemma unat_of_nat_u64 [word_nat]: "n < 2 ^ 64 \<Longrightarrow> unat (of_nat n :: u64) = n"
  by (simp add: unat_of_nat)

lemma unat_of_nat_u32 [word_nat]: "n < 2 ^ 32 \<Longrightarrow> unat (of_nat n :: u32) = n"
  by (simp add: unat_of_nat)

lemma unat_ucast_u32_u64 [word_nat]: "unat (ucast (w :: u32) :: u64) = unat w"
proof -
  have "unat w < 2 ^ 32" using unsigned_less [of w] by simp
  then show ?thesis by (simp add: unsigned_ucast_eq take_bit_nat_eq_self)
qed

lemma unat_u64_less: "unat (w :: u64) < 2 ^ 64"
  by (rule order.strict_trans2 [OF unsigned_less]) simp

lemma unat_add_u64 [word_nat]: "unat a + unat b < 2 ^ 64 \<Longrightarrow> unat (a + b :: u64) = unat a + unat b"
  by (simp add: unat_plus_if')

section \<open>Results and state-passing results\<close>

text \<open>
  A Rust \<open>Result<T, E>\<close> is a value of \<open>'e + 'a\<close>: \<open>Inl\<close> is \<open>Err\<close>, \<open>Inr\<close> is \<open>Ok\<close>. The
  \<open>?\<close> operator on a result is \<open>res_bind\<close>. A method on \<open>&mut self\<close> is a function from the
  state to a result and the state it leaves, also when it fails; \<open>?\<close> there is \<open>st_bind\<close>.
\<close>

definition res_bind :: "'e + 'a \<Rightarrow> ('a \<Rightarrow> 'e + 'b) \<Rightarrow> 'e + 'b" where
  "res_bind m k = (case m of Inl e \<Rightarrow> Inl e | Inr x \<Rightarrow> k x)"

definition map_err :: "('e \<Rightarrow> 'f) \<Rightarrow> 'e + 'a \<Rightarrow> 'f + 'a" where
  "map_err g m = (case m of Inl e \<Rightarrow> Inl (g e) | Inr x \<Rightarrow> Inr x)"

definition st_bind :: "('e + 'a) \<times> 's \<Rightarrow> ('a \<Rightarrow> 's \<Rightarrow> ('e + 'b) \<times> 's) \<Rightarrow> ('e + 'b) \<times> 's" where
  "st_bind m k = (case m of (Inl e, s) \<Rightarrow> (Inl e, s) | (Inr x, s) \<Rightarrow> k x s)"

lemma res_bind_simps [simp, res_simps]:
  "res_bind (Inl e) k = Inl e" "res_bind (Inr x) k = k x"
  by (simp_all add: res_bind_def)

lemma map_err_simps [simp, res_simps]:
  "map_err g (Inl e) = Inl (g e)" "map_err g (Inr x) = Inr x"
  by (simp_all add: map_err_def)

lemma st_bind_simps [simp, res_simps]:
  "st_bind (Inl e, s) k = (Inl e, s)" "st_bind (Inr x, s) k = k x s"
  by (simp_all add: st_bind_def)

lemma res_bind_Inr_iff: "res_bind m k = Inr y \<longleftrightarrow> (\<exists>x. m = Inr x \<and> k x = Inr y)"
  by (cases m) simp_all

lemma res_bind_Inl_iff: "res_bind m k = Inl e \<longleftrightarrow> m = Inl e \<or> (\<exists>x. m = Inr x \<and> k x = Inl e)"
  by (cases m) auto

lemma map_err_Inr_iff: "map_err g m = Inr y \<longleftrightarrow> m = Inr y"
  by (cases m) simp_all

lemma st_bind_Inr_iff:
  "st_bind m k = (Inr y, t) \<longleftrightarrow> (\<exists>x s. m = (Inr x, s) \<and> k x s = (Inr y, t))"
  by (cases m; cases "fst m") auto

lemma st_bind_Inl_iff:
  "st_bind m k = (Inl e, t) \<longleftrightarrow> m = (Inl e, t) \<or> (\<exists>x s. m = (Inr x, s) \<and> k x s = (Inl e, t))"
  by (cases m; cases "fst m") auto

lemma res_bind_cong [fundef_cong]:
  "m = m' \<Longrightarrow> (\<And>x. m' = Inr x \<Longrightarrow> k x = k' x) \<Longrightarrow> res_bind m k = res_bind m' k'"
  by (cases m') auto

section \<open>Iterator extrema\<close>

text \<open>
  \<open>Iterator::max_by_key\<close> returns the last of several maximal elements and
  \<open>Iterator::min_by_key\<close> the first of several minimal ones.
\<close>

fun max_by_key :: "('a \<Rightarrow> 'k::linorder) \<Rightarrow> 'a list \<Rightarrow> 'a option" where
  "max_by_key key [] = None"
| "max_by_key key (x # xs) =
     (case max_by_key key xs of
        None \<Rightarrow> Some x
      | Some y \<Rightarrow> (if key x \<le> key y then Some y else Some x))"

fun min_by_key :: "('a \<Rightarrow> 'k::linorder) \<Rightarrow> 'a list \<Rightarrow> 'a option" where
  "min_by_key key [] = None"
| "min_by_key key (x # xs) =
     (case min_by_key key xs of
        None \<Rightarrow> Some x
      | Some y \<Rightarrow> (if key x \<le> key y then Some x else Some y))"

lemma max_by_key_None_iff [simp]: "max_by_key key xs = None \<longleftrightarrow> xs = []"
  by (cases xs) (auto split: option.splits)

lemma min_by_key_None_iff [simp]: "min_by_key key xs = None \<longleftrightarrow> xs = []"
  by (cases xs) (auto split: option.splits)

lemma max_by_key_Some:
  "max_by_key key xs = Some x \<Longrightarrow> x \<in> set xs \<and> (\<forall>y\<in>set xs. key y \<le> key x)"
  by (induction xs arbitrary: x) (fastforce split: option.splits if_splits)+

lemma min_by_key_Some:
  "min_by_key key xs = Some x \<Longrightarrow> x \<in> set xs \<and> (\<forall>y\<in>set xs. key x \<le> key y)"
  by (induction xs arbitrary: x) (fastforce split: option.splits if_splits)+

text \<open>\<open>Iterator::position\<close>: the index of the first element that satisfies a predicate.\<close>

fun position :: "('a \<Rightarrow> bool) \<Rightarrow> 'a list \<Rightarrow> nat option" where
  "position P [] = None"
| "position P (x # xs) = (if P x then Some 0 else map_option Suc (position P xs))"

section \<open>Decimal printing\<close>

text \<open>\<open>Display\<close> of an unsigned integer.\<close>

fun show_nat :: "nat \<Rightarrow> string" where
  "show_nat n =
     (if n < 10 then [char_of (48 + n)] else show_nat (n div 10) @ [char_of (48 + n mod 10)])"

declare show_nat.simps [simp del]

end
