(* ===== verification/Cndb_Error.thy ===== *)
theory Cndb_Error
  imports Cndb_Prelude
begin

text \<open>
  The error type of \<open>src/src/error.rs\<close> with its \<open>Display\<close> messages, and the document
  identifier \<open>DocId\<close> of \<open>src/src/storage/record.rs\<close> that two of its variants carry.
  \<open>std::io::Error\<close> is represented by the kinds the code can meet; every other operating
  system error is an \<open>OsError\<close> with its number.
\<close>

datatype io_error = UnexpectedEofKind | WriteZeroKind | InterruptedKind | InvalidInputKind
  | FileTooLargeKind | OsError nat

section \<open>Document identifiers\<close>

text \<open>\<open>pub struct DocId(pub u64)\<close>, with the derived order.\<close>

datatype DocId = DocId (raw_id: u64)

instantiation DocId :: linorder
begin

definition less_eq_DocId :: "DocId \<Rightarrow> DocId \<Rightarrow> bool" where
  "less_eq_DocId a b \<longleftrightarrow> raw_id a \<le> raw_id b"

definition less_DocId :: "DocId \<Rightarrow> DocId \<Rightarrow> bool" where
  "less_DocId a b \<longleftrightarrow> raw_id a < raw_id b"

instance
  by standard (auto simp: less_eq_DocId_def less_DocId_def intro: DocId.expand)

end

lemma DocId_le_iff [simp]: "DocId a \<le> DocId b \<longleftrightarrow> a \<le> b"
  by (simp add: less_eq_DocId_def)

lemma DocId_less_iff [simp]: "DocId a < DocId b \<longleftrightarrow> a < b"
  by (simp add: less_DocId_def)

definition show_DocId :: "DocId \<Rightarrow> string" where
  "show_DocId i = ''#'' @ show_nat (unat (raw_id i))"

section \<open>The error enum\<close>

datatype CndbError =
    Io io_error
  | BadMagic (expected: bytes) (found: bytes)
  | UnsupportedVersion u32 u32
  | NoValidHeader
  | HeaderChecksum nat
  | RecordChecksum u64
  | RecordTooLarge u64 u64 u64
  | UnknownRecordKind u8 u64
  | UnexpectedEof u64 u64
  | NotFound DocId
  | Deleted DocId
  | Bson string
  | NotAnObject string
  | CorruptIndex string

text \<open>The \<open>#[error(...)]\<close> messages; \<open>io_show\<close> is \<open>Display\<close> of the operating system's error.\<close>

fun join_comma :: "string list \<Rightarrow> string" where
  "join_comma [] = ''''"
| "join_comma [x] = x"
| "join_comma (x # xs) = x @ '', '' @ join_comma xs"

definition debug_bytes :: "bytes \<Rightarrow> string" where
  "debug_bytes bs = ''['' @ join_comma (map (\<lambda>b. show_nat (unat b)) bs) @ '']''"

definition hex_digit :: "nat \<Rightarrow> char" where
  "hex_digit d = (if d < 10 then char_of (48 + d) else char_of (87 + d))"

text \<open>\<open>{:#010x}\<close> of a \<open>u32\<close>: the prefix \<open>0x\<close> and eight hexadecimal digits.\<close>

definition show_hex8 :: "u32 \<Rightarrow> string" where
  "show_hex8 w = ''0x'' @ map (\<lambda>i. hex_digit (unat w div 16 ^ i mod 16)) [7, 6, 5, 4, 3, 2, 1, 0]"

fun show_error :: "(io_error \<Rightarrow> string) \<Rightarrow> CndbError \<Rightarrow> string" where
  "show_error io_show (Io e) = ''io error: '' @ io_show e"
| "show_error io_show (BadMagic ex fo) =
     ''not a cndb file: expected magic '' @ debug_bytes ex @ '', found '' @ debug_bytes fo"
| "show_error io_show (UnsupportedVersion fo su) =
     ''unsupported format version '' @ show_hex8 fo @ ''; this build supports '' @ show_hex8 su"
| "show_error io_show NoValidHeader =
     ''no valid header: both slots are corrupt or this is not a cndb database''"
| "show_error io_show (HeaderChecksum slot) =
     ''header slot '' @ show_nat slot @ '' failed its checksum''"
| "show_error io_show (RecordChecksum off) =
     ''record at offset '' @ show_nat (unat off) @ '' failed its checksum''"
| "show_error io_show (RecordTooLarge off len mx) =
     ''record at offset '' @ show_nat (unat off) @ '' declares '' @ show_nat (unat len)
       @ '' bytes, over the '' @ show_nat (unat mx) @ '' byte limit''"
| "show_error io_show (UnknownRecordKind k off) =
     ''unknown record kind '' @ show_nat (unat k) @ '' at offset '' @ show_nat (unat off)"
| "show_error io_show (UnexpectedEof off needed) =
     ''unexpected end of file at offset '' @ show_nat (unat off) @ '': needed ''
       @ show_nat (unat needed) @ '' bytes''"
| "show_error io_show (NotFound i) = ''document '' @ show_DocId i @ '' not found''"
| "show_error io_show (Deleted i) = ''document '' @ show_DocId i @ '' was deleted''"
| "show_error io_show (Bson m) = ''bson: '' @ m"
| "show_error io_show (NotAnObject fo) =
     ''only JSON objects can be stored as documents, found '' @ fo"
| "show_error io_show (CorruptIndex m) = ''master index is corrupt: '' @ m"

end
