(* ===== verification/Pos_Io.thy ===== *)
theory Pos_Io
  imports Cndb_Error
begin

text \<open>
  Positioned file I/O (\<open>src/src/storage/pos_io.rs\<close>) over a model of one file.

  A file is its content as reads see it, the versions it went through since its last
  successful sync, and a count of the writes and syncs issued. The operating system is the
  record \<open>os\<close>: it decides, per operation, whether a read, write or sync fails and how much
  of a failing write still lands. After a power loss each byte of the file is the byte of
  one of the versions since the last sync (\<open>crash_image\<close>): unsynced writes may be lost, torn
  or reordered at byte granularity.
\<close>

section \<open>Reading and writing a list of bytes at a position\<close>

definition pread :: "bytes \<Rightarrow> nat \<Rightarrow> nat \<Rightarrow> bytes option" where
  "pread bs off n = (if off + n \<le> length bs then Some (bslice bs off (off + n)) else None)"

text \<open>Writing past the end leaves a hole of zeros; writing nothing leaves the file alone.\<close>

definition pwrite :: "bytes \<Rightarrow> nat \<Rightarrow> bytes \<Rightarrow> bytes" where
  "pwrite bs off data =
     (if data = [] then bs
      else take off (bs @ replicate (off - length bs) 0) @ data @ drop (off + length data) bs)"

lemma pwrite_Nil [simp]: "pwrite bs off [] = bs"
  by (simp add: pwrite_def)

lemma length_pwrite [buf_simps]:
  "data \<noteq> [] \<Longrightarrow> length (pwrite bs off data) = max (length bs) (off + length data)"
  by (simp add: pwrite_def)

lemma length_pwrite_ge: "length bs \<le> length (pwrite bs off data)"
  by (cases "data = []") (simp_all add: buf_simps)

lemma length_pwrite_le: "length (pwrite bs off data) \<le> max (length bs) (off + length data)"
  by (cases "data = []") (simp_all add: buf_simps)

lemma nth_pwrite:
  assumes "i < length (pwrite bs off data)"
  shows "pwrite bs off data ! i =
    (if off \<le> i \<and> i < off + length data then data ! (i - off)
     else if i < length bs then bs ! i else 0)"
proof (cases "data = []")
  case True
  with assms show ?thesis by auto
next
  case False
  with assms show ?thesis by (auto simp: pwrite_def nth_append min_def not_less)
qed

lemma bslice_pwrite_same:
  assumes "b = off + length data" and "data \<noteq> []"
  shows "bslice (pwrite bs off data) off b = data"
proof (rule nth_equalityI)
  fix i assume "i < length (bslice (pwrite bs off data) off b)"
  with assms have i: "i < length data" by (simp add: buf_simps)
  have l: "length (pwrite bs off data) = max (length bs) (off + length data)"
    using assms by (simp add: buf_simps)
  then show "bslice (pwrite bs off data) off b ! i = data ! i"
    using i assms by (simp add: nth_bslice nth_pwrite)
qed (use assms in \<open>simp add: buf_simps\<close>)

lemma bslice_pwrite_before:
  assumes "b \<le> off" and "b \<le> length bs"
  shows "bslice (pwrite bs off data) a b = bslice bs a b"
proof (rule bslice_eq_nth)
  show "b \<le> length (pwrite bs off data)" using assms length_pwrite_ge [of bs off data] by simp
  show "pwrite bs off data ! i = bs ! i" if "a \<le> i" "i < b" for i
    using that assms length_pwrite_ge [of bs off data] by (simp add: nth_pwrite)
qed (use assms in simp)

lemma bslice_pwrite_after:
  assumes "off + length data \<le> a" and "b \<le> length bs"
  shows "bslice (pwrite bs off data) a b = bslice bs a b"
proof (rule bslice_eq_nth)
  show "b \<le> length (pwrite bs off data)" using assms length_pwrite_ge [of bs off data] by simp
  show "pwrite bs off data ! i = bs ! i" if "a \<le> i" "i < b" for i
    using that assms length_pwrite_ge [of bs off data] by (simp add: nth_pwrite)
qed (use assms in simp)

section \<open>The interface of a positioned byte store\<close>

text \<open>
  What the record log relies on: a read returns the bytes last written at its range, writes
  elsewhere do not disturb it, and the store grows to hold what is written.
\<close>

locale byte_store =
  fixes rd :: "'f \<Rightarrow> nat \<Rightarrow> nat \<Rightarrow> bytes option"
    and wr :: "'f \<Rightarrow> nat \<Rightarrow> bytes \<Rightarrow> 'f"
    and size_of :: "'f \<Rightarrow> nat"
  assumes rd_defined: "rd f a n \<noteq> None \<longleftrightarrow> a + n \<le> size_of f"
    and rd_length: "rd f a n = Some bs \<Longrightarrow> length bs = n"
    and rd_wr_same: "bs \<noteq> [] \<Longrightarrow> rd (wr f a bs) a (length bs) = Some bs"
    and rd_wr_before: "a + n \<le> b \<Longrightarrow> a + n \<le> size_of f \<Longrightarrow> rd (wr f b bs) a n = rd f a n"
    and wr_nothing: "wr f a [] = f"
    and size_wr: "bs \<noteq> [] \<Longrightarrow> size_of (wr f a bs) = max (size_of f) (a + length bs)"
begin

text \<open>A record is written as a frame and then a payload; both read back.\<close>

lemma rd_two_writes_first:
  assumes "xs \<noteq> []"
  shows "rd (wr (wr f a xs) (a + length xs) ys) a (length xs) = Some xs"
proof -
  have "a + length xs \<le> size_of (wr f a xs)" using assms by (simp add: size_wr)
  then show ?thesis using assms by (simp add: rd_wr_before rd_wr_same)
qed

lemma rd_two_writes_second:
  assumes "xs \<noteq> []"
  shows "rd (wr (wr f a xs) (a + length xs) ys) (a + length xs) (length ys) = Some ys"
proof (cases "ys = []")
  case True
  have "rd (wr f a xs) (a + length xs) 0 \<noteq> None"
    using assms by (simp add: rd_defined size_wr del: not_None_eq)
  then obtain zs where "rd (wr f a xs) (a + length xs) 0 = Some zs" by blast
  then show ?thesis using True rd_length by (fastforce simp: wr_nothing)
next
  case False
  then show ?thesis by (rule rd_wr_same)
qed

lemma rd_two_writes_before:
  assumes "b + n \<le> a" and "b + n \<le> size_of f"
  shows "rd (wr (wr f a xs) (a + length xs) ys) b n = rd f b n"
proof -
  have s: "b + n \<le> size_of (wr f a xs)"
    using assms by (cases "xs = []") (simp_all add: size_wr wr_nothing)
  have "rd (wr (wr f a xs) (a + length xs) ys) b n = rd (wr f a xs) b n"
    using s assms by (intro rd_wr_before) simp_all
  also have "\<dots> = rd f b n" using assms by (rule rd_wr_before)
  finally show ?thesis .
qed

end

interpretation raw_file: byte_store pread pwrite length
proof
  fix f :: bytes and a n b :: nat and bs :: bytes
  show "pread f a n \<noteq> None \<longleftrightarrow> a + n \<le> length f" by (simp add: pread_def)
  show "pread f a n = Some bs \<Longrightarrow> length bs = n"
    by (auto simp: pread_def buf_simps split: if_splits)
  show "bs \<noteq> [] \<Longrightarrow> pread (pwrite f a bs) a (length bs) = Some bs"
    by (simp add: pread_def buf_simps bslice_pwrite_same)
  show "a + n \<le> b \<Longrightarrow> a + n \<le> length f \<Longrightarrow> pread (pwrite f b bs) a n = pread f a n"
    using length_pwrite_ge [of f b bs] by (simp add: pread_def bslice_pwrite_before)
  show "pwrite f a [] = f" by simp
  show "bs \<noteq> [] \<Longrightarrow> length (pwrite f a bs) = max (length f) (a + length bs)"
    by (rule length_pwrite)
qed

section \<open>The file and the operating system\<close>

record dbfile =
  content :: bytes
  older :: "bytes list"
  ops :: nat

record os =
  rd_fault :: "nat \<Rightarrow> nat \<Rightarrow> io_error option"
  wr_fault :: "nat \<Rightarrow> (nat \<times> io_error) option"
  sync_fault :: "nat \<Rightarrow> io_error option"
  open_fault :: "io_error option"

definition empty_file :: dbfile where
  "empty_file = \<lparr>content = [], older = [], ops = 0\<rparr>"

definition versions :: "dbfile \<Rightarrow> bytes list" where
  "versions f = content f # older f"

text \<open>An operating system on which nothing fails, and one on which no read fails.\<close>

definition os_ok :: os where
  "os_ok = \<lparr>rd_fault = (\<lambda>_ _. None), wr_fault = (\<lambda>_. None), sync_fault = (\<lambda>_. None), open_fault = None\<rparr>"

definition reads_ok :: "os \<Rightarrow> bool" where
  "reads_ok os \<longleftrightarrow> (\<forall>off n. rd_fault os off n = None) \<and> open_fault os = None"

definition all_ok :: "os \<Rightarrow> bool" where
  "all_ok os \<longleftrightarrow> reads_ok os \<and> (\<forall>k. wr_fault os k = None) \<and> (\<forall>k. sync_fault os k = None)"

lemma os_ok_all_ok [simp]: "all_ok os_ok" and os_ok_reads_ok [simp]: "reads_ok os_ok"
  by (simp_all add: all_ok_def reads_ok_def os_ok_def)

lemma all_ok_reads_ok: "all_ok os \<Longrightarrow> reads_ok os"
  by (simp add: all_ok_def)

text \<open>The largest file offset, \<open>off_t\<close> being 64 bits signed.\<close>

definition max_off :: nat where
  "max_off = 2 ^ 63 - 1"

section \<open>Positioned I/O on Unix\<close>

text \<open>
  \<open>read_exact_at(file, buf, offset)\<close> with a buffer of \<open>n\<close> bytes returns the buffer's new
  content. \<open>FileExt::read_exact_at\<close> issues no call for an empty buffer, fails with
  \<open>UnexpectedEof\<close> where the file ends first, and passes every other error on.
\<close>

definition read_exact_at :: "os \<Rightarrow> dbfile \<Rightarrow> nat \<Rightarrow> u64 \<Rightarrow> io_error + bytes" where
  "read_exact_at os f n off =
     (if n = 0 then Inr []
      else if max_off < unat off + n then Inl InvalidInputKind
      else case rd_fault os (unat off) n of
        Some e \<Rightarrow> Inl e
      | None \<Rightarrow> (case pread (content f) (unat off) n of
                  Some bs \<Rightarrow> Inr bs
                | None \<Rightarrow> Inl UnexpectedEofKind))"

text \<open>
  \<open>write_all_at\<close> either writes the whole buffer or fails after a prefix of it: at a fault of
  the operating system, or where the file would outgrow \<open>max_off\<close>.
\<close>

definition write_all_at :: "os \<Rightarrow> dbfile \<Rightarrow> bytes \<Rightarrow> u64 \<Rightarrow> (io_error + unit) \<times> dbfile" where
  "write_all_at os f buf off =
     (if buf = [] then (Inr (), f)
      else let room = max_off - unat off;
               put = (\<lambda>n. \<lparr>content = pwrite (content f) (unat off) (take n buf),
                           older = content f # older f, ops = Suc (ops f)\<rparr>)
           in case wr_fault os (ops f) of
                Some (k, e) \<Rightarrow> (Inl e, put (min k room))
              | None \<Rightarrow> if length buf \<le> room then (Inr (), put (length buf))
                        else (Inl FileTooLargeKind, put room))"

text \<open>
  \<open>File::sync_data\<close> and \<open>File::sync_all\<close>: everything written so far is durable, what an earlier
  sync failed to flush included. A system that drops the pages of a failed sync gives less;
  what is proved of commits after a failed one rests on the retry doing its work.
\<close>

definition sync_file :: "os \<Rightarrow> dbfile \<Rightarrow> (io_error + unit) \<times> dbfile" where
  "sync_file os f =
     (case sync_fault os (ops f) of
        Some e \<Rightarrow> (Inl e, f\<lparr>ops := Suc (ops f)\<rparr>)
      | None \<Rightarrow> (Inr (), f\<lparr>older := [], ops := Suc (ops f)\<rparr>))"

lemma read_exact_at_ok:
  assumes "reads_ok os" and "unat off + n \<le> length (content f)" and "length (content f) \<le> max_off"
  shows "read_exact_at os f n off = Inr (bslice (content f) (unat off) (unat off + n))"
  using assms by (auto simp: read_exact_at_def reads_ok_def pread_def buf_simps)

lemma read_exact_at_Inr:
  assumes "read_exact_at os f n off = Inr bs"
  shows "length bs = n \<and> (0 < n \<longrightarrow> unat off + n \<le> max_off \<and> unat off + n \<le> length (content f)
    \<and> bs = bslice (content f) (unat off) (unat off + n))"
  using assms by (auto simp: read_exact_at_def pread_def buf_simps split: if_splits option.splits)

lemma read_exact_at_reads: "read_exact_at os f n off = Inr bs \<Longrightarrow> read_exact_at os_ok f n off = Inr bs"
  by (auto simp: read_exact_at_def os_ok_def split: if_splits option.splits)

text \<open>What a write leaves, whatever the operating system did.\<close>

lemma write_all_at_effect:
  assumes "write_all_at os f buf off = (r, f')"
  obtains n where "n \<le> length buf"
    and "content f' = pwrite (content f) (unat off) (take n buf)"
    and "set (versions f') = insert (content f') (set (versions f))"
    and "r = Inr () \<Longrightarrow> n = length buf \<and> (buf \<noteq> [] \<longrightarrow> unat off + length buf \<le> max_off)"
    and "length (content f) \<le> max_off \<Longrightarrow> length (content f') \<le> max_off"
proof (cases "buf = []")
  case True
  with assms have "f' = f" by (simp add: write_all_at_def)
  then show thesis using that [of 0] True by (auto simp: versions_def)
next
  case False
  define room where "room = max_off - unat off"
  have lim: "length (content f) \<le> max_off \<Longrightarrow> n \<le> room \<Longrightarrow> n \<le> length buf \<Longrightarrow>
      length (pwrite (content f) (unat off) (take n buf)) \<le> max_off" for n
    using length_pwrite_le [of "content f" "unat off" "take n buf"]
    by (cases "n = 0") (auto simp: room_def)
  show thesis
  proof (cases "wr_fault os (ops f)")
    case None
    show thesis
    proof (cases "length buf \<le> room")
      case True
      with assms False None have "r = Inr ()"
        "content f' = pwrite (content f) (unat off) (take (length buf) buf)"
        "set (versions f') = insert (content f') (set (versions f))"
        by (auto simp: write_all_at_def room_def versions_def Let_def)
      moreover have "unat off + length buf \<le> max_off" using True False room_def
        by (cases "unat off \<le> max_off") auto
      ultimately show thesis using that [of "length buf"] lim [of "length buf"] True by simp
    next
      case False': False
      with assms False None have "r = Inl FileTooLargeKind"
        "content f' = pwrite (content f) (unat off) (take room buf)"
        "set (versions f') = insert (content f') (set (versions f))"
        by (auto simp: write_all_at_def room_def versions_def Let_def)
      then show thesis using that [of room] lim [of room] False' by simp
    qed
  next
    case (Some ke)
    obtain k e where ke: "ke = (k, e)" by force
    define n where "n = min (min k room) (length buf)"
    have "take (min k room) buf = take n buf" by (simp add: n_def min_def)
    with assms False Some ke have "r = Inl e"
      "content f' = pwrite (content f) (unat off) (take n buf)"
      "set (versions f') = insert (content f') (set (versions f))"
      by (auto simp: write_all_at_def room_def versions_def Let_def)
    then show thesis using that [of n] lim [of n] by (simp add: n_def)
  qed
qed

lemma write_all_at_Inr:
  assumes "write_all_at os f buf off = (Inr u, f')"
  shows "content f' = pwrite (content f) (unat off) buf"
    and "buf \<noteq> [] \<Longrightarrow> unat off + length buf \<le> max_off"
  by (rule write_all_at_effect [OF assms]; simp)+

lemma write_all_at_length:
  assumes "write_all_at os f buf off = (r, f')" and "length (content f) \<le> max_off"
  shows "length (content f') \<le> max_off"
  by (rule write_all_at_effect [OF assms(1)]) (use assms(2) in simp)

lemma write_all_at_ok:
  assumes "all_ok os" and "unat off + length buf \<le> max_off"
  shows "fst (write_all_at os f buf off) = Inr ()"
  using assms by (auto simp: write_all_at_def all_ok_def Let_def)

lemma sync_file_effect:
  assumes "sync_file os f = (r, f')"
  shows "content f' = content f" and "r = Inr () \<Longrightarrow> versions f' = [content f]"
    and "r \<noteq> Inr () \<Longrightarrow> versions f' = versions f" and "set (versions f') \<subseteq> set (versions f)"
  using assms by (auto simp: sync_file_def versions_def split: option.splits)

lemma sync_file_ok: "all_ok os \<Longrightarrow> fst (sync_file os f) = Inr ()"
  by (simp add: sync_file_def all_ok_def)

section \<open>Power loss\<close>

text \<open>Byte \<open>i\<close> of a version, zero past its end.\<close>

definition byte_at :: "bytes \<Rightarrow> nat \<Rightarrow> u8" where
  "byte_at bs i = (if i < length bs then bs ! i else 0)"

definition crash_image :: "dbfile \<Rightarrow> bytes \<Rightarrow> bool" where
  "crash_image f img \<longleftrightarrow>
     (\<exists>v\<in>set (versions f). length v \<le> length img) \<and> (\<exists>v\<in>set (versions f). length img \<le> length v) \<and>
     (\<forall>i<length img. \<exists>v\<in>set (versions f). img ! i = byte_at v i)"

text \<open>A file found on disk after a power loss: what it holds is durable.\<close>

definition disk_file :: "bytes \<Rightarrow> dbfile" where
  "disk_file img = \<lparr>content = img, older = [], ops = 0\<rparr>"

lemma crash_image_content: "crash_image f (content f)"
  by (auto simp: crash_image_def versions_def byte_at_def)

lemma crash_image_length:
  assumes "crash_image f img" and "\<forall>v\<in>set (versions f). n \<le> length v \<and> length v \<le> m"
  shows "n \<le> length img \<and> length img \<le> m"
  using assms unfolding crash_image_def by (meson order_trans)

text \<open>Where all versions agree on a range, so does every crash image.\<close>

lemma crash_image_agree:
  assumes img: "crash_image f img"
    and agree: "\<forall>v\<in>set (versions f). b \<le> length v \<and> bslice v a b = bslice (content f) a b"
  shows "bslice img a b = bslice (content f) a b"
proof (rule bslice_eq_nth)
  show "b \<le> length img" using img agree unfolding crash_image_def by (meson order_trans)
  show "b \<le> length (content f)" using agree by (simp add: versions_def)
  fix i assume i: "a \<le> i" "i < b"
  then have "i < length img" using \<open>b \<le> length img\<close> by simp
  then obtain v where v: "v \<in> set (versions f)" "img ! i = byte_at v i"
    using img by (auto simp: crash_image_def)
  with agree i have "img ! i = v ! i" "v ! i = content f ! i"
    using bslice_nth_eq [of v a b "content f" i] by (auto simp: byte_at_def versions_def)
  then show "img ! i = content f ! i" by simp
qed

end
