(* ===== verification/Header.thy ===== *)
theory Header
  imports Pos_Io
begin

text \<open>
  The file header and its two-slot commit protocol (\<open>src/src/storage/header.rs\<close>):
  the 64-byte slot format, the choice of the live slot on open and the choice of the slot a
  commit overwrites. \<open>crc\<close> stands for \<open>crc32fast::hash\<close>.
\<close>

section \<open>Constants and the header record\<close>

definition MAGIC :: bytes where "MAGIC = [67, 78, 68, 66]"

definition FORMAT_VERSION :: u32 where "FORMAT_VERSION = 0x00030000"

definition HEADER_SIZE :: nat where "HEADER_SIZE = 64"

definition HEADER_SLOTS :: nat where "HEADER_SLOTS = 2"

definition LOG_START :: u64 where "LOG_START = of_nat (HEADER_SIZE * HEADER_SLOTS)"

lemma MAGIC_length [simp]: "length MAGIC = 4"
  by (simp add: MAGIC_def)

lemma HEADER_SIZE_eq [simp]: "HEADER_SIZE = 64" and HEADER_SLOTS_eq [simp]: "HEADER_SLOTS = 2"
  by (simp_all add: HEADER_SIZE_def HEADER_SLOTS_def)

lemma LOG_START_eq: "LOG_START = 128"
  by (simp add: LOG_START_def)

lemma unat_LOG_START [simp]: "unat LOG_START = 128"
  by (simp add: LOG_START_eq)

record Header =
  generation :: u64
  master_ptr :: u64
  master_len :: u64
  log_end :: u64

definition Header_initial :: Header where
  "Header_initial = \<lparr>generation = 0, master_ptr = 0, master_len = 0, log_end = LOG_START\<rparr>"

section \<open>Encoding and decoding a slot\<close>

definition Header_encode :: "(bytes \<Rightarrow> u32) \<Rightarrow> Header \<Rightarrow> bytes" where
  "Header_encode crc h =
     (let buf = replicate HEADER_SIZE 0;
          buf = put_at buf 0 MAGIC;
          buf = put_at buf 4 (le_bytes 4 FORMAT_VERSION);
          buf = put_at buf 8 (le_bytes 8 (generation h));
          buf = put_at buf 16 (le_bytes 8 (master_ptr h));
          buf = put_at buf 24 (le_bytes 8 (master_len h));
          buf = put_at buf 32 (le_bytes 8 (log_end h));
          c = crc buf
      in put_at buf 40 (le_bytes 4 c))"

definition Header_decode :: "(bytes \<Rightarrow> u32) \<Rightarrow> bytes \<Rightarrow> nat \<Rightarrow> CndbError + Header" where
  "Header_decode crc buf slot =
     (let magic = bslice buf 0 4 in
      if magic \<noteq> MAGIC then Inl (BadMagic MAGIC magic)
      else let stored_crc = (le_word (bslice buf 40 44) :: u32);
               probe = put_at buf 40 (replicate 4 0) in
      if crc probe \<noteq> stored_crc then Inl (HeaderChecksum slot)
      else let version = (le_word (bslice buf 4 8) :: u32) in
      if version \<noteq> FORMAT_VERSION then Inl (UnsupportedVersion version FORMAT_VERSION)
      else Inr \<lparr>generation = le_word (bslice buf 8 16), master_ptr = le_word (bslice buf 16 24),
                master_len = le_word (bslice buf 24 32), log_end = le_word (bslice buf 32 40)\<rparr>)"

definition slot_offset :: "nat \<Rightarrow> u64" where
  "slot_offset slot = of_nat (slot * HEADER_SIZE)"

lemma unat_slot_offset: "slot < 2 \<Longrightarrow> unat (slot_offset slot) = slot * 64"
  by (auto simp: slot_offset_def less_2_cases_iff)

text \<open>The 64 bytes of a slot, field by field, with the checksum field holding \<open>c\<close>.\<close>

definition slot_image :: "Header \<Rightarrow> u32 \<Rightarrow> bytes" where
  "slot_image h c = MAGIC @ le_bytes 4 FORMAT_VERSION @ le_bytes 8 (generation h) @
     le_bytes 8 (master_ptr h) @ le_bytes 8 (master_len h) @ le_bytes 8 (log_end h) @
     le_bytes 4 c @ replicate 20 0"

lemma length_slot_image [simp]: "length (slot_image h c) = 64"
  by (simp add: slot_image_def)

lemma le_bytes_zero [simp]: "le_bytes n 0 = replicate n 0"
  by (simp add: le_bytes_def map_replicate_const)

lemma Header_encode_image: "Header_encode crc h = slot_image h (crc (slot_image h 0))"
proof -
  have pre: "put_at (put_at (put_at (put_at (put_at (put_at (replicate 64 0) 0 MAGIC) 4
      (le_bytes 4 FORMAT_VERSION)) 8 (le_bytes 8 (generation h))) 16 (le_bytes 8 (master_ptr h)))
      24 (le_bytes 8 (master_len h))) 32 (le_bytes 8 (log_end h)) = slot_image h 0"
    by (simp add: put_at_def slot_image_def flip: replicate_add)
  have post: "put_at (slot_image h 0) 40 (le_bytes 4 c) = slot_image h c" for c :: u32
    by (simp add: put_at_def slot_image_def)
  show ?thesis by (simp add: Header_encode_def Let_def pre post)
qed

lemma slot_image_fields:
  "bslice (slot_image h c) 0 4 = MAGIC"
  "bslice (slot_image h c) 4 8 = le_bytes 4 FORMAT_VERSION"
  "bslice (slot_image h c) 8 16 = le_bytes 8 (generation h)"
  "bslice (slot_image h c) 16 24 = le_bytes 8 (master_ptr h)"
  "bslice (slot_image h c) 24 32 = le_bytes 8 (master_len h)"
  "bslice (slot_image h c) 32 40 = le_bytes 8 (log_end h)"
  "bslice (slot_image h c) 40 44 = le_bytes 4 c"
  "put_at (slot_image h c) 40 (replicate 4 0) = slot_image h 0"
  by (simp_all add: slot_image_def bslice_def put_at_def)

lemma length_Header_encode [simp]: "length (Header_encode crc h) = 64"
  by (simp add: Header_encode_image)

text \<open>C33: a header survives its on-disk form, in either slot and for every checksum function.\<close>

theorem Header_roundtrip: "Header_decode crc (Header_encode crc h) slot = Inr h"
  by (simp add: Header_decode_def Header_encode_image slot_image_fields)


text \<open>
  C34: the decoder accepts nothing but encoder output: a slot that decodes and whose reserved
  bytes are zero is the encoding of the header it decodes to.
\<close>

theorem Header_decode_canonical:
  assumes "length buf = 64" and "Header_decode crc buf slot = Inr h"
    and "bslice buf 44 64 = replicate 20 0"
  shows "buf = Header_encode crc h"
proof -
  have fields: "bslice buf 0 4 = MAGIC" "le_word (bslice buf 4 8) = FORMAT_VERSION"
    "le_word (bslice buf 8 16) = generation h" "le_word (bslice buf 16 24) = master_ptr h"
    "le_word (bslice buf 24 32) = master_len h" "le_word (bslice buf 32 40) = log_end h"
    and sum: "crc (put_at buf 40 (replicate 4 0)) = le_word (bslice buf 40 44)"
    using assms(2) by (auto simp: Header_decode_def Let_def split: if_splits)
  have w4: "bslice buf a b = le_bytes 4 (le_word (bslice buf a b) :: u32)"
    if "b = a + 4" "b \<le> 64" for a b
    using le_bytes_le_word [of "bslice buf a b", where 'a = 32] that assms(1)
    by (simp add: length_bslice)
  have w8: "bslice buf a b = le_bytes 8 (le_word (bslice buf a b) :: u64)"
    if "b = a + 8" "b \<le> 64" for a b
    using le_bytes_le_word [of "bslice buf a b", where 'a = 64] that assms(1)
    by (simp add: length_bslice)
  have "buf = bslice buf 0 64" using assms(1) by (simp add: bslice_def)
  also have "\<dots> = bslice buf 0 4 @ bslice buf 4 8 @ bslice buf 8 16 @ bslice buf 16 24 @
      bslice buf 24 32 @ bslice buf 32 40 @ bslice buf 40 44 @ bslice buf 44 64"
    by (simp flip: bslice_split)
  also have "\<dots> = slot_image h (le_word (bslice buf 40 44))"
    using fields assms(3) w4 [of 8 4] w4 [of 44 40] w8 [of 16 8] w8 [of 24 16] w8 [of 32 24]
      w8 [of 40 32]
    by (simp add: slot_image_def)
  finally have img: "buf = slot_image h (le_word (bslice buf 40 44))" .
  then have "crc (slot_image h 0) = le_word (bslice buf 40 44)"
    using sum slot_image_fields(8) by metis
  then show ?thesis using img by (simp add: Header_encode_image)
qed

theorem Header_decode_canonical_witness:
  "slot_image Header_initial 7 = Header_encode (\<lambda>_. 7) Header_initial"
proof (rule Header_decode_canonical [where slot = 0])
  show "Header_decode (\<lambda>_. 7) (slot_image Header_initial 7) 0 = Inr Header_initial"
    by (simp add: Header_decode_def slot_image_fields)
  show "bslice (slot_image Header_initial 7) 44 64 = replicate 20 0"
    by (simp add: slot_image_def bslice_def)
qed simp

text \<open>The errors of a slot, in the order the code checks: magic, checksum, version.\<close>

lemma Header_decode_BadMagic:
  "bslice buf 0 4 \<noteq> MAGIC \<Longrightarrow> Header_decode crc buf slot = Inl (BadMagic MAGIC (bslice buf 0 4))"
  by (simp add: Header_decode_def Let_def)

lemma Header_decode_checksum:
  "bslice buf 0 4 = MAGIC \<Longrightarrow> crc (put_at buf 40 (replicate 4 0)) \<noteq> le_word (bslice buf 40 44) \<Longrightarrow>
   Header_decode crc buf slot = Inl (HeaderChecksum slot)"
  by (simp add: Header_decode_def Let_def)

text \<open>The slot number labels errors only.\<close>

lemma Header_decode_slot:
  "Header_decode crc buf i = Inr h \<longleftrightarrow> Header_decode crc buf j = Inr h"
  by (simp add: Header_decode_def Let_def)

section \<open>Damage to a slot\<close>

text \<open>
  A documented property of CRC-32: two buffers of the same length that differ in exactly one
  byte have different checksums.
\<close>

definition detects_one_byte :: "(bytes \<Rightarrow> u32) \<Rightarrow> bool" where
  "detects_one_byte crc \<longleftrightarrow> (\<forall>bs i b. i < length bs \<and> bs ! i \<noteq> b \<longrightarrow> crc (bs[i := b]) \<noteq> crc bs)"

lemma put_at_update_in:
  "a \<le> i \<Longrightarrow> i < a + length xs \<Longrightarrow> put_at (bs[i := b]) a xs = put_at bs a xs"
  by (simp add: put_at_def)

lemma put_at_update_out:
  assumes "i < a \<or> a + length xs \<le> i" and "a + length xs \<le> length bs"
  shows "put_at (bs[i := b]) a xs = (put_at bs a xs)[i := b]"
proof (rule nth_equalityI)
  fix j assume "j < length (put_at (bs[i := b]) a xs)"
  then show "put_at (bs[i := b]) a xs ! j = (put_at bs a xs)[i := b] ! j"
    using assms by (auto simp: put_at_def nth_append nth_list_update min_def list_update_append)
qed (use assms in \<open>simp add: buf_simps\<close>)

lemma bslice_update_out: "i < a \<or> b \<le> i \<Longrightarrow> bslice (bs[i := x]) a b = bslice bs a b"
  by (cases "i < a") (auto simp: bslice_def drop_update_cancel take_update_cancel drop_update_swap)

lemma bslice_update_in:
  assumes "a \<le> i" and "i < b" and "i < length bs" and "bs ! i \<noteq> x"
  shows "bslice (bs[i := x]) a b \<noteq> bslice bs a b"
proof
  assume "bslice (bs[i := x]) a b = bslice bs a b"
  then have "bslice (bs[i := x]) a b ! (i - a) = bslice bs a b ! (i - a)" by simp
  then show False using assms by (simp add: nth_bslice)
qed

lemma Header_damaged:
  assumes crc: "detects_one_byte crc" and i: "i < HEADER_SIZE"
    and b: "b \<noteq> Header_encode crc h ! i"
  shows "\<exists>e. Header_decode crc ((Header_encode crc h)[i := b]) slot = Inl e"
proof -
  define c where "c = crc (slot_image h 0)"
  define buf where "buf = slot_image h c"
  have buf: "Header_encode crc h = buf" by (simp add: Header_encode_image buf_def c_def)
  have len: "length buf = 64" by (simp add: buf_def)
  note ne = b [unfolded buf]
  consider "i < 4" | "40 \<le> i" "i < 44" | "4 \<le> i" "i < 40 \<or> 44 \<le> i" by linarith
  then show ?thesis
  proof cases
    case 1
    have "bslice (buf[i := b]) 0 4 \<noteq> bslice buf 0 4"
      by (rule bslice_update_in) (use 1 ne len in auto)
    then show ?thesis unfolding buf by (auto simp: buf_def slot_image_fields Header_decode_BadMagic)
  next
    case 2
    have "bslice (buf[i := b]) 40 44 \<noteq> bslice buf 40 44"
      by (rule bslice_update_in) (use 2 ne len in auto)
    moreover have "length (bslice (buf[i := b]) 40 44) = 4" using len by (simp add: length_bslice)
    ultimately have "(le_word (bslice (buf[i := b]) 40 44) :: u32) \<noteq> c"
      using le_bytes_le_word [of "bslice (buf[i := b]) 40 44", where 'a = 32]
      by (auto simp: buf_def slot_image_fields)
    moreover have "put_at (buf[i := b]) 40 (replicate 4 0) = slot_image h 0"
      using 2 by (subst put_at_update_in) (simp_all add: buf_def slot_image_fields)
    moreover have "bslice (buf[i := b]) 0 4 = MAGIC"
      using 2 by (simp add: bslice_update_out buf_def slot_image_fields)
    ultimately show ?thesis unfolding buf by (metis Header_decode_checksum c_def)
  next
    case 3
    have p: "put_at (buf[i := b]) 40 (replicate 4 0) = (slot_image h 0)[i := b]"
      using 3 len by (subst put_at_update_out) (auto simp: buf_def slot_image_fields)
    have "slot_image h 0 ! i = buf ! i"
    proof -
      have "put_at buf 40 (replicate 4 0) ! i = buf ! i"
        using 3 len i by (auto simp: put_at_def nth_append min_def)
      then show ?thesis by (simp add: buf_def slot_image_fields)
    qed
    then have "crc ((slot_image h 0)[i := b]) \<noteq> c"
      using crc ne i by (auto simp: detects_one_byte_def c_def)
    moreover have "le_word (bslice (buf[i := b]) 40 44) = c"
      using 3 by (simp add: bslice_update_out buf_def slot_image_fields)
    moreover have "bslice (buf[i := b]) 0 4 = MAGIC"
      using 3 by (simp add: bslice_update_out buf_def slot_image_fields)
    ultimately show ?thesis unfolding buf using p by (metis Header_decode_checksum)
  qed
qed

text \<open>
  C35: damage to any single byte of a header slot, the checksum field and the reserved bytes
  included, is detected: the slot no longer decodes.
\<close>

theorem Header_detects_corruption:
  assumes "detects_one_byte crc" and "i < HEADER_SIZE" and "b \<noteq> Header_encode crc h ! i"
  shows "\<exists>e. Header_decode crc ((Header_encode crc h)[i := b]) slot = Inl e"
  using assms by (rule Header_damaged)

section \<open>The interface of a fixed-width codec\<close>

text \<open>
  A codec of fixed width whose decoder inverts its encoder, as the engine uses it to store
  headers at fixed offsets of the file.
\<close>

locale fixed_codec =
  fixes enc :: "'a \<Rightarrow> bytes" and dec :: "bytes \<Rightarrow> 'e + 'a" and width :: nat
  assumes enc_width: "length (enc x) = width"
    and width_pos: "0 < width"
    and dec_enc: "dec (enc x) = Inr x"
begin

lemma enc_inj: "enc x = enc y \<Longrightarrow> x = y"
  by (metis dec_enc sum.inject(2))

lemma enc_nonempty: "enc x \<noteq> []"
  using enc_width [of x] width_pos by auto

lemma dec_after_write: "dec (bslice (pwrite bs off (enc x)) off (off + width)) = Inr x"
  using bslice_pwrite_same [of "off + width" off "enc x" bs] enc_nonempty dec_enc
  by (simp add: enc_width)

lemma dec_beside_write:
  "off + width \<le> a \<or> b \<le> off \<Longrightarrow> b \<le> length bs \<Longrightarrow>
   dec (bslice (pwrite bs off (enc x)) a b) = dec (bslice bs a b)"
  using bslice_pwrite_after [of off "enc x" a b bs] bslice_pwrite_before [of b off bs "enc x" a]
  by (auto simp: enc_width)

end

interpretation header_codec: fixed_codec "Header_encode crc" "\<lambda>buf. Header_decode crc buf slot" 64
  for crc :: "bytes \<Rightarrow> u32" and slot :: nat
proof
  show "length (Header_encode crc h) = 64" for h by simp
  show "(0::nat) < 64" by simp
  show "Header_decode crc (Header_encode crc h) slot = Inr h" for h
    by (simp add: Header_decode_def Header_encode_image slot_image_fields)
qed


section \<open>The live slot and the victim slot\<close>

definition select_live :: "Header option list \<Rightarrow> CndbError + Header \<times> nat" where
  "select_live slots =
     (case max_by_key (\<lambda>(h, _). generation h)
             (List.map_filter (\<lambda>(i, h). map_option (\<lambda>h. (h, i)) h) (enumerate 0 slots)) of
        Some live \<Rightarrow> Inr live
      | None \<Rightarrow> Inl NoValidHeader)"

text \<open>
  The array has \<open>HEADER_SLOTS\<close> elements, so the last branch, the panic of
  \<open>expect("at least one slot")\<close>, is not reached; nor is that of \<open>expect("all slots valid")\<close>,
  the first branch having dealt with an empty slot.
\<close>

definition victim_slot :: "Header option list \<Rightarrow> nat" where
  "victim_slot slots =
     (case position (\<lambda>h. h = None) slots of
        Some i \<Rightarrow> i
      | None \<Rightarrow> (case min_by_key (\<lambda>(_, h). generation (the h)) (enumerate 0 slots) of
                  Some (i, _) \<Rightarrow> i
                | None \<Rightarrow> 0))"

lemma two_slots:
  assumes "length slots = HEADER_SLOTS"
  obtains a b where "slots = [a, b]"
  using assms by (auto simp: numeral_2_eq_2 length_Suc_conv)

lemma select_live_simps [simp]:
  "select_live [None, None] = Inl NoValidHeader"
  "select_live [Some a, None] = Inr (a, 0)"
  "select_live [None, Some b] = Inr (b, 1)"
  "select_live [Some a, Some b] =
     (if generation a \<le> generation b then Inr (b, 1) else Inr (a, 0))"
  by (simp_all add: select_live_def List.map_filter_def)

lemma victim_slot_simps [simp]:
  "victim_slot [None, x] = 0"
  "victim_slot [Some a, None] = 1"
  "victim_slot [Some a, Some b] = (if generation a \<le> generation b then 0 else 1)"
  by (simp_all add: victim_slot_def)

text \<open>
  C32: the live header is a valid slot with the highest generation, and there is none only
  when no slot decoded.
\<close>

theorem select_live_correct:
  assumes "length slots = HEADER_SLOTS"
  shows "case select_live slots of
      Inr (h, i) \<Rightarrow> i < HEADER_SLOTS \<and> slots ! i = Some h \<and>
        (\<forall>j<HEADER_SLOTS. \<forall>h'. slots ! j = Some h' \<longrightarrow> generation h' \<le> generation h)
    | Inl e \<Rightarrow> e = NoValidHeader \<and> (\<forall>j<HEADER_SLOTS. slots ! j = None)"
  using assms by (cases rule: two_slots; cases "slots ! 0"; cases "slots ! 1")
    (auto simp: less_2_cases_iff)

theorem select_live_correct_witness:
  "case select_live [Some Header_initial, None] of
      Inr (h, i) \<Rightarrow> i < HEADER_SLOTS \<and> [Some Header_initial, None] ! i = Some h \<and>
        (\<forall>j<HEADER_SLOTS. \<forall>h'. [Some Header_initial, None] ! j = Some h' \<longrightarrow> generation h' \<le> generation h)
    | Inl e \<Rightarrow> e = NoValidHeader \<and> (\<forall>j<HEADER_SLOTS. [Some Header_initial, None] ! j = None)"
  by (rule select_live_correct) simp

text \<open>
  A commit never overwrites the live header: the victim is another slot, whatever the two
  slots hold, two valid headers of the same generation included.
\<close>

theorem victim_never_live:
  assumes "length slots = HEADER_SLOTS" and "select_live slots = Inr (h, i)"
  shows "victim_slot slots \<noteq> i \<and> victim_slot slots < HEADER_SLOTS"
  using assms by (cases rule: two_slots; cases "slots ! 0"; cases "slots ! 1")
    (auto split: if_splits)

theorem victim_never_live_witness:
  "victim_slot [Some Header_initial, Some Header_initial] \<noteq> 1 \<and>
   victim_slot [Some Header_initial, Some Header_initial] < HEADER_SLOTS"
  by (rule victim_never_live [where h = Header_initial]) simp_all

lemma select_live_slotD:
  "length slots = HEADER_SLOTS \<Longrightarrow> select_live slots = Inr (h, i) \<Longrightarrow>
   i < 2 \<and> slots ! i = Some h \<and> (\<forall>j<2. \<forall>h'. slots ! j = Some h' \<longrightarrow> generation h' \<le> generation h)"
  by (cases rule: two_slots; cases "slots ! 0"; cases "slots ! 1")
    (auto simp: less_2_cases_iff split: if_splits)

lemma select_live_InlD:
  "length slots = HEADER_SLOTS \<Longrightarrow> select_live slots = Inl e \<Longrightarrow> slots = [None, None] \<and> e = NoValidHeader"
  by (cases rule: two_slots; cases "slots ! 0"; cases "slots ! 1") (auto split: if_splits)

lemma victim_slotD:
  "length slots = HEADER_SLOTS \<Longrightarrow> select_live slots = Inr (h, i) \<Longrightarrow>
   victim_slot slots \<noteq> i \<and> victim_slot slots < 2"
  by (cases rule: two_slots; cases "slots ! 0"; cases "slots ! 1") (auto split: if_splits)

lemma select_live_newer:
  "length slots = HEADER_SLOTS \<Longrightarrow> select_live slots = Inr (h, i) \<Longrightarrow>
   generation h < generation next \<Longrightarrow>
   select_live (slots[victim_slot slots := Some next]) = Inr (next, victim_slot slots)"
  by (cases rule: two_slots; cases "slots ! 0"; cases "slots ! 1")
    (auto split: if_splits)

text \<open>
  The two slots alternate: after a newer header went into the victim slot, that slot is
  live and the next victim is the slot that was live before.
\<close>

lemma slots_alternate:
  assumes "length slots = HEADER_SLOTS" and "select_live slots = Inr (h, i)"
    and "generation h < generation next"
  defines "slots' \<equiv> slots[victim_slot slots := Some next]"
  shows "select_live slots' = Inr (next, victim_slot slots) \<and> victim_slot slots' = i"
  using assms by (cases rule: two_slots; cases "slots ! 0"; cases "slots ! 1")
    (auto split: if_splits)

lemma slots_alternate_witness:
  "select_live ([Some Header_initial, None][victim_slot [Some Header_initial, None] := Some (Header_initial\<lparr>generation := 1\<rparr>)]) =
     Inr (Header_initial\<lparr>generation := 1\<rparr>, victim_slot [Some Header_initial, None]) \<and>
   victim_slot ([Some Header_initial, None][victim_slot [Some Header_initial, None] := Some (Header_initial\<lparr>generation := 1\<rparr>)]) = 0"
  by (rule slots_alternate [where h = Header_initial]) (simp_all add: Header_initial_def)

end
