(* ===== verification/Record_Log.thy ===== *)
theory Record_Log
  imports Header
begin

text \<open>
  Record framing for the append-only log (\<open>src/src/storage/record.rs\<close>): the record kinds and
  their tags, the 9-byte frame that precedes every payload, and the payload checksum.
  \<open>crc\<close> stands for \<open>crc32fast::hash\<close>.
\<close>

section \<open>Record kinds\<close>

definition RECORD_HEADER_SIZE :: u64 where "RECORD_HEADER_SIZE = 9"

definition MAX_RECORD_LEN :: u64 where "MAX_RECORD_LEN = 64 * 1024 * 1024"

lemma unat_RECORD_HEADER_SIZE [simp]: "unat RECORD_HEADER_SIZE = 9"
  by (simp add: RECORD_HEADER_SIZE_def)

lemma MAX_RECORD_LEN_eq: "MAX_RECORD_LEN = 67108864"
  by (simp add: MAX_RECORD_LEN_def)

lemma unat_MAX_RECORD_LEN [simp]: "unat MAX_RECORD_LEN = 67108864"
  by (simp add: MAX_RECORD_LEN_eq)

datatype RecordKind = Node | Edge | Blob | Tombstone | MasterIndexKind

text \<open>\<open>kind as u8\<close>, by the discriminants of the enum.\<close>

fun kind_tag :: "RecordKind \<Rightarrow> u8" where
  "kind_tag Node = 0"
| "kind_tag Edge = 1"
| "kind_tag Blob = 2"
| "kind_tag Tombstone = 3"
| "kind_tag MasterIndexKind = 4"

definition from_tag :: "u8 \<Rightarrow> u64 \<Rightarrow> CndbError + RecordKind" where
  "from_tag tag offset =
     (if tag = 0 then Inr Node
      else if tag = 1 then Inr Edge
      else if tag = 2 then Inr Blob
      else if tag = 3 then Inr Tombstone
      else if tag = 4 then Inr MasterIndexKind
      else Inl (UnknownRecordKind tag offset))"

fun is_document :: "RecordKind \<Rightarrow> bool" where
  "is_document Node = True"
| "is_document Edge = True"
| "is_document Blob = True"
| "is_document _ = False"

text \<open>The \<open>Debug\<close> name of a kind, as error messages print it.\<close>

fun debug_kind :: "RecordKind \<Rightarrow> string" where
  "debug_kind Node = ''Node''"
| "debug_kind Edge = ''Edge''"
| "debug_kind Blob = ''Blob''"
| "debug_kind Tombstone = ''Tombstone''"
| "debug_kind MasterIndexKind = ''MasterIndex''"

lemma from_tag_kind_tag [simp]: "from_tag (kind_tag k) offset = Inr k"
  by (cases k) (simp_all add: from_tag_def)

lemma from_tag_InrD: "from_tag tag offset = Inr k \<Longrightarrow> kind_tag k = tag"
  by (auto simp: from_tag_def split: if_splits)

text \<open>
  The five tags 0 to 4 are exactly the known kinds, each parsing to the kind whose
  discriminant it is; every other tag is refused with its value and offset.
\<close>

lemma from_tag_correct:
  "from_tag tag offset =
     (case find (\<lambda>k. kind_tag k = tag) [Node, Edge, Blob, Tombstone, MasterIndexKind] of
        Some k \<Rightarrow> Inr k
      | None \<Rightarrow> Inl (UnknownRecordKind tag offset))"
  by (auto simp: from_tag_def)

lemma from_tag_InlD: "from_tag tag offset = Inl e \<Longrightarrow> e = UnknownRecordKind tag offset \<and> 4 < tag"
proof -
  assume h: "from_tag tag offset = Inl e"
  then have ne: "tag \<noteq> 0" "tag \<noteq> 1" "tag \<noteq> 2" "tag \<noteq> 3" "tag \<noteq> 4"
    and e: "e = UnknownRecordKind tag offset"
    by (auto simp: from_tag_def split: if_splits)
  have "unat tag \<noteq> 0 \<and> unat tag \<noteq> 1 \<and> unat tag \<noteq> 2 \<and> unat tag \<noteq> 3 \<and> unat tag \<noteq> 4"
    using ne by (auto simp: word_unat_eq_iff)
  then have "4 < unat tag" by linarith
  then show ?thesis using e by (simp add: word_less_nat_alt)
qed

section \<open>Frames\<close>

record Record =
  rec_kind :: RecordKind
  payload :: bytes

record Frame =
  frame_len :: u64
  frame_kind :: RecordKind
  frame_crc :: u32

definition encode_frame :: "(bytes \<Rightarrow> u32) \<Rightarrow> RecordKind \<Rightarrow> bytes \<Rightarrow> bytes" where
  "encode_frame crc kind p =
     (let frame = replicate 9 0;
          frame = put_at frame 0 (le_bytes 4 (of_nat (length p) :: u32));
          frame = frame[4 := kind_tag kind]
      in put_at frame 5 (le_bytes 4 (crc p)))"

definition total_len :: "Frame \<Rightarrow> u64" where
  "total_len f = RECORD_HEADER_SIZE + frame_len f"

definition decode_frame :: "bytes \<Rightarrow> u64 \<Rightarrow> CndbError + Frame" where
  "decode_frame buf offset =
     (let len = ucast (le_word (bslice buf 0 4) :: u32) :: u64 in
      if MAX_RECORD_LEN < len then Inl (RecordTooLarge offset len MAX_RECORD_LEN)
      else res_bind (from_tag (buf ! 4) offset) (\<lambda>kind.
        Inr \<lparr>frame_len = len, frame_kind = kind, frame_crc = le_word (bslice buf 5 9)\<rparr>))"

definition verify_payload :: "(bytes \<Rightarrow> u32) \<Rightarrow> Frame \<Rightarrow> bytes \<Rightarrow> u64 \<Rightarrow> CndbError + unit" where
  "verify_payload crc frame p offset =
     (if crc p \<noteq> frame_crc frame then Inl (RecordChecksum offset) else Inr ())"

lemma encode_frame_image:
  "encode_frame crc k p = le_bytes 4 (of_nat (length p) :: u32) @ [kind_tag k] @ le_bytes 4 (crc p)"
  by (simp add: encode_frame_def Let_def put_at_def list_update_append numeral_eq_Suc)

lemma length_encode_frame [simp]: "length (encode_frame crc k p) = 9"
  by (simp add: encode_frame_image)

lemma encode_frame_nonempty [simp]: "encode_frame crc k p \<noteq> []"
  by (simp add: encode_frame_image)

lemma ucast_len: "n \<le> 67108864 \<Longrightarrow> (ucast (of_nat n :: u32) :: u64) = of_nat n"
  by (rule word_unat_eq_iff [THEN iffD2]) (simp add: word_nat)

lemma decode_encode_frame:
  assumes "length p \<le> unat MAX_RECORD_LEN"
  shows "decode_frame (encode_frame crc k p) off =
    Inr \<lparr>frame_len = of_nat (length p), frame_kind = k, frame_crc = crc p\<rparr>"
proof -
  have n: "length p \<le> 67108864" using assms by simp
  then have "\<not> MAX_RECORD_LEN < of_nat (length p)"
    by (simp add: word_less_nat_alt word_nat)
  then show ?thesis
    using n by (simp add: decode_frame_def encode_frame_image bslice_def ucast_len nth_append
        Let_def not_less)
qed

text \<open>
  C36: the frame written before a payload of legal length parses back to that length, kind and
  checksum, and the payload passes its check.
\<close>

theorem frame_roundtrip:
  assumes "length p \<le> unat MAX_RECORD_LEN"
  shows "\<exists>frame. decode_frame (encode_frame crc k p) off = Inr frame \<and>
    unat (frame_len frame) = length p \<and> frame_kind frame = k \<and>
    unat (total_len frame) = 9 + length p \<and> verify_payload crc frame p off = Inr ()"
proof -
  have "unat (of_nat (length p) :: u64) = length p" using assms by (simp add: word_nat)
  moreover from this have "unat (RECORD_HEADER_SIZE + of_nat (length p)) = 9 + length p"
    using assms by (simp add: word_nat)
  ultimately show ?thesis
    using assms by (simp add: decode_encode_frame total_len_def verify_payload_def)
qed

theorem frame_roundtrip_witness:
  "\<exists>frame. decode_frame (encode_frame (\<lambda>_. 9) Edge [1, 2, 3]) 128 = Inr frame \<and>
    unat (frame_len frame) = length [1, 2, 3 :: u8] \<and> frame_kind frame = Edge \<and>
    unat (total_len frame) = 9 + length [1, 2, 3 :: u8] \<and> verify_payload (\<lambda>_. 9) frame [1, 2, 3] 128 = Inr ()"
  by (rule frame_roundtrip) simp

lemma decode_frame_InrD:
  assumes "decode_frame buf off = Inr frame"
  shows "frame_len frame \<le> MAX_RECORD_LEN" and "buf ! 4 = kind_tag (frame_kind frame)"
    and "frame_len frame = ucast (le_word (bslice buf 0 4) :: u32)"
    and "frame_crc frame = le_word (bslice buf 5 9)"
  using assms from_tag_InrD [of "buf ! 4" off]
  by (auto simp: decode_frame_def Let_def res_bind_Inr_iff split: if_splits)

text \<open>
  C37: whatever nine bytes are read, a frame that parses never asks for more than 64 MiB, so
  neither the allocation of the payload nor the length arithmetic can overflow.
\<close>

theorem decode_frame_bounded:
  "case decode_frame buf off of
     Inr frame \<Rightarrow> unat (frame_len frame) \<le> 64 * 1024 * 1024 \<and>
       unat (total_len frame) = 9 + unat (frame_len frame)
   | Inl e \<Rightarrow> (\<exists>len. e = RecordTooLarge off len MAX_RECORD_LEN \<and> MAX_RECORD_LEN < len)
       \<or> (\<exists>tag. e = UnknownRecordKind tag off \<and> 4 < tag)"
proof (cases "decode_frame buf off")
  case (Inl e)
  then show ?thesis
    using from_tag_InlD [of "buf ! 4" off]
    by (auto simp: decode_frame_def Let_def res_bind_Inl_iff split: if_splits)
next
  case (Inr frame)
  have "unat (frame_len frame) \<le> 67108864"
    using decode_frame_InrD(1) [OF Inr] by (simp add: word_le_nat_alt)
  moreover from this have "unat (RECORD_HEADER_SIZE + frame_len frame) = 9 + unat (frame_len frame)"
    by (simp add: word_nat)
  ultimately show ?thesis using Inr by (simp add: total_len_def)
qed

text \<open>
  Damage to any single byte of a payload is caught by the check against its frame.
\<close>

lemma payload_corruption_detected:
  assumes "detects_one_byte crc" and "length p \<le> unat MAX_RECORD_LEN"
    and "i < length p" and "b \<noteq> p ! i"
    and "decode_frame (encode_frame crc k p) off = Inr frame"
  shows "verify_payload crc frame (p[i := b]) off = Inl (RecordChecksum off)"
  using assms by (auto simp: decode_encode_frame verify_payload_def detects_one_byte_def)

section \<open>Records and logs as bytes\<close>

text \<open>The bytes of one record, and of a log of records.\<close>

definition record_image :: "(bytes \<Rightarrow> u32) \<Rightarrow> Record \<Rightarrow> bytes" where
  "record_image crc r = encode_frame crc (rec_kind r) (payload r) @ payload r"

definition log_image :: "(bytes \<Rightarrow> u32) \<Rightarrow> Record list \<Rightarrow> bytes" where
  "log_image crc rs = concat (map (record_image crc) rs)"

definition record_ok :: "Record \<Rightarrow> bool" where
  "record_ok r \<longleftrightarrow> length (payload r) \<le> unat MAX_RECORD_LEN"

lemma length_record_image: "length (record_image crc r) = 9 + length (payload r)"
  by (simp add: record_image_def)

lemma log_image_append [simp]: "log_image crc (rs @ qs) = log_image crc rs @ log_image crc qs"
  by (simp add: log_image_def)

lemma log_image_single [simp]: "log_image crc [r] = record_image crc r"
  by (simp add: log_image_def)

lemma log_image_Nil [simp]: "log_image crc [] = []"
  by (simp add: log_image_def)

lemma log_image_Cons: "log_image crc (r # rs) = record_image crc r @ log_image crc rs"
  by (simp add: log_image_def)

end
