(* ===== verification/Master_Index.thy ===== *)
theory Master_Index
  imports Record_Log
begin

text \<open>
  The master index (\<open>src/src/storage/index.rs\<close>): the document offset map, the tombstone set
  and the id allocator, with the contract of the \<open>bincode\<close> crate that serializes it. The
  \<open>HashMap\<close> is a finite map and the \<open>HashSet\<close> a finite set; \<open>usize\<close> is 64 bits wide.
\<close>

record MasterIndex =
  offsets :: "(DocId, u64) fmap"
  dead :: "DocId fset"
  next_doc_id :: u64

definition MasterIndex_default :: MasterIndex where
  "MasterIndex_default = \<lparr>offsets = fmempty, dead = {||}, next_doc_id = 1\<rparr>"

section \<open>Operations\<close>

definition allocate_id :: "MasterIndex \<Rightarrow> DocId \<times> MasterIndex" where
  "allocate_id idx = (DocId (next_doc_id idx), idx\<lparr>next_doc_id := next_doc_id idx + 1\<rparr>)"

definition idx_insert :: "MasterIndex \<Rightarrow> DocId \<Rightarrow> u64 \<Rightarrow> MasterIndex" where
  "idx_insert idx i offset = idx\<lparr>offsets := fmupd i offset (offsets idx)\<rparr>"

text \<open>\<open>self.index.dead.insert(id)\<close>, as the engine writes it.\<close>

definition mark_dead :: "MasterIndex \<Rightarrow> DocId \<Rightarrow> MasterIndex" where
  "mark_dead idx i = idx\<lparr>dead := finsert i (dead idx)\<rparr>"

definition offset_of :: "MasterIndex \<Rightarrow> DocId \<Rightarrow> u64 option" where
  "offset_of idx i = (if i |\<in>| dead idx then None else fmlookup (offsets idx) i)"

definition is_live :: "MasterIndex \<Rightarrow> DocId \<Rightarrow> bool" where
  "is_live idx i \<longleftrightarrow> i |\<in>| fmdom (offsets idx) \<and> i |\<notin>| dead idx"

text \<open>The subtraction wraps when more ids are dead than stored, as in a release build.\<close>

definition live_count :: "MasterIndex \<Rightarrow> u64" where
  "live_count idx = of_nat (fcard (fmdom (offsets idx))) - of_nat (fcard (dead idx))"

definition dead_count :: "MasterIndex \<Rightarrow> u64" where
  "dead_count idx = of_nat (fcard (dead idx))"

definition live_ids :: "MasterIndex \<Rightarrow> DocId fset" where
  "live_ids idx = ffilter (\<lambda>i. i |\<notin>| dead idx) (fmdom (offsets idx))"

section \<open>Serialization\<close>

text \<open>
  The third-party code the engine rests on: \<open>crc32fast::hash\<close>, \<open>bincode::serialize\<close> and
  \<open>bincode::deserialize\<close> at type \<open>MasterIndex\<close>, the latter two failing with the message of
  their error.
\<close>

record deps =
  crc32 :: "bytes \<Rightarrow> u32"
  bin_ser :: "MasterIndex \<Rightarrow> string + bytes"
  bin_de :: "bytes \<Rightarrow> string + MasterIndex"

definition idx_encode :: "deps \<Rightarrow> MasterIndex \<Rightarrow> CndbError + bytes" where
  "idx_encode D idx = map_err CorruptIndex (bin_ser D idx)"

definition idx_decode :: "deps \<Rightarrow> bytes \<Rightarrow> CndbError + MasterIndex" where
  "idx_decode D bs = map_err CorruptIndex (bin_de D bs)"

text \<open>
  The documented contract of bincode: what was serialized deserializes to the same value, and
  a struct with two collections, each preceded by its 8-byte length, is not empty bytes.
\<close>

definition bincode_ok :: "deps \<Rightarrow> bool" where
  "bincode_ok D \<longleftrightarrow> (\<forall>idx bs. bin_ser D idx = Inr bs \<longrightarrow> bs \<noteq> [] \<and> bin_de D bs = Inr idx)"

lemma idx_encode_InrD:
  "bincode_ok D \<Longrightarrow> idx_encode D idx = Inr bs \<Longrightarrow> bs \<noteq> [] \<and> idx_decode D bs = Inr idx"
  by (auto simp: bincode_ok_def idx_encode_def idx_decode_def map_err_Inr_iff)

section \<open>Well-formedness\<close>

text \<open>Only stored documents are dead, and the allocator is ahead of every stored id.\<close>

definition idx_wf :: "MasterIndex \<Rightarrow> bool" where
  "idx_wf idx \<longleftrightarrow> dead idx |\<subseteq>| fmdom (offsets idx) \<and> 1 \<le> next_doc_id idx \<and>
     (\<forall>i. i |\<in>| fmdom (offsets idx) \<longrightarrow> 1 \<le> raw_id i \<and> raw_id i < next_doc_id idx)"

text \<open>
  Documented behaviour of bincode: a proper prefix of a serialized value ends too early to be
  one, and a struct of two collections and an integer always serializes.
\<close>

definition bincode_total :: "deps \<Rightarrow> bool" where
  "bincode_total D \<longleftrightarrow> (\<forall>idx. idx_wf idx \<longrightarrow> (\<exists>p. idx_encode D idx = Inr p \<and>
     length p = 8 * (2 * fcard (fmdom (offsets idx)) + fcard (dead idx) + 3)))"

definition bincode_prefix :: "deps \<Rightarrow> bool" where
  "bincode_prefix D \<longleftrightarrow> (\<forall>idx p n. bin_ser D idx = Inr p \<and> n < length p \<longrightarrow> (\<exists>m. bin_de D (take n p) = Inl m))"

lemma bincode_totalD:
  assumes "bincode_total D" and "idx_wf idx"
  obtains p where "idx_encode D idx = Inr p"
    and "length p = 8 * (2 * fcard (fmdom (offsets idx)) + fcard (dead idx) + 3)"
  using assms unfolding bincode_total_def by blast

lemma idx_wf_default [simp]: "idx_wf MasterIndex_default"
  by (simp add: idx_wf_def MasterIndex_default_def)

lemma unat_succ: "unat (w :: u64) < 2 ^ 64 - 1 \<Longrightarrow> unat (w + 1) = unat w + 1"
  by (simp add: word_nat)

lemma idx_wf_append:
  assumes "idx_wf idx" and "unat (next_doc_id idx) < 2 ^ 64 - 1"
    and "allocate_id idx = (i, idx')"
  shows "idx_wf (idx_insert idx' i offset)"
proof -
  have n: "next_doc_id idx < next_doc_id idx + 1" and "1 \<le> next_doc_id idx + 1"
    using assms(2) unat_succ [of "next_doc_id idx"] by (simp_all add: word_less_nat_alt word_le_nat_alt)
  then show ?thesis
    using assms by (auto simp: idx_wf_def allocate_id_def idx_insert_def)
qed

lemma idx_wf_mark_dead:
  "idx_wf idx \<Longrightarrow> i |\<in>| fmdom (offsets idx) \<Longrightarrow> idx_wf (mark_dead idx i)"
  by (auto simp: idx_wf_def mark_dead_def)

lemma stored_count_less:
  assumes "idx_wf idx"
  shows "fcard (fmdom (offsets idx)) < unat (next_doc_id idx)"
proof -
  let ?A = "fset (fmdom (offsets idx))" and ?n = "unat (next_doc_id idx)"
  have sub: "(unat \<circ> raw_id) ` ?A \<subseteq> {1..<?n}"
    using assms by (auto simp: idx_wf_def word_le_nat_alt word_less_nat_alt)
  have "inj_on (unat \<circ> raw_id) ?A"
    by (auto intro!: inj_onI DocId.expand dest: word_unat_eq_iff [THEN iffD2])
  then have "card ?A = card ((unat \<circ> raw_id) ` ?A)" by (rule card_image [symmetric])
  also have "\<dots> \<le> card {1..<?n}" using sub by (intro card_mono) simp_all
  finally have "card ?A \<le> ?n - 1" by simp
  moreover have "1 \<le> ?n" using assms by (simp add: idx_wf_def word_le_nat_alt)
  ultimately show ?thesis by (simp add: fcard.rep_eq)
qed

lemma live_ids_minus: "live_ids idx = fmdom (offsets idx) |-| dead idx"
  by (auto simp: live_ids_def)

lemma counts_eq:
  assumes "idx_wf idx"
  shows "unat (live_count idx) = fcard (live_ids idx)"
    and "unat (live_count idx) + unat (dead_count idx) = fcard (fmdom (offsets idx))"
proof -
  let ?A = "fmdom (offsets idx)" and ?B = "dead idx"
  have sub: "?B |\<subseteq>| ?A" using assms by (simp add: idx_wf_def)
  have bound: "fcard ?A < 2 ^ 64"
    using stored_count_less [OF assms] unat_u64_less [of "next_doc_id idx"] by linarith
  have sum: "fcard (live_ids idx) = fcard ?A - fcard ?B" and le: "fcard ?B \<le> fcard ?A"
    using sub by (simp_all add: live_ids_minus fcard_funion_fsubset fcard_mono)
  have "(of_nat (fcard ?B) :: u64) \<le> of_nat (fcard ?A)"
    using bound le by (simp add: word_le_nat_alt word_nat)
  then have live: "unat (live_count idx) = fcard ?A - fcard ?B"
    unfolding live_count_def using bound le by (simp add: unat_sub word_nat)
  moreover have "unat (dead_count idx) = fcard ?B"
    using bound le by (simp add: dead_count_def word_nat)
  ultimately show "unat (live_count idx) + unat (dead_count idx) = fcard ?A" using le by simp
  show "unat (live_count idx) = fcard (live_ids idx)" using live sum by simp
qed

text \<open>
  On a well-formed index the counts are exact: the subtraction behind the number of live
  documents never wraps around, and it is the number of ids that \<open>live_ids\<close> yields.
\<close>

lemma live_count_correct:
  assumes "idx_wf idx"
  shows "unat (live_count idx) = fcard (live_ids idx) \<and>
    unat (live_count idx) + unat (dead_count idx) = fcard (fmdom (offsets idx)) \<and>
    (\<forall>i. i |\<in>| live_ids idx \<longleftrightarrow> offset_of idx i \<noteq> None)"
  using counts_eq [OF assms] by (auto simp: live_ids_def offset_of_def fmlookup_dom_iff)

section \<open>The interface of a document directory\<close>

text \<open>
  What the engine and its clients rely on: an id handed out is new and stays the largest, a
  stored entry is found under its id, and a deletion hides exactly one entry for good.
\<close>

locale doc_directory =
  fixes inv :: "'i \<Rightarrow> bool" and room :: "'i \<Rightarrow> bool"
    and fresh :: "'i \<Rightarrow> DocId"
    and add :: "'i \<Rightarrow> 'v \<Rightarrow> 'i" and del :: "'i \<Rightarrow> DocId \<Rightarrow> 'i"
    and look :: "'i \<Rightarrow> DocId \<Rightarrow> CndbError + 'v"
  assumes inv_add: "inv i \<Longrightarrow> room i \<Longrightarrow> inv (add i v)"
    and inv_del: "inv i \<Longrightarrow> look i d = Inr v \<Longrightarrow> inv (del i d)"
    and look_beyond: "inv i \<Longrightarrow> fresh i \<le> d \<Longrightarrow> look i d = Inl (NotFound d)"
    and look_add: "inv i \<Longrightarrow> room i \<Longrightarrow> look (add i v) d = (if d = fresh i then Inr v else look i d)"
    and look_del: "inv i \<Longrightarrow> look i d = Inr v \<Longrightarrow>
      look (del i d) d' = (if d' = d then Inl (Deleted d) else look i d')"
    and fresh_add: "inv i \<Longrightarrow> room i \<Longrightarrow> fresh i < fresh (add i v)"
    and fresh_del: "fresh (del i d) = fresh i"
begin

text \<open>A run of additions and deletions, each deletion of a stored entry.\<close>

inductive run :: "'i \<Rightarrow> 'i \<Rightarrow> bool" where
  run_refl: "run i i"
| run_add: "run i j \<Longrightarrow> room j \<Longrightarrow> run i (add j v)"
| run_del: "run i j \<Longrightarrow> look j d = Inr v \<Longrightarrow> run i (del j d)"

lemma run_inv: "run i j \<Longrightarrow> inv i \<Longrightarrow> inv j \<and> fresh i \<le> fresh j"
  by (induction rule: run.induct) (auto simp: inv_add inv_del fresh_del intro: order.trans
      [OF _ less_imp_le [OF fresh_add]])

lemma run_deleted:
  assumes "run i j" and "inv i" and "look i d = Inl (Deleted d)"
  shows "look j d = Inl (Deleted d)"
  using assms
proof (induction rule: run.induct)
  case (run_refl i)
  then show ?case by simp
next
  case (run_add i j v)
  then have "inv j" by (simp add: run_inv)
  moreover have "d \<noteq> fresh j" using run_add look_beyond [OF \<open>inv j\<close>, of d] by auto
  ultimately show ?case using run_add by (simp add: look_add)
next
  case (run_del i j d' v)
  then have "inv j" by (simp add: run_inv)
  then show ?case using run_del by (auto simp: look_del)
qed

text \<open>An entry once added is found until it is deleted, and its id is not given out again.\<close>

lemma run_found:
  assumes "run (add i v) j" and "inv i" and "room i"
  shows "(look j (fresh i) = Inr v \<or> look j (fresh i) = Inl (Deleted (fresh i))) \<and> fresh i < fresh j"
  using assms
proof (induction "add i v" j rule: run.induct)
  case run_refl
  then show ?case by (simp add: look_add fresh_add)
next
  case (run_add j w)
  then have j: "inv j" using run_inv inv_add by blast
  then have "fresh i < fresh (add j w)" using run_add fresh_add [OF j \<open>room j\<close>, of w] by auto
  with run_add j show ?case by (auto simp: look_add)
next
  case (run_del j d w)
  then have j: "inv j" using run_inv inv_add by blast
  with run_del show ?case by (auto simp: look_del fresh_del)
qed

end

text \<open>The master index provides it, with the offsets of the documents as its entries.\<close>

definition idx_append :: "MasterIndex \<Rightarrow> u64 \<Rightarrow> MasterIndex" where
  "idx_append idx offset = (let (i, idx') = allocate_id idx in idx_insert idx' i offset)"

definition idx_look :: "MasterIndex \<Rightarrow> DocId \<Rightarrow> CndbError + u64" where
  "idx_look idx i =
     (if i |\<in>| dead idx then Inl (Deleted i)
      else case fmlookup (offsets idx) i of None \<Rightarrow> Inl (NotFound i) | Some off \<Rightarrow> Inr off)"

definition idx_room :: "MasterIndex \<Rightarrow> bool" where
  "idx_room idx \<longleftrightarrow> unat (next_doc_id idx) < 2 ^ 64 - 1"

lemma idx_append_eq: "idx_append idx off =
    idx\<lparr>offsets := fmupd (DocId (next_doc_id idx)) off (offsets idx), next_doc_id := next_doc_id idx + 1\<rparr>"
  by (simp add: idx_append_def allocate_id_def idx_insert_def)

lemma idx_look_Inr_iff:
  "idx_look idx i = Inr off \<longleftrightarrow> i |\<notin>| dead idx \<and> fmlookup (offsets idx) i = Some off"
  by (auto simp: idx_look_def split: option.splits)

lemma idx_look_offset_of: "offset_of idx i = (case idx_look idx i of Inr off \<Rightarrow> Some off | Inl _ \<Rightarrow> None)"
  by (auto simp: idx_look_def offset_of_def split: option.splits)

lemma next_id_not_stored:
  "idx_wf idx \<Longrightarrow> DocId (next_doc_id idx) \<le> i \<Longrightarrow> i |\<notin>| fmdom (offsets idx) \<and> i |\<notin>| dead idx"
  by (cases i) (fastforce simp: idx_wf_def)

interpretation index_dir: doc_directory idx_wf idx_room "\<lambda>idx. DocId (next_doc_id idx)"
  idx_append mark_dead idx_look
proof
  fix idx :: MasterIndex and off :: u64 and d d' :: DocId
  show "idx_wf idx \<Longrightarrow> idx_room idx \<Longrightarrow> idx_wf (idx_append idx off)"
    using idx_wf_append [of idx "DocId (next_doc_id idx)" _ off]
    by (simp add: idx_append_def allocate_id_def idx_room_def)
  show "idx_wf idx \<Longrightarrow> idx_look idx d = Inr off \<Longrightarrow> idx_wf (mark_dead idx d)"
    by (metis fmdomI idx_look_Inr_iff idx_wf_mark_dead)
  show "idx_wf idx \<Longrightarrow> DocId (next_doc_id idx) \<le> d \<Longrightarrow> idx_look idx d = Inl (NotFound d)"
    using next_id_not_stored [of idx d] by (auto simp: idx_look_def split: option.splits intro: fmdomI)
  show "idx_wf idx \<Longrightarrow> idx_room idx \<Longrightarrow> idx_look (idx_append idx off) d =
      (if d = DocId (next_doc_id idx) then Inr off else idx_look idx d)"
    using next_id_not_stored [of idx "DocId (next_doc_id idx)"] by (auto simp: idx_look_def idx_append_eq)
  show "idx_wf idx \<Longrightarrow> idx_look idx d = Inr off \<Longrightarrow> idx_look (mark_dead idx d) d' =
      (if d' = d then Inl (Deleted d) else idx_look idx d')"
    by (auto simp: idx_look_def mark_dead_def)
  show "idx_wf idx \<Longrightarrow> idx_room idx \<Longrightarrow>
      DocId (next_doc_id idx) < DocId (next_doc_id (idx_append idx off))"
    using unat_succ [of "next_doc_id idx"]
    by (simp add: idx_append_eq idx_room_def word_less_nat_alt)
  show "DocId (next_doc_id (mark_dead idx d)) = DocId (next_doc_id idx)"
    by (simp add: mark_dead_def)
qed

end
