(* ===== verification/Engine.thy ===== *)
theory Engine
  imports Master_Index
begin

text \<open>
  The append-only storage engine (\<open>src/src/storage/engine.rs\<close>): opening and recovery,
  appending, reading, deleting, committing and verifying. A method on \<open>&mut self\<close> takes the
  engine and returns its result with the engine it leaves, also when it fails half way; a
  method on \<open>&self\<close> returns its result. \<open>D\<close> holds the third-party functions, \<open>os\<close> decides
  which system calls fail. Arithmetic is that of a release build, which wraps around.
\<close>

section \<open>State\<close>

record StorageEngine =
  se_file :: dbfile
  se_path :: string
  se_header :: Header
  se_slots :: "Header option list"
  se_live_slot :: nat
  se_index :: MasterIndex
  se_end :: u64
  se_dirty :: bool

record Stats =
  st_generation :: u64
  live_docs :: u64
  dead_docs :: u64
  committed_len :: u64
  pending_len :: u64

type_synonym 'a engine_result = "(CndbError + 'a) \<times> StorageEngine"

text \<open>A call on \<open>self.file\<close> followed by \<open>?\<close>.\<close>

definition on_file :: "(io_error + 'a) \<times> dbfile \<Rightarrow> StorageEngine \<Rightarrow> 'a engine_result" where
  "on_file rf e = (map_err Io (fst rf), e\<lparr>se_file := snd rf\<rparr>)"

definition engine_write :: "os \<Rightarrow> StorageEngine \<Rightarrow> bytes \<Rightarrow> u64 \<Rightarrow> unit engine_result" where
  "engine_write os e buf off = on_file (write_all_at os (se_file e) buf off) e"

definition engine_sync :: "os \<Rightarrow> StorageEngine \<Rightarrow> unit engine_result" where
  "engine_sync os e = on_file (sync_file os (se_file e)) e"

section \<open>Reading records\<close>

definition read_frame_at :: "os \<Rightarrow> dbfile \<Rightarrow> u64 \<Rightarrow> CndbError + Frame" where
  "read_frame_at os f offset =
     res_bind (map_err Io (read_exact_at os f (unat RECORD_HEADER_SIZE) offset))
       (\<lambda>buf. decode_frame buf offset)"

definition read_record_at :: "deps \<Rightarrow> os \<Rightarrow> dbfile \<Rightarrow> u64 \<Rightarrow> CndbError + Record" where
  "read_record_at D os f offset =
     res_bind (read_frame_at os f offset) (\<lambda>frame.
     res_bind (map_err Io
       (read_exact_at os f (unat (frame_len frame)) (offset + RECORD_HEADER_SIZE))) (\<lambda>p.
     res_bind (verify_payload (crc32 D) frame p offset) (\<lambda>_.
     Inr \<lparr>rec_kind = frame_kind frame, payload = p\<rparr>)))"

section \<open>Opening\<close>

text \<open>Lay down the header region of a new database: generation 0 in slot 0, slot 1 zeroed.\<close>

definition initialize :: "deps \<Rightarrow> os \<Rightarrow> StorageEngine \<Rightarrow> unit engine_result" where
  "initialize D os e =
     (let region = put_at (replicate (HEADER_SIZE * HEADER_SLOTS) 0) 0
                     (Header_encode (crc32 D) (se_header e)) in
      st_bind (engine_write os e region 0) (\<lambda>_ e.
      st_bind (engine_sync os e) (\<lambda>_ e.
      (Inr (), e\<lparr>se_slots := [Some (se_header e), None], se_live_slot := 0\<rparr>))))"

text \<open>The decoding of both slots, with the first error in slot order.\<close>

fun decode_slots :: "(bytes \<Rightarrow> u32) \<Rightarrow> bytes \<Rightarrow> nat list \<Rightarrow> CndbError option \<Rightarrow>
    Header option list \<times> CndbError option" where
  "decode_slots crc region [] first = ([], first)"
| "decode_slots crc region (slot # rest) first =
     (case Header_decode crc (bslice region (slot * HEADER_SIZE) ((slot + 1) * HEADER_SIZE)) slot of
        Inr h \<Rightarrow> (let (hs, first') = decode_slots crc region rest first in (Some h # hs, first'))
      | Inl e \<Rightarrow> (let first'' = (case first of None \<Rightarrow> Some e | Some e0 \<Rightarrow> Some e0);
                     (hs, first') = decode_slots crc region rest first'' in (None # hs, first')))"

definition not_an_index :: "u64 \<Rightarrow> RecordKind \<Rightarrow> CndbError" where
  "not_an_index ptr k =
     CorruptIndex (''record at '' @ show_nat (unat ptr) @ '' is '' @ debug_kind k @ '', not a master index'')"

definition load_index :: "deps \<Rightarrow> os \<Rightarrow> dbfile \<Rightarrow> Header \<Rightarrow> CndbError + MasterIndex" where
  "load_index D os f h =
     (if master_len h = 0 then Inr MasterIndex_default
      else res_bind (read_record_at D os f (master_ptr h)) (\<lambda>r.
        if rec_kind r \<noteq> MasterIndexKind then Inl (not_an_index (master_ptr h) (rec_kind r))
        else idx_decode D (payload r)))"

definition load :: "deps \<Rightarrow> os \<Rightarrow> string \<Rightarrow> dbfile \<Rightarrow> u64 \<Rightarrow> CndbError + StorageEngine" where
  "load D os path f file_len =
     (if file_len < LOG_START then Inl (UnexpectedEof 0 LOG_START)
      else
        res_bind (map_err Io (read_exact_at os f (HEADER_SIZE * HEADER_SLOTS) 0)) (\<lambda>region.
        let (slots, first_error) = decode_slots (crc32 D) region [0..<HEADER_SLOTS] None in
        res_bind (map_err (\<lambda>fallback. case first_error of None \<Rightarrow> fallback | Some e \<Rightarrow> e)
                    (select_live slots)) (\<lambda>(header, live_slot).
        if file_len < log_end header then Inl (UnexpectedEof file_len (log_end header))
        else
          res_bind (load_index D os f header) (\<lambda>idx.
          Inr \<lparr>se_file = f, se_path = path, se_header = header, se_slots = slots,
               se_live_slot = live_slot, se_index = idx, se_end = log_end header,
               se_dirty = False\<rparr>))))"

text \<open>
  Opening a path: the file is created when there is none. The file is returned as well, since
  it stays on disk when opening fails.
\<close>

definition engine_open :: "deps \<Rightarrow> os \<Rightarrow> string \<Rightarrow> dbfile option \<Rightarrow>
    (CndbError + StorageEngine) \<times> dbfile" where
  "engine_open D os path existing =
     (let f = (case existing of None \<Rightarrow> empty_file | Some f \<Rightarrow> f) in
      case open_fault os of
        Some e \<Rightarrow> (Inl (Io e), f)
      | None \<Rightarrow>
          (let file_len = (of_nat (length (content f)) :: u64) in
           if 0 < file_len then (load D os path f file_len, f)
           else
             (let e = \<lparr>se_file = f, se_path = path, se_header = Header_initial,
                        se_slots = [None, None], se_live_slot = 0,
                        se_index = MasterIndex_default, se_end = LOG_START, se_dirty = False\<rparr> in
              case initialize D os e of
                (Inl err, e') \<Rightarrow> (Inl err, se_file e')
              | (Inr _, e') \<Rightarrow> (Inr e', se_file e'))))"

section \<open>Writing\<close>

definition append_raw :: "deps \<Rightarrow> os \<Rightarrow> StorageEngine \<Rightarrow> RecordKind \<Rightarrow> bytes \<Rightarrow> u64 engine_result" where
  "append_raw D os e kind p =
     (if unat MAX_RECORD_LEN < length p
      then (Inl (RecordTooLarge (se_end e) (of_nat (length p)) MAX_RECORD_LEN), e)
      else
        (let len = (of_nat (length p) :: u64); offset = se_end e in
         st_bind (engine_write os e (encode_frame (crc32 D) kind p) offset) (\<lambda>_ e.
         st_bind (engine_write os e p (offset + RECORD_HEADER_SIZE)) (\<lambda>_ e.
         (Inr offset, e\<lparr>se_end := offset + RECORD_HEADER_SIZE + len, se_dirty := True\<rparr>)))))"

definition append :: "deps \<Rightarrow> os \<Rightarrow> StorageEngine \<Rightarrow> RecordKind \<Rightarrow> bytes \<Rightarrow> DocId engine_result" where
  "append D os e kind p =
     st_bind (append_raw D os e kind p) (\<lambda>offset e.
       let (i, idx) = allocate_id (se_index e) in
       (Inr i, e\<lparr>se_index := idx_insert idx i offset\<rparr>))"

definition tombstone :: "deps \<Rightarrow> os \<Rightarrow> StorageEngine \<Rightarrow> DocId \<Rightarrow> unit engine_result" where
  "tombstone D os e i =
     (if i |\<in>| dead (se_index e) then (Inl (Deleted i), e)
      else if i |\<notin>| fmdom (offsets (se_index e)) then (Inl (NotFound i), e)
      else
        st_bind (append_raw D os e Tombstone (le_bytes 8 (raw_id i))) (\<lambda>_ e.
        (Inr (), e\<lparr>se_index := mark_dead (se_index e) i\<rparr>)))"

definition commit :: "deps \<Rightarrow> os \<Rightarrow> StorageEngine \<Rightarrow> unit engine_result" where
  "commit D os e =
     (if \<not> se_dirty e then (Inr (), e)
      else
        st_bind (engine_sync os e) (\<lambda>_ e.
        case idx_encode D (se_index e) of
          Inl err \<Rightarrow> (Inl err, e)
        | Inr p \<Rightarrow>
            st_bind (append_raw D os e MasterIndexKind p) (\<lambda>ptr e.
            st_bind (engine_sync os e) (\<lambda>_ e.
            let next = \<lparr>generation = generation (se_header e) + 1, master_ptr = ptr,
                        master_len = of_nat (length p), log_end = se_end e\<rparr>;
                slot = victim_slot (se_slots e) in
            st_bind (engine_write os e (Header_encode (crc32 D) next) (slot_offset slot)) (\<lambda>_ e.
            st_bind (engine_sync os e) (\<lambda>_ e.
            (Inr (), e\<lparr>se_header := next, se_slots := (se_slots e)[slot := Some next],
                       se_live_slot := slot, se_dirty := False\<rparr>)))))))"

section \<open>Reading\<close>

definition read_record :: "deps \<Rightarrow> os \<Rightarrow> StorageEngine \<Rightarrow> DocId \<Rightarrow> CndbError + Record" where
  "read_record D os e i =
     (if i |\<in>| dead (se_index e) then Inl (Deleted i)
      else case fmlookup (offsets (se_index e)) i of
        None \<Rightarrow> Inl (NotFound i)
      | Some offset \<Rightarrow> read_record_at D os (se_file e) offset)"

definition read_doc :: "deps \<Rightarrow> os \<Rightarrow> StorageEngine \<Rightarrow> DocId \<Rightarrow> CndbError + bytes" where
  "read_doc D os e i = res_bind (read_record D os e i) (\<lambda>r. Inr (payload r))"

text \<open>
  The loop of \<open>verify\<close>. Each round reads a frame inside the file, so the offset grows without
  wrapping and the loop ends.
\<close>

lemma verify_step:
  assumes "read_frame_at os f offset = Inr frame"
    and "map_err Io (read_exact_at os f (unat (frame_len frame)) (offset + RECORD_HEADER_SIZE)) = Inr p"
  shows "unat (offset + total_len frame) = unat offset + 9 + unat (frame_len frame)"
    and "unat offset + 9 + unat (frame_len frame) \<le> length (content f)"
proof -
  obtain buf where buf: "read_exact_at os f 9 offset = Inr buf" "decode_frame buf offset = Inr frame"
    using assms(1) by (auto simp: read_frame_at_def res_bind_Inr_iff map_err_Inr_iff)
  have o9: "unat offset + 9 \<le> max_off" "unat offset + 9 \<le> length (content f)"
    using read_exact_at_Inr [OF buf(1)] by simp_all
  then have off: "unat (offset + RECORD_HEADER_SIZE) = unat offset + 9"
    by (simp add: word_nat max_off_def)
  have p: "0 < unat (frame_len frame) \<longrightarrow> unat offset + 9 + unat (frame_len frame) \<le> max_off \<and>
      unat offset + 9 + unat (frame_len frame) \<le> length (content f)"
    using assms(2) read_exact_at_Inr [of os f "unat (frame_len frame)" "offset + RECORD_HEADER_SIZE" p] off
    by (auto simp: map_err_Inr_iff)
  show "unat offset + 9 + unat (frame_len frame) \<le> length (content f)"
    using o9 p by (cases "unat (frame_len frame) = 0") auto
  have le: "unat offset + 9 + unat (frame_len frame) \<le> max_off"
    using o9 p by (cases "unat (frame_len frame) = 0") auto
  then have "unat (RECORD_HEADER_SIZE + frame_len frame) = 9 + unat (frame_len frame)"
    by (simp add: word_nat max_off_def)
  then show "unat (offset + total_len frame) = unat offset + 9 + unat (frame_len frame)"
    using le unfolding total_len_def by (subst unat_add_u64) (simp_all add: max_off_def)
qed

function verify_loop :: "deps \<Rightarrow> os \<Rightarrow> dbfile \<Rightarrow> u64 \<Rightarrow> u64 \<Rightarrow> nat \<Rightarrow> CndbError + u64 \<times> nat" where
  "verify_loop D os f limit offset count =
     (if offset < limit then
        res_bind (read_frame_at os f offset) (\<lambda>frame.
        res_bind (map_err Io
          (read_exact_at os f (unat (frame_len frame)) (offset + RECORD_HEADER_SIZE))) (\<lambda>p.
        res_bind (verify_payload (crc32 D) frame p offset) (\<lambda>_.
        verify_loop D os f limit (offset + total_len frame) (count + 1))))
      else Inr (offset, count))"
  by pat_completeness auto
termination
proof (relation "measure (\<lambda>(D, os, f, limit, offset, count). unat limit - unat offset)", goal_cases)
  case 1
  show ?case by simp
next
  case (2 D os f limit offset count frame p u)
  then show ?case using verify_step(1) [OF 2(2,3)] by (simp add: word_less_nat_alt)
qed

declare verify_loop.simps [simp del]

definition log_end_mismatch :: "u64 \<Rightarrow> u64 \<Rightarrow> CndbError" where
  "log_end_mismatch offset limit =
     CorruptIndex (''log ends at '' @ show_nat (unat offset) @ '', header says '' @ show_nat (unat limit))"

definition verify :: "deps \<Rightarrow> os \<Rightarrow> StorageEngine \<Rightarrow> CndbError + nat" where
  "verify D os e =
     res_bind (verify_loop D os (se_file e) (log_end (se_header e)) LOG_START 0) (\<lambda>(offset, count).
       if offset \<noteq> log_end (se_header e) then Inl (log_end_mismatch offset (log_end (se_header e)))
       else Inr count)"

section \<open>Queries\<close>

definition engine_generation :: "StorageEngine \<Rightarrow> u64" where
  "engine_generation e = generation (se_header e)"

definition is_dirty :: "StorageEngine \<Rightarrow> bool" where
  "is_dirty e = se_dirty e"

definition live_slot :: "StorageEngine \<Rightarrow> nat" where
  "live_slot e = se_live_slot e"

definition engine_path :: "StorageEngine \<Rightarrow> string" where
  "engine_path e = se_path e"

definition engine_index :: "StorageEngine \<Rightarrow> MasterIndex" where
  "engine_index e = se_index e"

definition engine_len :: "StorageEngine \<Rightarrow> u64" where
  "engine_len e = live_count (se_index e)"

definition engine_is_empty :: "StorageEngine \<Rightarrow> bool" where
  "engine_is_empty e \<longleftrightarrow> engine_len e = 0"

definition engine_live_ids :: "StorageEngine \<Rightarrow> DocId fset" where
  "engine_live_ids e = live_ids (se_index e)"

definition stats :: "StorageEngine \<Rightarrow> Stats" where
  "stats e = \<lparr>st_generation = generation (se_header e), live_docs = live_count (se_index e),
     dead_docs = dead_count (se_index e), committed_len = log_end (se_header e),
     pending_len = se_end e\<rparr>"

end
