(* ===== verification/Log_Store.thy ===== *)
theory Log_Store
  imports Engine
begin

text \<open>
  What the bytes of a database file mean: records and logs inside a file, the index over them
  and the snapshot a header describes, with the lemmas that reading recovers them, that they
  depend on the committed bytes only, and that appending extends them.
\<close>

section \<open>Records inside a file\<close>

text \<open>Record \<open>r\<close> lies at offset \<open>at\<close> of the log, below \<open>n\<close>.\<close>

definition rec_in :: "deps \<Rightarrow> bytes \<Rightarrow> nat \<Rightarrow> nat \<Rightarrow> Record \<Rightarrow> bool" where
  "rec_in D bs n at r \<longleftrightarrow> 128 \<le> at \<and> at + 9 + length (payload r) \<le> n \<and> n \<le> length bs \<and> record_ok r \<and>
     bslice bs at (at + 9 + length (payload r)) = record_image (crc32 D) r"

lemma rec_in_parts:
  assumes "rec_in D bs n at r"
  shows "bslice bs at (at + 9) = encode_frame (crc32 D) (rec_kind r) (payload r)"
    and "bslice bs (at + 9) (at + 9 + length (payload r)) = payload r"
proof -
  have "bslice bs at (at + 9) @ bslice bs (at + 9) (at + 9 + length (payload r)) =
      encode_frame (crc32 D) (rec_kind r) (payload r) @ payload r"
    using assms bslice_split [of at "at + 9" "at + 9 + length (payload r)" bs]
    by (simp add: rec_in_def record_image_def)
  moreover have "length (bslice bs at (at + 9)) = 9" using assms by (auto simp: rec_in_def length_bslice)
  ultimately show "bslice bs at (at + 9) = encode_frame (crc32 D) (rec_kind r) (payload r)"
    and "bslice bs (at + 9) (at + 9 + length (payload r)) = payload r"
    by (auto simp: append_eq_append_conv)
qed

lemma read_frame_rec_in:
  assumes "rec_in D (content f) n (unat off) r" and "length (content f) \<le> max_off" and "reads_ok os"
  shows "read_frame_at os f off = Inr \<lparr>frame_len = of_nat (length (payload r)),
    frame_kind = rec_kind r, frame_crc = crc32 D (payload r)\<rparr>"
proof -
  have "unat off + 9 \<le> length (content f)" using assms by (auto simp: rec_in_def)
  then have "read_exact_at os f 9 off = Inr (encode_frame (crc32 D) (rec_kind r) (payload r))"
    using read_exact_at_ok [OF assms(3), of off 9 f] rec_in_parts(1) [OF assms(1)] assms(2) by simp
  then show ?thesis
    using assms(1) by (simp add: read_frame_at_def decode_encode_frame rec_in_def record_ok_def)
qed

lemma read_payload_rec_in:
  assumes "rec_in D (content f) n (unat off) r" and "length (content f) \<le> max_off" and "reads_ok os"
  shows "read_exact_at os f (length (payload r)) (off + RECORD_HEADER_SIZE) = Inr (payload r)"
proof -
  have le: "unat off + 9 + length (payload r) \<le> length (content f)" using assms by (auto simp: rec_in_def)
  then have o9: "unat (off + RECORD_HEADER_SIZE) = unat off + 9"
    using assms(2) by (simp add: word_nat max_off_def)
  then show ?thesis
    using read_exact_at_ok [OF assms(3), of "off + RECORD_HEADER_SIZE" "length (payload r)" f]
      le assms(2) rec_in_parts(2) [OF assms(1)] by simp
qed

lemma unat_payload_len: "record_ok r \<Longrightarrow> unat (of_nat (length (payload r)) :: u64) = length (payload r)"
  by (simp add: record_ok_def word_nat)

text \<open>A record in the file reads back, whatever else the file holds.\<close>

lemma read_record_rec_in:
  assumes "rec_in D (content f) n (unat off) r" and "length (content f) \<le> max_off" and "reads_ok os"
  shows "read_record_at D os f off = Inr r"
proof -
  have "record_ok r" using assms(1) by (simp add: rec_in_def)
  then show ?thesis
    using read_frame_rec_in [OF assms] read_payload_rec_in [OF assms]
    by (simp add: read_record_at_def unat_payload_len verify_payload_def)
qed

lemma rec_in_stable:
  assumes "rec_in D bs n at r" and "bslice bs' 128 n = bslice bs 128 n" and "n \<le> length bs'"
  shows "rec_in D bs' n at r"
proof -
  let ?e = "at + 9 + length (payload r)"
  have "bslice xs at ?e = bslice (bslice xs 128 n) (at - 128) (?e - 128)" for xs :: bytes
    using assms(1) by (intro bslice_within) (auto simp: rec_in_def)
  then have "bslice bs' at ?e = bslice bs at ?e" using assms(2) by metis
  then show ?thesis using assms by (simp add: rec_in_def)
qed

lemma rec_in_mono: "rec_in D bs m at r \<Longrightarrow> m \<le> n \<Longrightarrow> n \<le> length bs \<Longrightarrow> rec_in D bs n at r"
  by (simp add: rec_in_def)

section \<open>Logs\<close>

text \<open>The bytes from \<open>LOG_START\<close> up to \<open>n\<close> are the records \<open>rs\<close>, end to end.\<close>

definition log_is :: "deps \<Rightarrow> bytes \<Rightarrow> nat \<Rightarrow> Record list \<Rightarrow> bool" where
  "log_is D bs n rs \<longleftrightarrow> 128 \<le> n \<and> n \<le> length bs \<and> (\<forall>r\<in>set rs. record_ok r) \<and>
     bslice bs 128 n = log_image (crc32 D) rs"

lemma log_is_stable:
  "log_is D bs n rs \<Longrightarrow> bslice bs' 128 n = bslice bs 128 n \<Longrightarrow> n \<le> length bs' \<Longrightarrow> log_is D bs' n rs"
  by (simp add: log_is_def)

lemma log_is_empty: "128 \<le> length bs \<Longrightarrow> log_is D bs 128 []"
  by (simp add: log_is_def bslice_empty)

lemma log_is_snoc:
  assumes "log_is D bs n rs" and "rec_in D bs (n + 9 + length (payload r)) n r"
  shows "log_is D bs (n + 9 + length (payload r)) (rs @ [r])"
proof -
  have "bslice bs 128 (n + 9 + length (payload r)) =
      bslice bs 128 n @ bslice bs n (n + 9 + length (payload r))"
    using assms(1) by (intro bslice_split) (simp_all add: log_is_def)
  then show ?thesis using assms by (auto simp: log_is_def rec_in_def)
qed

lemma length_log: "log_is D bs n rs \<Longrightarrow> length (log_image (crc32 D) rs) = n - 128"
  using length_bslice [of bs 128 n] by (auto simp: log_is_def min_def)

lemma log_is_split:
  assumes "log_is D bs n (rs @ r # qs)"
  shows "rec_in D bs n (128 + length (log_image (crc32 D) rs)) r"
proof -
  let ?a = "128 + length (log_image (crc32 D) rs)" and ?c = "crc32 D"
  let ?b = "?a + 9 + length (payload r)"
  have tot: "bslice bs 128 n = log_image ?c rs @ record_image ?c r @ log_image ?c qs"
    using assms by (simp add: log_is_def log_image_Cons)
  have "n - 128 = length (log_image ?c rs) + (9 + length (payload r)) + length (log_image ?c qs)"
    using length_log [OF assms] by (simp add: log_image_Cons length_record_image)
  then have b: "?b \<le> n" using assms by (simp add: log_is_def)
  have "bslice bs ?a ?b = bslice (bslice bs 128 n) (?a - 128) (?b - 128)"
    using b by (intro bslice_within) auto
  also have "\<dots> = record_image ?c r"
    unfolding tot by (simp add: bslice_def length_record_image)
  finally show ?thesis using assms b by (simp add: rec_in_def log_is_def)
qed

section \<open>Verification of a log\<close>

lemma verify_loop_suffix:
  assumes log: "log_is D (content f) n (pre @ rs)" and len: "length (content f) \<le> max_off"
    and os: "reads_ok os" and lim: "unat limit = n"
    and off: "unat offset = 128 + length (log_image (crc32 D) pre)"
  shows "verify_loop D os f limit offset count = Inr (limit, count + length rs)"
  using log off
proof (induction rs arbitrary: pre offset count)
  case Nil
  then have "unat offset = n" using length_log [of D "content f" n pre] by (simp add: log_is_def)
  then have "offset = limit" using lim by (simp add: word_unat_eq_iff)
  then show ?case by (simp add: verify_loop.simps)
next
  case (Cons r rs)
  have r: "rec_in D (content f) n (unat offset) r" using log_is_split [OF Cons.prems(1)] Cons.prems(2) by simp
  then have ok: "record_ok r" and lt: "unat offset + 9 + length (payload r) \<le> n" by (simp_all add: rec_in_def)
  let ?f = "\<lparr>frame_len = of_nat (length (payload r)), frame_kind = rec_kind r,
    frame_crc = crc32 D (payload r)\<rparr>"
  note rd = read_frame_rec_in [OF r len os] read_payload_rec_in [OF r len os]
  have step: "unat (offset + total_len ?f) = unat offset + 9 + length (payload r)"
    using verify_step(1) [OF rd(1), of "payload r"] rd(2) ok by (simp add: unat_payload_len)
  have "verify_loop D os f limit offset count = verify_loop D os f limit (offset + total_len ?f) (count + 1)"
    using rd ok lt lim
    by (subst verify_loop.simps) (simp add: unat_payload_len verify_payload_def word_less_nat_alt)
  also have "\<dots> = Inr (limit, count + 1 + length rs)"
    using Cons.prems step by (intro Cons.IH [of "pre @ [r]"]) (simp_all add: length_record_image)
  finally show ?case by simp
qed

lemma verify_log:
  assumes "log_is D (content (se_file e)) (unat (log_end (se_header e))) rs"
    and "length (content (se_file e)) \<le> max_off" and "reads_ok os"
  shows "verify D os e = Inr (length rs)"
  using verify_loop_suffix [of D "se_file e" _ "[]" rs os "log_end (se_header e)" LOG_START 0] assms
  by (simp add: verify_def)

section \<open>The index over a log, and what it stores\<close>

definition index_ok :: "deps \<Rightarrow> bytes \<Rightarrow> nat \<Rightarrow> MasterIndex \<Rightarrow> bool" where
  "index_ok D bs n idx \<longleftrightarrow> idx_wf idx \<and> 9 * unat (next_doc_id idx) \<le> n \<and>
     (\<forall>i off. fmlookup (offsets idx) i = Some off \<longrightarrow> (\<exists>r. rec_in D bs n (unat off) r))"

lemma index_ok_stable:
  "index_ok D bs n idx \<Longrightarrow> bslice bs' 128 n = bslice bs 128 n \<Longrightarrow> n \<le> length bs' \<Longrightarrow> index_ok D bs' n idx"
  unfolding index_ok_def by (meson rec_in_stable)

lemma index_ok_mono:
  "index_ok D bs m idx \<Longrightarrow> m \<le> n \<Longrightarrow> n \<le> length bs \<Longrightarrow> index_ok D bs n idx"
  unfolding index_ok_def by (meson le_trans rec_in_mono)

lemma index_ok_default: "128 \<le> n \<Longrightarrow> index_ok D bs n MasterIndex_default"
  by (simp add: index_ok_def) (simp add: MasterIndex_default_def)

text \<open>The snapshot a header describes: its log, the index its master record holds, its bounds.\<close>

definition snap :: "deps \<Rightarrow> bytes \<Rightarrow> Header \<Rightarrow> MasterIndex \<Rightarrow> bool" where
  "snap D bs h idx \<longleftrightarrow> (\<exists>rs. log_is D bs (unat (log_end h)) rs) \<and>
     index_ok D bs (unat (log_end h)) idx \<and> 9 * unat (generation h) \<le> unat (log_end h) \<and>
     (if master_len h = 0 then idx = MasterIndex_default
      else \<exists>p. rec_in D bs (unat (log_end h)) (unat (master_ptr h)) \<lparr>rec_kind = MasterIndexKind, payload = p\<rparr>
             \<and> idx_decode D p = Inr idx)"

lemma snap_stable:
  assumes "snap D bs h idx" and "bslice bs' 128 (unat (log_end h)) = bslice bs 128 (unat (log_end h))"
    and "unat (log_end h) \<le> length bs'"
  shows "snap D bs' h idx"
  using assms rec_in_stable [OF _ assms(2,3)] log_is_stable [OF _ assms(2,3)]
    index_ok_stable [OF _ assms(2,3)]
  unfolding snap_def by (metis (no_types, lifting))

lemma snap_load_index:
  assumes "snap D (content f) h idx" and "length (content f) \<le> max_off" and "reads_ok os"
  shows "load_index D os f h = Inr idx"
proof (cases "master_len h = 0")
  case True
  then show ?thesis using assms(1) by (simp add: snap_def load_index_def)
next
  case False
  then obtain p where p: "rec_in D (content f) (unat (log_end h)) (unat (master_ptr h))
      \<lparr>rec_kind = MasterIndexKind, payload = p\<rparr>" "idx_decode D p = Inr idx"
    using assms(1) by (auto simp: snap_def)
  then show ?thesis
    using False read_record_rec_in [OF p(1) assms(2,3)] by (simp add: load_index_def)
qed

lemma snap_bounds:
  "snap D bs h idx \<Longrightarrow> 128 \<le> unat (log_end h) \<and> unat (log_end h) \<le> length bs \<and>
     index_ok D bs (unat (log_end h)) idx \<and> 9 * unat (generation h) \<le> unat (log_end h)"
  by (auto simp: snap_def log_is_def)

end
