(* ===== verification/Disk_State.thy ===== *)
theory Disk_State
  imports Log_Store
begin

text \<open>
  The state of the file under the engine: which header each slot may hold after a power loss,
  and that every such header describes a snapshot whose bytes are safe. Writes past the end
  of the log keep it (\<open>tail_write\<close>), a header write extends it by the new header
  (\<open>heads_ok_header_write\<close>), and a crash image satisfies it again (\<open>disk_ok_crash\<close>).
\<close>

section \<open>Slots of a version\<close>

definition slot_bytes :: "bytes \<Rightarrow> nat \<Rightarrow> bytes" where
  "slot_bytes v i = bslice v (i * HEADER_SIZE) ((i + 1) * HEADER_SIZE)"

definition slot_header :: "deps \<Rightarrow> bytes \<Rightarrow> Header option" where
  "slot_header D b = (case Header_decode (crc32 D) b 0 of Inr h \<Rightarrow> Some h | Inl _ \<Rightarrow> None)"

lemma slot_header_Some: "slot_header D b = Some h \<longleftrightarrow> Header_decode (crc32 D) b i = Inr h"
  using Header_decode_slot [of "crc32 D" b 0 h i] by (auto simp: slot_header_def split: sum.splits)

lemma slot_header_None: "slot_header D b = None \<longleftrightarrow> (\<exists>e. Header_decode (crc32 D) b i = Inl e)"
  using slot_header_Some [of D b _ i] by (cases "Header_decode (crc32 D) b i"; cases "slot_header D b") auto

lemma slot_header_encode [simp]: "slot_header D (Header_encode (crc32 D) h) = Some h"
  by (simp add: slot_header_Some [where i = 0] header_codec.dec_enc)

lemma length_slot_bytes: "128 \<le> length v \<Longrightarrow> i < 2 \<Longrightarrow> length (slot_bytes v i) = 64"
  by (auto simp: slot_bytes_def length_bslice less_2_cases_iff)

lemma nth_slot_bytes: "128 \<le> length v \<Longrightarrow> i < 2 \<Longrightarrow> j < 64 \<Longrightarrow> slot_bytes v i ! j = v ! (i * 64 + j)"
  by (auto simp: slot_bytes_def nth_bslice less_2_cases_iff)

text \<open>The region read on open holds both slots.\<close>

lemma slot_of_region:
  "i < 2 \<Longrightarrow> bslice (bslice bs 0 128) (i * HEADER_SIZE) ((i + 1) * HEADER_SIZE) = slot_bytes bs i"
  by (subst bslice_bslice) (auto simp: slot_bytes_def less_2_cases_iff)

section \<open>Torn slots\<close>

text \<open>Every byte of \<open>b\<close> is the byte of \<open>old\<close> or of \<open>new\<close>.\<close>

definition mix :: "bytes \<Rightarrow> bytes \<Rightarrow> bytes \<Rightarrow> bool" where
  "mix old new b \<longleftrightarrow> length b = 64 \<and> (\<forall>j<64. b ! j = old ! j \<or> b ! j = new ! j)"

text \<open>
  No torn write of \<open>new\<close> over \<open>old\<close> passes for a header, unless it is all of \<open>new\<close> or still
  reads as the old header: that is what the checksum of the slot is for.
\<close>

definition torn_ok :: "deps \<Rightarrow> bytes \<Rightarrow> bytes \<Rightarrow> bool" where
  "torn_ok D old new \<longleftrightarrow> (\<forall>b h. mix old new b \<and> slot_header D b = Some h \<longrightarrow>
     slot_header D old = Some h \<or> b = new)"

lemma mix_self: "length b = 64 \<Longrightarrow> mix b b b"
  by (simp add: mix_def)

lemma mix_old: "length old = 64 \<Longrightarrow> mix old new old" and mix_new: "length new = 64 \<Longrightarrow> mix old new new"
  by (simp_all add: mix_def)

lemma mix_same: "length b = 64 \<Longrightarrow> mix b b c \<Longrightarrow> c = b"
  by (simp add: mix_def list_eq_iff_nth_eq)

lemma torn_ok_same: "length b = 64 \<Longrightarrow> torn_ok D b b"
  using mix_same by (auto simp: torn_ok_def)

text \<open>A part of a safe write is safe as well.\<close>

lemma torn_ok_part:
  assumes "torn_ok D old new" and "mix old new part" and "length new = 64"
  shows "torn_ok D old part"
  unfolding torn_ok_def
proof (intro allI impI)
  fix b h assume b: "mix old part b \<and> slot_header D b = Some h"
  then have "mix old new b" using assms(2) unfolding mix_def by metis
  then have "slot_header D old = Some h \<or> b = new" using assms(1) b unfolding torn_ok_def by blast
  moreover have "part = new" if "b = new"
    using that b assms(2,3) unfolding mix_def by (intro nth_equalityI) (simp, metis)
  ultimately show "slot_header D old = Some h \<or> b = part" by blast
qed

section \<open>The state of the file\<close>

text \<open>Header \<open>h\<close> describes a snapshot that lies below \<open>n\<close> and that no pending write touches.\<close>

definition header_ok :: "deps \<Rightarrow> dbfile \<Rightarrow> nat \<Rightarrow> Header \<Rightarrow> bool" where
  "header_ok D f n h \<longleftrightarrow> unat (log_end h) \<le> n \<and> (\<exists>idx. snap D (content f) h idx) \<and>
     (\<forall>v\<in>set (versions f). unat (log_end h) \<le> length v \<and>
        bslice v 128 (unat (log_end h)) = bslice (content f) 128 (unat (log_end h)))"

text \<open>Of two headers in different slots, the newer one has the longer log.\<close>

definition apart :: "Header \<Rightarrow> Header \<Rightarrow> bool" where
  "apart h k \<longleftrightarrow> (generation h < generation k \<and> log_end h \<le> log_end k) \<or>
     (generation k < generation h \<and> log_end k \<le> log_end h)"

text \<open>The headers that a slot holds in some version since the last successful sync.\<close>

definition cand :: "deps \<Rightarrow> dbfile \<Rightarrow> nat \<Rightarrow> Header \<Rightarrow> bool" where
  "cand D f i h \<longleftrightarrow> (\<exists>v\<in>set (versions f). slot_header D (slot_bytes v i) = Some h)"

text \<open>A slot that no write since the last successful sync has touched.\<close>

definition stable :: "dbfile \<Rightarrow> nat \<Rightarrow> bool" where
  "stable f i \<longleftrightarrow> (\<forall>v\<in>set (versions f). slot_bytes v i = slot_bytes (content f) i)"

definition sized :: "dbfile \<Rightarrow> bool" where
  "sized f \<longleftrightarrow> (\<forall>v\<in>set (versions f). 128 \<le> length v \<and> length v \<le> max_off)"

text \<open>A slot is in flight between two states: the one of a version \<open>w\<close> and the present one.\<close>

definition slot_in_flight :: "deps \<Rightarrow> dbfile \<Rightarrow> nat \<Rightarrow> bytes \<Rightarrow> bool" where
  "slot_in_flight D f i w \<longleftrightarrow> w \<in> set (versions f) \<and> torn_ok D (slot_bytes w i) (slot_bytes (content f) i) \<and>
     (\<forall>v\<in>set (versions f). slot_bytes v i = slot_bytes w i \<or> slot_bytes v i = slot_bytes (content f) i)"

text \<open>
  The headers that may be read back, those of torn slots aside: each describes a safe snapshot,
  and one of them is sure to be there.
\<close>

definition heads_ok :: "deps \<Rightarrow> dbfile \<Rightarrow> nat \<Rightarrow> bool" where
  "heads_ok D f n \<longleftrightarrow> sized f \<and>
     (\<forall>i<2. \<forall>h. cand D f i h \<longrightarrow> header_ok D f n h) \<and>
     (\<forall>h k. cand D f 0 h \<longrightarrow> cand D f 1 k \<longrightarrow> apart h k) \<and>
     (\<exists>p<2. stable f p \<and> slot_header D (slot_bytes (content f) p) \<noteq> None)"

definition disk_ok :: "deps \<Rightarrow> dbfile \<Rightarrow> nat \<Rightarrow> bool" where
  "disk_ok D f n \<longleftrightarrow> heads_ok D f n \<and> (\<forall>i<2. \<exists>w. slot_in_flight D f i w)"

lemma versions_content [simp]: "content f \<in> set (versions f)"
  by (simp add: versions_def)

lemma cand_now: "slot_header D (slot_bytes (content f) i) = Some h \<Longrightarrow> cand D f i h"
  unfolding cand_def by (rule bexI [OF _ versions_content])

lemma stable_cand: "stable f i \<Longrightarrow> cand D f i h \<longleftrightarrow> slot_header D (slot_bytes (content f) i) = Some h"
  unfolding cand_def stable_def using versions_content by metis

lemma stable_synced: "versions f = [content f] \<Longrightarrow> stable f i"
  by (simp add: stable_def)

lemma stable_in_flight:
  assumes "stable f i" and "sized f" and "i < 2"
  shows "slot_in_flight D f i (content f)"
proof -
  have "length (slot_bytes (content f) i) = 64"
    using assms(2,3) versions_content [of f] unfolding sized_def by (blast intro: length_slot_bytes)
  then show ?thesis using assms(1) versions_content torn_ok_same unfolding slot_in_flight_def stable_def by metis
qed

lemma heads_okD:
  assumes "heads_ok D f n"
  shows "sized f" and "i < 2 \<Longrightarrow> cand D f i h \<Longrightarrow> header_ok D f n h"
    and "\<exists>p<2. stable f p \<and> slot_header D (slot_bytes (content f) p) \<noteq> None"
  using assms unfolding heads_ok_def by blast+

lemma heads_ok_apart:
  assumes "heads_ok D f n" and "i < 2" and "j < 2" and "i \<noteq> j" and "cand D f i h" and "cand D f j k"
  shows "apart h k"
proof -
  have "i = 0 \<and> j = 1 \<or> i = 1 \<and> j = 0" using assms(2-4) by linarith
  then have "apart h k \<or> apart k h" using assms(1,5,6) unfolding heads_ok_def by blast
  then show ?thesis by (auto simp: apart_def)
qed

lemma disk_okD:
  assumes "disk_ok D f n"
  shows "sized f" and "i < 2 \<Longrightarrow> \<exists>w. slot_in_flight D f i w"
    and "i < 2 \<Longrightarrow> cand D f i h \<Longrightarrow> header_ok D f n h"
    and "\<exists>p<2. stable f p \<and> slot_header D (slot_bytes (content f) p) \<noteq> None"
  using assms heads_okD unfolding disk_ok_def by blast+

lemma disk_ok_apart:
  "disk_ok D f n \<Longrightarrow> i < 2 \<Longrightarrow> j < 2 \<Longrightarrow> i \<noteq> j \<Longrightarrow> cand D f i h \<Longrightarrow> cand D f j k \<Longrightarrow> apart h k"
  unfolding disk_ok_def using heads_ok_apart by blast

text \<open>Once everything is flushed no slot is in flight.\<close>

lemma synced_disk_ok: "heads_ok D f n \<Longrightarrow> versions f = [content f] \<Longrightarrow> disk_ok D f n"
  using stable_in_flight [OF stable_synced] heads_okD(1) unfolding disk_ok_def by blast

lemma apart_le: "apart h k \<Longrightarrow> generation h \<le> generation k \<Longrightarrow> log_end h \<le> log_end k"
  by (auto simp: apart_def)

section \<open>Writes past the end of the log\<close>

text \<open>\<open>f'\<close> comes from \<open>f\<close> by writes that leave the first \<open>n\<close> bytes alone, and by syncs.\<close>

definition tail_write :: "nat \<Rightarrow> dbfile \<Rightarrow> dbfile \<Rightarrow> bool" where
  "tail_write n f f' \<longleftrightarrow> length (content f) \<le> length (content f') \<and> take n (content f') = take n (content f) \<and>
     (\<forall>v\<in>set (versions f'). v \<in> set (versions f) \<or>
        (length (content f) \<le> length v \<and> length v \<le> max_off \<and> take n v = take n (content f)))"

lemma tail_write_refl [simp]: "tail_write n f f"
  by (simp add: tail_write_def)

lemma tail_write_trans: "tail_write n f g \<Longrightarrow> tail_write n g h \<Longrightarrow> tail_write n f h"
  unfolding tail_write_def by (metis (no_types, lifting) le_trans)

lemma tail_write_mono: "tail_write n f g \<Longrightarrow> m \<le> n \<Longrightarrow> tail_write m f g"
  unfolding tail_write_def by (metis (no_types, lifting) min.absorb1 take_take)

lemma tail_write_sync: "sync_file os f = (r, f') \<Longrightarrow> tail_write n f f'"
  using sync_file_effect [of os f r f'] by (auto simp: tail_write_def)

lemma take_pwrite: "n \<le> off \<Longrightarrow> n \<le> length bs \<Longrightarrow> take n (pwrite bs off data) = take n bs"
  using bslice_pwrite_before [of n off bs data 0]
    bslice_pwrite_before [of n "length bs" bs data 0]
  by (simp add: bslice_def)

lemma tail_write_write:
  assumes "write_all_at os f buf off = (r, f')" and "n \<le> unat off" and "n \<le> length (content f)"
    and "length (content f) \<le> max_off"
  shows "tail_write n f f'"
proof -
  obtain k where k: "content f' = pwrite (content f) (unat off) (take k buf)"
    "set (versions f') = insert (content f') (set (versions f))" "length (content f') \<le> max_off"
    by (rule write_all_at_effect [OF assms(1)]) (use assms(4) in blast)
  have "length (content f) \<le> length (content f')" "take n (content f') = take n (content f)"
    using k(1) length_pwrite_ge take_pwrite assms(2,3) by simp_all
  then show ?thesis using k(2,3) by (auto simp: tail_write_def)
qed

lemma slot_bytes_take: "128 \<le> n \<Longrightarrow> i < 2 \<Longrightarrow> take n v = take n w \<Longrightarrow> slot_bytes v i = slot_bytes w i"
proof -
  assume h: "128 \<le> n" "i < 2" "take n v = take n w"
  have "slot_bytes u i = slot_bytes (take n u) i" for u :: bytes
    using h(1,2) by (auto simp: slot_bytes_def bslice_def drop_take less_2_cases_iff min_def)
  then show ?thesis using h(3) by metis
qed

lemma bslice_take: "b \<le> n \<Longrightarrow> take n v = take n w \<Longrightarrow> bslice v a b = bslice w a b"
proof -
  assume h: "b \<le> n" "take n v = take n w"
  have "bslice u a b = bslice (take n u) a b" for u :: "'a list"
    using h(1) by (simp add: bslice_def drop_take min_def)
  then show ?thesis using h(2) by metis
qed

lemma tail_write_versions:
  assumes "tail_write n f f'" and "v \<in> set (versions f')"
  obtains w where "w \<in> set (versions f)" and "take n v = take n w" and "length w \<le> length v"
    and "length w \<le> max_off \<Longrightarrow> length v \<le> max_off"
  using assms unfolding tail_write_def by (metis versions_content order_refl)

lemma sized_tail: "sized f \<Longrightarrow> tail_write n f f' \<Longrightarrow> sized f'"
  by (auto simp: sized_def elim!: tail_write_versions intro: le_trans)

lemma header_ok_tail:
  assumes "header_ok D f n h" and "tail_write n f f'" and "n \<le> m"
  shows "header_ok D f' m h"
proof -
  let ?L = "unat (log_end h)"
  have L: "?L \<le> n" using assms(1) by (simp add: header_ok_def)
  have c: "bslice (content f') 128 ?L = bslice (content f) 128 ?L" "?L \<le> length (content f')"
  proof -
    show "bslice (content f') 128 ?L = bslice (content f) 128 ?L"
      using assms(2) L by (intro bslice_take [of _ n]) (auto simp: tail_write_def)
    show "?L \<le> length (content f')"
      using assms(1,2) le_trans versions_content unfolding header_ok_def tail_write_def by metis
  qed
  have "?L \<le> length v \<and> bslice v 128 ?L = bslice (content f) 128 ?L" if v: "v \<in> set (versions f')" for v
  proof -
    obtain w where w: "w \<in> set (versions f)" "take n v = take n w" "length w \<le> length v"
      using tail_write_versions [OF assms(2) v] by metis
    then have "bslice v 128 ?L = bslice w 128 ?L" using L by (intro bslice_take [of _ n])
    moreover have "?L \<le> length w" "bslice w 128 ?L = bslice (content f) 128 ?L"
      using assms(1) w(1) unfolding header_ok_def by blast+
    ultimately show ?thesis using w(3) by (metis le_trans)
  qed
  moreover obtain idx where "snap D (content f) h idx" using assms(1) by (auto simp: header_ok_def)
  then have "snap D (content f') h idx" using c by (rule snap_stable)
  moreover have "?L \<le> m" using L assms(3) by simp
  ultimately show ?thesis using c(1) unfolding header_ok_def by metis
qed

lemma tail_write_slots:
  assumes "tail_write n f f'" and "128 \<le> n" and "i < 2"
  shows "slot_bytes (content f') i = slot_bytes (content f) i"
    and "v \<in> set (versions f') \<Longrightarrow> \<exists>w\<in>set (versions f). slot_bytes v i = slot_bytes w i"
proof -
  show "slot_bytes (content f') i = slot_bytes (content f) i"
    using assms by (intro slot_bytes_take [of n]) (simp_all add: tail_write_def)
  assume "v \<in> set (versions f')"
  then obtain w where "w \<in> set (versions f)" "take n v = take n w"
    by (rule tail_write_versions [OF assms(1)])
  then show "\<exists>w\<in>set (versions f). slot_bytes v i = slot_bytes w i"
    using slot_bytes_take [OF assms(2,3)] by metis
qed

lemma cand_tail: "tail_write n f f' \<Longrightarrow> 128 \<le> n \<Longrightarrow> i < 2 \<Longrightarrow> cand D f' i h \<Longrightarrow> cand D f i h"
  unfolding cand_def using tail_write_slots(2) by metis

lemma stable_tail: "tail_write n f f' \<Longrightarrow> 128 \<le> n \<Longrightarrow> i < 2 \<Longrightarrow> stable f i \<Longrightarrow> stable f' i"
  unfolding stable_def using tail_write_slots by metis

lemma slot_in_flight_tail:
  assumes "slot_in_flight D f i w" and t: "tail_write n f f'" and n: "128 \<le> n" and i: "i < 2" and "sized f'"
  shows "\<exists>w'. slot_in_flight D f' i w'"
proof (cases "stable f' i")
  case True
  then show ?thesis using stable_in_flight assms(5) i by blast
next
  case False
  note now = tail_write_slots(1) [OF t n i] and vs = tail_write_slots(2) [OF t n i]
  have old: "slot_bytes v i = slot_bytes w i \<or> slot_bytes v i = slot_bytes (content f') i"
    if "v \<in> set (versions f')" for v
    using vs [OF that] assms(1) now unfolding slot_in_flight_def by metis
  obtain w' where w': "w' \<in> set (versions f')" "slot_bytes w' i \<noteq> slot_bytes (content f') i"
    using False unfolding stable_def by blast
  then have "slot_bytes w' i = slot_bytes w i" using old by blast
  then have "slot_in_flight D f' i w'" using assms(1) w' old now unfolding slot_in_flight_def by metis
  then show ?thesis by blast
qed

lemma heads_ok_tail:
  assumes "heads_ok D f n" and t: "tail_write n f f'" and "n \<le> m" and n: "128 \<le> n"
  shows "heads_ok D f' m"
proof -
  note d = heads_okD [OF assms(1)]
  have "sized f'" using d(1) t by (rule sized_tail)
  moreover have "header_ok D f' m h" if "cand D f' i h" "i < 2" for i h
    using header_ok_tail [OF d(2) t assms(3)] cand_tail [OF t n] that by blast
  moreover have "apart h k" if "cand D f' 0 h" "cand D f' 1 k" for h k
    using heads_ok_apart [OF assms(1), of 0 1] cand_tail [OF t n _ that(1)] cand_tail [OF t n _ that(2)] by simp
  moreover have "\<exists>p<2. stable f' p \<and> slot_header D (slot_bytes (content f') p) \<noteq> None"
    using d(3) stable_tail [OF t n] tail_write_slots(1) [OF t n] by metis
  ultimately show ?thesis unfolding heads_ok_def by blast
qed

lemma disk_ok_tail:
  assumes "disk_ok D f n" and t: "tail_write n f f'" and "n \<le> m" and n: "128 \<le> n"
  shows "disk_ok D f' m"
proof -
  have h: "heads_ok D f' m" using assms heads_ok_tail unfolding disk_ok_def by blast
  have "\<exists>w. slot_in_flight D f' i w" if i: "i < 2" for i
    using disk_okD(2) [OF assms(1) i] slot_in_flight_tail [OF _ t n i heads_okD(1) [OF h]] by blast
  then show ?thesis using h unfolding disk_ok_def by blast
qed

section \<open>Header writes\<close>

text \<open>What writing a slot changes: that slot, byte by byte, and nothing else.\<close>

lemma slot_write_effect:
  assumes "write_all_at os f buf (slot_offset slot) = (r, f')" and "slot < 2" and "length buf = 64"
    and "128 \<le> length (content f)" and "length (content f) \<le> max_off"
  shows "set (versions f') = insert (content f') (set (versions f))"
    and "length (content f') = length (content f)"
    and "bslice (content f') 128 b = bslice (content f) 128 b"
    and "i < 2 \<Longrightarrow> i \<noteq> slot \<Longrightarrow> slot_bytes (content f') i = slot_bytes (content f) i"
    and "mix (slot_bytes (content f) slot) buf (slot_bytes (content f') slot)"
    and "r = Inr () \<Longrightarrow> slot_bytes (content f') slot = buf"
proof -
  have off: "unat (slot_offset slot) = slot * 64" using assms(2) by (rule unat_slot_offset)
  obtain k where k: "k \<le> 64" "content f' = pwrite (content f) (slot * 64) (take k buf)"
    and vs: "set (versions f') = insert (content f') (set (versions f))"
    and all: "r = Inr () \<Longrightarrow> k = 64"
    by (rule write_all_at_effect [OF assms(1)]) (use assms(3) off in auto)
  have end128: "slot * 64 + k \<le> 128" using assms(2) k(1) by (auto simp: less_2_cases_iff)
  show "set (versions f') = insert (content f') (set (versions f))" by (rule vs)
  show len: "length (content f') = length (content f)"
    using length_pwrite_ge [of "content f" "slot * 64" "take k buf"]
      length_pwrite_le [of "content f" "slot * 64" "take k buf"] assms(3,4) k end128 by simp
  have nth: "content f' ! j = (if slot * 64 \<le> j \<and> j < slot * 64 + k then buf ! (j - slot * 64) else content f ! j)"
    if "j < length (content f)" for j
    using that len k assms(3) by (auto simp: nth_pwrite)
  show "bslice (content f') 128 b = bslice (content f) 128 b"
    by (rule nth_equalityI) (use nth end128 len in \<open>auto simp: length_bslice nth_bslice\<close>)
  have slot_nth: "slot_bytes (content f') i ! j =
      (if i = slot \<and> j < k then buf ! j else slot_bytes (content f) i ! j)" if "i < 2" "j < 64" for i j
    using that nth [of "i * 64 + j"] assms(2,4) len k(1)
    by (auto simp: nth_slot_bytes less_2_cases_iff)
  have lens: "length (slot_bytes (content f') i) = 64" "length (slot_bytes (content f) i) = 64" if "i < 2" for i
    using that assms(4) len by (simp_all add: length_slot_bytes)
  show "slot_bytes (content f') i = slot_bytes (content f) i" if "i < 2" "i \<noteq> slot"
    using that lens slot_nth by (intro nth_equalityI) simp_all
  show "mix (slot_bytes (content f) slot) buf (slot_bytes (content f') slot)"
    using lens slot_nth assms(2) by (simp add: mix_def)
  show "slot_bytes (content f') slot = buf" if "r = Inr ()"
    using that all lens slot_nth assms(2,3) by (intro nth_equalityI) simp_all
qed

text \<open>
  Writing the next header over the slot that is not live keeps the state of the file: however
  much of the write lands, provided the checksum tells a torn slot, and in any case when all
  of it lands.
\<close>

lemma header_ok_slot_write:
  assumes "header_ok D f n k" and "versions f = [content f]" and "set (versions f') = {content f', content f}"
    and "length (content f') = length (content f)" and "\<And>b. bslice (content f') 128 b = bslice (content f) 128 b"
  shows "header_ok D f' n k"
proof -
  have L: "unat (log_end k) \<le> n" "unat (log_end k) \<le> length (content f)"
    using assms(1) versions_content [of f] unfolding header_ok_def by blast+
  obtain idx where "snap D (content f) k idx" using assms(1) unfolding header_ok_def by blast
  then have "snap D (content f') k idx" by (rule snap_stable) (use assms(4,5) L in simp_all)
  moreover have "bslice (content f) 128 (unat (log_end k)) = bslice (content f') 128 (unat (log_end k))"
    using assms(5) by simp
  ultimately show ?thesis using L assms(3,4) unfolding header_ok_def by auto
qed

lemma heads_ok_header_write:
  assumes ok: "heads_ok D f n" and vs: "versions f = [content f]"
    and w: "write_all_at os f (Header_encode (crc32 D) next) (slot_offset slot) = (r, f')"
    and slot: "slot < 2" "p < 2" "p \<noteq> slot" and live: "slot_header D (slot_bytes (content f) p) = Some h"
    and nxt: "header_ok D f n next" "generation h < generation next" "log_end h \<le> log_end next"
    and torn: "r = Inr () \<or> torn_ok D (slot_bytes (content f) slot) (Header_encode (crc32 D) next)"
  shows "heads_ok D f' n" and "stable f' p" and "slot_bytes (content f') p = slot_bytes (content f) p"
    and "cand D f' i k \<Longrightarrow> i < 2 \<Longrightarrow> cand D f i k \<or>
      (i = slot \<and> k = next \<and> slot_header D (slot_bytes (content f') i) = Some next)"
proof -
  let ?enc = "Header_encode (crc32 D) next"
  have sz: "128 \<le> length (content f)" "length (content f) \<le> max_off"
    using heads_okD(1) [OF ok] by (simp_all add: sized_def vs)
  note eff = slot_write_effect [OF w slot(1) length_Header_encode sz]
  have vset: "set (versions f') = {content f', content f}" using eff(1) vs by simp
  have sized: "sized f'" using sz eff(2) vset by (simp add: sized_def)
  show same: "slot_bytes (content f') p = slot_bytes (content f) p" using eff(4) slot by blast
  then show st: "stable f' p" by (simp add: stable_def vset)
  have written: "slot_header D (slot_bytes (content f) slot) = Some k \<or> k = next"
    if "slot_header D (slot_bytes (content f') slot) = Some k" for k
    using torn eff(5,6) that slot_header_encode [of D] unfolding torn_ok_def by fastforce
  show cand: "cand D f i k \<or> (i = slot \<and> k = next \<and> slot_header D (slot_bytes (content f') i) = Some next)"
    if "cand D f' i k" "i < 2" for i k
    using that written eff(4) [of i] cand_now by (cases "i = slot") (auto simp: cand_def vset vs)
  have heads: "header_ok D f' n k" if "cand D f' i k" "i < 2" for i k
    using cand [OF that] heads_okD(2) [OF ok that(2)] nxt(1) header_ok_slot_write [OF _ vs vset eff(2,3)] by blast
  have liveonly: "k = h" if "cand D f' p k" for k using that st same live by (simp add: stable_cand)
  have live': "cand D f p h" using live by (rule cand_now)
  have hn: "apart h next" "apart next h" using nxt(2,3) by (auto simp: apart_def)
  have ap: "apart k l" if kl: "cand D f' i k" "cand D f' j l" "i < 2" "j < 2" "i \<noteq> j" for i j k l
  proof -
    have "i = p \<or> j = p" using kl(3-5) slot by linarith
    then show ?thesis
    proof
      assume i: "i = p"
      then have "k = h" "cand D f j l \<or> l = next" using liveonly kl cand [OF kl(2,4)] by auto
      then show ?thesis using hn heads_ok_apart [OF ok kl(3-5)] live' i by blast
    next
      assume j: "j = p"
      then have "l = h" "cand D f i k \<or> k = next" using liveonly kl cand [OF kl(1,3)] by auto
      then show ?thesis using hn heads_ok_apart [OF ok kl(3-5)] live' j by blast
    qed
  qed
  have "slot_header D (slot_bytes (content f') p) \<noteq> None" using same live by simp
  then show "heads_ok D f' n" using sized heads ap [of 0 _ 1] st slot(2) unfolding heads_ok_def by force
qed

lemma header_write_slots_in_flight:
  assumes sz: "128 \<le> length (content f)" "length (content f) \<le> max_off" and vs: "versions f = [content f]"
    and w: "write_all_at os f (Header_encode (crc32 D) next) (slot_offset slot) = (r, f')" and "slot < 2"
    and torn: "torn_ok D (slot_bytes (content f) slot) (Header_encode (crc32 D) next)" and "i < 2"
  shows "\<exists>w. slot_in_flight D f' i w"
proof -
  note eff = slot_write_effect [OF w assms(5) length_Header_encode sz]
  have vset: "set (versions f') = {content f', content f}" using eff(1) vs by simp
  have sized: "sized f'" using sz eff(2) vset by (simp add: sized_def)
  show ?thesis
  proof (cases "i = slot")
    case True
    have "torn_ok D (slot_bytes (content f) slot) (slot_bytes (content f') slot)"
      using torn eff(5) length_Header_encode by (rule torn_ok_part)
    then have "slot_in_flight D f' i (content f)" using True by (simp add: slot_in_flight_def vset)
    then show ?thesis by blast
  next
    case False
    then have "stable f' i" using eff(4) assms(7) by (simp add: stable_def vset)
    then show ?thesis using stable_in_flight sized assms(7) by blast
  qed
qed

section \<open>Power loss\<close>

lemma versions_disk_file [simp]: "versions (disk_file img) = [img]" "content (disk_file img) = img"
  by (simp_all add: versions_def disk_file_def)

lemma crash_mix:
  assumes fl: "slot_in_flight D f i w" and "sized f" and "crash_image f img" and "i < 2"
  shows "mix (slot_bytes w i) (slot_bytes (content f) i) (slot_bytes img i)"
proof -
  have len: "128 \<le> length img"
    using crash_image_length [OF assms(3), of 128 max_off] assms(2) by (auto simp: sized_def)
  have "slot_bytes img i ! j = slot_bytes w i ! j \<or> slot_bytes img i ! j = slot_bytes (content f) i ! j"
    if j: "j < 64" for j
  proof -
    have "i * 64 + j < length img" using len assms(4) j by (auto simp: less_2_cases_iff)
    then obtain v where v: "v \<in> set (versions f)" "img ! (i * 64 + j) = byte_at v (i * 64 + j)"
      using assms(3) by (auto simp: crash_image_def)
    have lv: "128 \<le> length v" using assms(2) v(1) by (simp add: sized_def)
    then have "slot_bytes img i ! j = slot_bytes v i ! j"
      using v(2) len j assms(4) by (auto simp: nth_slot_bytes byte_at_def less_2_cases_iff)
    then show ?thesis using fl v(1) unfolding slot_in_flight_def by metis
  qed
  then show ?thesis using len assms(4) by (simp add: mix_def length_slot_bytes)
qed

lemma header_ok_crash:
  assumes "header_ok D f n h" and "crash_image f img"
  shows "header_ok D (disk_file img) n h"
proof -
  let ?L = "unat (log_end h)"
  have ag: "\<forall>v\<in>set (versions f). ?L \<le> length v \<and> bslice v 128 ?L = bslice (content f) 128 ?L"
    using assms(1) unfolding header_ok_def by blast
  have img: "bslice img 128 ?L = bslice (content f) 128 ?L"
    by (rule crash_image_agree [OF assms(2) ag])
  have len: "?L \<le> length img"
    using ag assms(2) le_trans unfolding crash_image_def by blast
  obtain idx where "snap D (content f) h idx" using assms(1) unfolding header_ok_def by blast
  then have "snap D img h idx" using img len by (rule snap_stable)
  moreover have "?L \<le> n" using assms(1) unfolding header_ok_def by blast
  ultimately show ?thesis using len by (auto simp: header_ok_def)
qed

text \<open>After a power loss the file is in a good state again, with nothing in flight.\<close>

lemma disk_ok_crash:
  assumes ok: "disk_ok D f n" and img: "crash_image f img"
  shows "disk_ok D (disk_file img) n"
    and "i < 2 \<Longrightarrow> slot_header D (slot_bytes img i) = Some h \<Longrightarrow> cand D f i h"
    and "i < 2 \<Longrightarrow> stable f i \<Longrightarrow> slot_bytes img i = slot_bytes (content f) i"
proof -
  note d = disk_okD [OF ok]
  show same: "slot_bytes img i = slot_bytes (content f) i" if i: "i < 2" "stable f i" for i
  proof -
    have "length (slot_bytes (content f) i) = 64"
      using d(1) i(1) versions_content [of f] unfolding sized_def by (blast intro: length_slot_bytes)
    then show ?thesis using crash_mix [OF stable_in_flight [OF i(2) d(1) i(1)] d(1) img i(1)] by (rule mix_same)
  qed
  show cand: "cand D f i h" if i: "i < 2" "slot_header D (slot_bytes img i) = Some h" for i h
  proof -
    obtain w where w: "slot_in_flight D f i w" using d(2) [OF i(1)] by blast
    have "slot_header D (slot_bytes w i) = Some h \<or> slot_bytes img i = slot_bytes (content f) i"
      using crash_mix [OF w d(1) img i(1)] w i(2) unfolding slot_in_flight_def torn_ok_def by blast
    then show ?thesis
      using w i(2) versions_content [of f] unfolding slot_in_flight_def cand_def by metis
  qed
  have sized: "sized (disk_file img)"
    using crash_image_length [OF img, of 128 max_off] d(1) by (simp add: sized_def)
  have st: "stable (disk_file img) i" for i by (simp add: stable_synced)
  have self: "cand D (disk_file img) i h \<longleftrightarrow> slot_header D (slot_bytes img i) = Some h" for i h
    using stable_cand [OF st] by simp
  have heads: "header_ok D (disk_file img) n h" if "cand D (disk_file img) i h" "i < 2" for i h
    using header_ok_crash [OF d(3) img] cand that self by blast
  have ap: "apart h k" if "cand D (disk_file img) 0 h" "cand D (disk_file img) 1 k" for h k
    using disk_ok_apart [OF ok, of 0 1] cand [of 0 h] cand [of 1 k] that self by simp
  obtain p where p: "p < 2" "stable f p" "slot_header D (slot_bytes (content f) p) \<noteq> None" using d(4) by blast
  then have "slot_header D (slot_bytes (content (disk_file img)) p) \<noteq> None" using same by simp
  then show "disk_ok D (disk_file img) n"
    using sized stable_in_flight [OF st sized] heads ap p(1) st unfolding disk_ok_def heads_ok_def by blast
qed

end
