(* ===== verification/Engine_Inv.thy ===== *)
theory Engine_Inv
  imports Disk_State
begin

text \<open>
  The invariant of the storage engine and its preservation by every operation, whatever
  system calls fail: the bytes below \<open>se_end\<close> are a log of well-formed records, the index
  points into it, the live header is on disk in its slot and not in flight, and no counter
  can wrap around.
\<close>

section \<open>The invariant\<close>

definition core_inv :: "deps \<Rightarrow> StorageEngine \<Rightarrow> bool" where
  "core_inv D e \<longleftrightarrow>
     (\<exists>rs. log_is D (content (se_file e)) (unat (se_end e)) rs) \<and>
     index_ok D (content (se_file e)) (unat (se_end e)) (se_index e) \<and>
     length (se_slots e) = HEADER_SLOTS \<and> select_live (se_slots e) = Inr (se_header e, se_live_slot e) \<and>
     slot_header D (slot_bytes (content (se_file e)) (se_live_slot e)) = Some (se_header e) \<and>
     disk_ok D (se_file e) (unat (se_end e))"

text \<open>
  No header is in flight and no header on disk is newer than the live one: after a power loss
  the engine finds exactly its live header.
\<close>

definition settled :: "deps \<Rightarrow> StorageEngine \<Rightarrow> bool" where
  "settled D e \<longleftrightarrow> (\<forall>i<2. stable (se_file e) i) \<and>
     (\<forall>i<2. \<forall>h. slot_header D (slot_bytes (content (se_file e)) i) = Some h \<longrightarrow>
        generation h \<le> generation (se_header e))"

text \<open>Between commits the index may be ahead of the header; a clean engine is in step with it.\<close>

definition clean_ok :: "deps \<Rightarrow> StorageEngine \<Rightarrow> bool" where
  "clean_ok D e \<longleftrightarrow> (\<not> se_dirty e \<longrightarrow> log_end (se_header e) = se_end e \<and>
     snap D (content (se_file e)) (se_header e) (se_index e))"

definition engine_inv :: "deps \<Rightarrow> StorageEngine \<Rightarrow> bool" where
  "engine_inv D e \<longleftrightarrow> core_inv D e \<and> clean_ok D e"

lemma core_inv_live: "core_inv D e \<Longrightarrow> se_live_slot e < 2"
  using select_live_slotD unfolding core_inv_def by blast

lemma core_inv_bounds:
  assumes "core_inv D e"
  shows "128 \<le> unat (se_end e)" and "unat (se_end e) \<le> length (content (se_file e))"
    and "length (content (se_file e)) \<le> max_off"
  using assms versions_content [of "se_file e"]
  by (auto simp: core_inv_def log_is_def disk_ok_def heads_ok_def sized_def)

lemma core_inv_header_ok:
  assumes "core_inv D e"
  shows "header_ok D (se_file e) (unat (se_end e)) (se_header e)"
  using disk_okD(3) [OF _ core_inv_live [OF assms] cand_now] assms unfolding core_inv_def by blast

lemma header_ok_snap: "header_ok D f n h \<Longrightarrow> \<exists>idx. snap D (content f) h idx \<and> unat (log_end h) \<le> n"
  unfolding header_ok_def by blast

text \<open>Changing what is not in the file or the log keeps the invariant.\<close>

lemma core_inv_file:
  assumes "core_inv D e" and "tail_write (unat (se_end e)) (se_file e) f"
  shows "core_inv D (e\<lparr>se_file := f\<rparr>)"
proof -
  let ?n = "unat (se_end e)"
  note b = core_inv_bounds [OF assms(1)]
  have len: "?n \<le> length (content f)" and tk: "take ?n (content f) = take ?n (content (se_file e))"
    using assms(2) b(2) by (auto simp: tail_write_def)
  have bs: "bslice (content f) 128 ?n = bslice (content (se_file e)) 128 ?n"
    by (rule bslice_take [OF order_refl tk])
  have sl: "slot_bytes (content f) (se_live_slot e) = slot_bytes (content (se_file e)) (se_live_slot e)"
    using core_inv_live [OF assms(1)] b(1) tk by (intro slot_bytes_take)
  have "disk_ok D (se_file e) ?n" using assms(1) by (simp add: core_inv_def)
  then have "disk_ok D f ?n" using assms(2) order_refl b(1) by (rule disk_ok_tail)
  then show ?thesis
    using assms(1) len bs sl log_is_stable [OF _ bs len] index_ok_stable [OF _ bs len]
    unfolding core_inv_def by auto
qed

lemma settled_tail:
  assumes "settled D e" and "tail_write n (se_file e) (se_file e')" and "128 \<le> n"
    and "se_header e' = se_header e"
  shows "settled D e'"
  using assms stable_tail [OF assms(2,3)] tail_write_slots(1) [OF assms(2,3)] unfolding settled_def by metis

lemma clean_ok_file:
  assumes "core_inv D e" and "clean_ok D e" and "tail_write (unat (se_end e)) (se_file e) f"
  shows "clean_ok D (e\<lparr>se_file := f\<rparr>)"
proof -
  have "snap D (content f) (se_header e) idx"
    if "snap D (content (se_file e)) (se_header e) idx" "log_end (se_header e) = se_end e" for idx
    using that(1)
  proof (rule snap_stable)
    show "bslice (content f) 128 (unat (log_end (se_header e))) =
        bslice (content (se_file e)) 128 (unat (log_end (se_header e)))"
      using assms(3) that(2) by (intro bslice_take [of _ "unat (se_end e)"]) (auto simp: tail_write_def)
    show "unat (log_end (se_header e)) \<le> length (content f)"
      using assms(3) that(2) core_inv_bounds(2) [OF assms(1)] by (auto simp: tail_write_def)
  qed
  then show ?thesis using assms(2) by (auto simp: clean_ok_def)
qed

section \<open>Writing a record at the end of the log\<close>

lemma engine_write_effect:
  "engine_write os e buf off = (r, e') \<Longrightarrow>
   \<exists>q f. write_all_at os (se_file e) buf off = (q, f) \<and> r = map_err Io q \<and> e' = e\<lparr>se_file := f\<rparr>"
  by (cases "write_all_at os (se_file e) buf off") (simp add: engine_write_def on_file_def)

lemma engine_sync_effect:
  "engine_sync os e = (r, e') \<Longrightarrow>
   \<exists>q f. sync_file os (se_file e) = (q, f) \<and> r = map_err Io q \<and> e' = e\<lparr>se_file := f\<rparr>"
  by (cases "sync_file os (se_file e)") (simp add: engine_sync_def on_file_def)

text \<open>
  Appending a record either leaves the engine as it was but for bytes past the end of the log,
  or extends the log by the record.
\<close>

definition appended :: "deps \<Rightarrow> StorageEngine \<Rightarrow> Record \<Rightarrow> StorageEngine \<Rightarrow> bool" where
  "appended D e r e' \<longleftrightarrow> record_ok r \<and>
     unat (se_end e') = unat (se_end e) + 9 + length (payload r) \<and>
     rec_in D (content (se_file e')) (unat (se_end e')) (unat (se_end e)) r \<and>
     tail_write (unat (se_end e)) (se_file e) (se_file e') \<and>
     e' = e\<lparr>se_file := se_file e', se_end := se_end e + RECORD_HEADER_SIZE + of_nat (length (payload r)),
            se_dirty := True\<rparr>"

lemma two_writes_rec_in:
  assumes "content f = pwrite (pwrite bs n (encode_frame (crc32 D) k p)) (n + 9) p"
    and "128 \<le> n" and "record_ok \<lparr>rec_kind = k, payload = p\<rparr>"
  shows "rec_in D (content f) (n + 9 + length p) n \<lparr>rec_kind = k, payload = p\<rparr>"
proof -
  let ?fr = "encode_frame (crc32 D) k p"
  have 1: "pread (content f) n 9 = Some ?fr" and 2: "pread (content f) (n + 9) (length p) = Some p"
    using raw_file.rd_two_writes_first [of ?fr bs n p] raw_file.rd_two_writes_second [of ?fr bs n p] assms(1)
    by simp_all
  have "bslice (content f) n (n + 9 + length p) = ?fr @ p"
    using 1 2 bslice_split [of n "n + 9" "n + 9 + length p" "content f"]
    by (auto simp: pread_def split: if_splits)
  moreover have "n + 9 + length p \<le> length (content f)" using 2 by (auto simp: pread_def split: if_splits)
  ultimately show ?thesis using assms(2,3) by (simp add: rec_in_def record_image_def)
qed

lemma append_raw_effect:
  assumes inv: "core_inv D e" and app: "append_raw D os e k p = (r, e')"
  shows "case r of
      Inl err \<Rightarrow> \<exists>f. e' = e\<lparr>se_file := f\<rparr> \<and> tail_write (unat (se_end e)) (se_file e) f
    | Inr off \<Rightarrow> off = se_end e \<and> appended D e \<lparr>rec_kind = k, payload = p\<rparr> e'"
proof (cases "unat MAX_RECORD_LEN < length p")
  case True
  with app have "r = Inl (RecordTooLarge (se_end e) (of_nat (length p)) MAX_RECORD_LEN)" "e' = e"
    by (auto simp: append_raw_def)
  then show ?thesis by (auto intro!: exI [of _ "se_file e"])
next
  case False
  let ?n = "unat (se_end e)" and ?fr = "encode_frame (crc32 D) k p"
  note b = core_inv_bounds [OF inv]
  have rok: "record_ok \<lparr>rec_kind = k, payload = p\<rparr>" using False by (simp add: record_ok_def)
  have o9: "unat (se_end e + RECORD_HEADER_SIZE) = ?n + 9" using b by (simp add: word_nat max_off_def)
  obtain q1 f1 where w1: "write_all_at os (se_file e) ?fr (se_end e) = (q1, f1)" by fastforce
  have t1: "tail_write ?n (se_file e) f1" using w1 b by (intro tail_write_write) auto
  have l1: "?n \<le> length (content f1)" "length (content f1) \<le> max_off"
    using t1 b write_all_at_length [OF w1] by (auto simp: tail_write_def)
  obtain q2 f2 where w2: "write_all_at os f1 p (se_end e + RECORD_HEADER_SIZE) = (q2, f2)" by fastforce
  have t2: "tail_write ?n f1 f2" using w2 l1 o9 by (intro tail_write_write) auto
  note t = tail_write_trans [OF t1 t2]
  show ?thesis
  proof (cases q1; cases q2)
    fix u1 u2 :: unit assume q: "q1 = Inr u1" "q2 = Inr u2"
    then have r: "r = Inr (se_end e)" "e' = e\<lparr>se_file := f2,
        se_end := se_end e + RECORD_HEADER_SIZE + of_nat (length p), se_dirty := True\<rparr>"
      using app False w1 w2 by (auto simp: append_raw_def engine_write_def on_file_def Let_def)
    have c: "content f1 = pwrite (content (se_file e)) ?n ?fr" "content f2 = pwrite (content f1) (?n + 9) p"
      "p \<noteq> [] \<Longrightarrow> ?n + 9 + length p \<le> max_off"
      using write_all_at_Inr [OF w1 [unfolded q]] write_all_at_Inr [OF w2 [unfolded q]] o9 by simp_all
    have "?n + 9 \<le> max_off" using write_all_at_Inr(2) [OF w1 [unfolded q]] by simp
    then have "?n + 9 + length p \<le> max_off" using c(3) by (cases "p = []") auto
    moreover have "unat (of_nat (length p) :: u64) = length p" using rok unat_payload_len by fastforce
    ultimately have e: "unat (se_end e + RECORD_HEADER_SIZE + of_nat (length p)) = ?n + 9 + length p"
      using o9 by (subst unat_add_u64) (simp_all add: max_off_def)
    have "rec_in D (content f2) (?n + 9 + length p) ?n \<lparr>rec_kind = k, payload = p\<rparr>"
      using c(1,2) b(1) rok by (intro two_writes_rec_in) auto
    then show ?thesis using r rok e t by (simp add: appended_def)
  qed (use app False w1 w2 t1 t in \<open>auto simp: append_raw_def engine_write_def on_file_def Let_def\<close>)
qed

text \<open>An appended record extends the log of the invariant.\<close>

lemma appended_core_inv:
  assumes inv: "core_inv D e" and app: "appended D e r e'"
  shows "core_inv D e'"
proof -
  let ?n = "unat (se_end e)" and ?m = "unat (se_end e')"
  note b = core_inv_bounds [OF inv]
  have t: "tail_write ?n (se_file e) (se_file e')" and m: "?m = ?n + 9 + length (payload r)"
    and rin: "rec_in D (content (se_file e')) ?m ?n r" and e': "se_slots e' = se_slots e"
    "se_header e' = se_header e" "se_live_slot e' = se_live_slot e" "se_index e' = se_index e"
    using app by (simp add: appended_def, simp add: appended_def, simp add: appended_def)
      (use app in \<open>cases e; cases e'; auto simp: appended_def\<close>)+
  have c: "core_inv D (e\<lparr>se_file := se_file e'\<rparr>)" using inv t by (rule core_inv_file)
  have len: "?m \<le> length (content (se_file e'))" using rin by (simp add: rec_in_def)
  obtain rs where "log_is D (content (se_file e')) ?n rs" using c by (auto simp: core_inv_def)
  then have log: "log_is D (content (se_file e')) ?m (rs @ [r])" using rin m log_is_snoc by metis
  have idx: "index_ok D (content (se_file e')) ?m (se_index e')"
    using c len m e'(4) by (auto simp: core_inv_def intro: index_ok_mono)
  have "disk_ok D (se_file e) ?n" using inv by (simp add: core_inv_def)
  then have "disk_ok D (se_file e') ?m" using t _ b(1) by (rule disk_ok_tail) (simp add: m)
  then show ?thesis using c log idx e' by (auto simp: core_inv_def)
qed

lemma appended_sel:
  assumes "appended D e r e'"
  shows "se_slots e' = se_slots e" "se_header e' = se_header e" "se_live_slot e' = se_live_slot e"
    "se_index e' = se_index e" "se_dirty e'" "se_path e' = se_path e"
  using assms by (cases e; cases e'; auto simp: appended_def)+

lemma appended_rec:
  assumes "appended D e r e'"
  shows "rec_in D (content (se_file e')) (unat (se_end e')) (unat (se_end e)) r"
    and "unat (se_end e') = unat (se_end e) + 9 + length (payload r)"
  using assms unfolding appended_def by blast+

section \<open>Append and tombstone\<close>

text \<open>The allocator is far from its limit: nine bytes of log back every id handed out.\<close>

lemma index_ok_room: "index_ok D bs n idx \<Longrightarrow> n \<le> max_off \<Longrightarrow> idx_room idx"
  by (simp add: index_ok_def idx_room_def max_off_def)

lemma index_ok_append:
  assumes "index_ok D bs n idx" and "rec_in D bs m (unat off) r" and "n + 9 \<le> m" and "m \<le> max_off"
  shows "index_ok D bs m (idx_append idx off)"
proof -
  have "m \<le> length bs" using assms(2) by (simp add: rec_in_def)
  then have m: "index_ok D bs m idx" using assms(1,3) index_ok_mono by (metis add_leD1)
  have room: "idx_room idx" using m assms(4) by (rule index_ok_room)
  have nx: "9 * unat (next_doc_id idx) \<le> n" using assms(1) by (simp add: index_ok_def)
  have "unat (next_doc_id (idx_append idx off)) = unat (next_doc_id idx) + 1"
    using room unat_succ by (simp add: idx_append_eq idx_room_def)
  moreover have "idx_wf (idx_append idx off)"
    using index_dir.inv_add [OF _ room] m by (simp add: index_ok_def)
  moreover have "\<exists>r. rec_in D bs m (unat o') r" if "fmlookup (offsets (idx_append idx off)) i = Some o'" for i o'
    using that m assms(2) by (auto simp: idx_append_eq index_ok_def split: if_splits)
  ultimately show ?thesis using nx assms(3) by (simp add: index_ok_def)
qed

lemma index_ok_mark_dead:
  "index_ok D bs n idx \<Longrightarrow> i |\<in>| fmdom (offsets idx) \<Longrightarrow> index_ok D bs n (mark_dead idx i)"
  using idx_wf_mark_dead by (simp add: index_ok_def) (simp add: mark_dead_def)

lemma core_inv_index:
  "core_inv D e \<Longrightarrow> index_ok D (content (se_file e)) (unat (se_end e)) idx \<Longrightarrow> core_inv D (e\<lparr>se_index := idx\<rparr>)"
  by (simp add: core_inv_def)

lemma engine_inv_file:
  "engine_inv D e \<Longrightarrow> tail_write (unat (se_end e)) (se_file e) f \<Longrightarrow> engine_inv D (e\<lparr>se_file := f\<rparr>)"
  by (simp add: engine_inv_def core_inv_file clean_ok_file)

lemma dirty_engine_inv: "core_inv D e \<Longrightarrow> se_dirty e \<Longrightarrow> engine_inv D e"
  by (simp add: engine_inv_def clean_ok_def)

text \<open>What \<open>append\<close> does: nothing but bytes past the end, or one more document.\<close>

lemma append_effect:
  assumes "core_inv D e" and "append D os e k p = (r, e')"
  shows "case r of
      Inl err \<Rightarrow> \<exists>f. e' = e\<lparr>se_file := f\<rparr> \<and> tail_write (unat (se_end e)) (se_file e) f
    | Inr i \<Rightarrow> i = DocId (next_doc_id (se_index e)) \<and>
        (\<exists>e1. appended D e \<lparr>rec_kind = k, payload = p\<rparr> e1 \<and>
           e' = e1\<lparr>se_index := idx_append (se_index e) (se_end e)\<rparr>)"
proof -
  obtain q e1 where q: "append_raw D os e k p = (q, e1)" by fastforce
  note eff = append_raw_effect [OF assms(1) q]
  show ?thesis
  proof (cases q)
    case (Inl err)
    then show ?thesis using assms(2) q eff by (auto simp: append_def)
  next
    case (Inr off)
    then have a: "appended D e \<lparr>rec_kind = k, payload = p\<rparr> e1" and "off = se_end e" using eff by auto
    then have "r = Inr (DocId (next_doc_id (se_index e)))"
      "e' = e1\<lparr>se_index := idx_append (se_index e) (se_end e)\<rparr>"
      using assms(2) q Inr appended_sel(4) [OF a]
      by (auto simp: append_def allocate_id_def idx_append_def)
    then show ?thesis using a by auto
  qed
qed

lemma appended_append_inv:
  assumes "core_inv D e" and a: "appended D e r e1"
  shows "core_inv D (e1\<lparr>se_index := idx_append (se_index e) (se_end e)\<rparr>)"
proof (rule core_inv_index)
  show c: "core_inv D e1" using assms by (rule appended_core_inv)
  have "unat (se_end e) + 9 \<le> unat (se_end e1)" using a unfolding appended_def by linarith
  moreover have "rec_in D (content (se_file e1)) (unat (se_end e1)) (unat (se_end e)) r"
    using a unfolding appended_def by blast
  moreover have "core_inv D (e\<lparr>se_file := se_file e1\<rparr>)"
    using a by (intro core_inv_file [OF assms(1)]) (simp add: appended_def)
  then have "index_ok D (content (se_file e1)) (unat (se_end e)) (se_index e)" by (simp add: core_inv_def)
  moreover have "unat (se_end e1) \<le> max_off" using core_inv_bounds [OF c] by simp
  ultimately show "index_ok D (content (se_file e1)) (unat (se_end e1)) (idx_append (se_index e) (se_end e))"
    by (blast intro: index_ok_append)
qed

lemma append_inv:
  assumes "engine_inv D e" and "append D os e k p = (r, e')"
  shows "engine_inv D e'"
proof -
  have c: "core_inv D e" using assms(1) by (simp add: engine_inv_def)
  show ?thesis
  proof (cases r)
    case (Inl err)
    then show ?thesis using append_effect [OF c assms(2)] engine_inv_file [OF assms(1)] by auto
  next
    case (Inr i)
    then obtain e1 where "appended D e \<lparr>rec_kind = k, payload = p\<rparr> e1"
      "e' = e1\<lparr>se_index := idx_append (se_index e) (se_end e)\<rparr>"
      using append_effect [OF c assms(2)] by auto
    then show ?thesis using appended_append_inv [OF c] appended_sel(5) by (auto intro!: dirty_engine_inv)
  qed
qed

text \<open>What \<open>tombstone\<close> does: an error and at most bytes past the end, or one document hidden.\<close>

lemma tombstone_effect:
  assumes "core_inv D e" and "tombstone D os e i = (r, e')"
  shows "case r of
      Inl err \<Rightarrow> \<exists>f. e' = e\<lparr>se_file := f\<rparr> \<and> tail_write (unat (se_end e)) (se_file e) f
    | Inr _ \<Rightarrow> i |\<in>| fmdom (offsets (se_index e)) \<and> i |\<notin>| dead (se_index e) \<and>
        (\<exists>e1. appended D e \<lparr>rec_kind = Tombstone, payload = le_bytes 8 (raw_id i)\<rparr> e1 \<and>
           e' = e1\<lparr>se_index := mark_dead (se_index e) i\<rparr>)"
proof (cases "i |\<in>| dead (se_index e) \<or> i |\<notin>| fmdom (offsets (se_index e))")
  case True
  then show ?thesis using assms(2) by (auto simp: tombstone_def split: if_splits intro!: exI [of _ "se_file e"])
next
  case False
  obtain q e1 where q: "append_raw D os e Tombstone (le_bytes 8 (raw_id i)) = (q, e1)" by fastforce
  note eff = append_raw_effect [OF assms(1) q]
  show ?thesis
  proof (cases q)
    case (Inl err)
    then show ?thesis using False assms(2) q eff by (auto simp: tombstone_def)
  next
    case (Inr off)
    then have a: "appended D e \<lparr>rec_kind = Tombstone, payload = le_bytes 8 (raw_id i)\<rparr> e1" using eff by auto
    then show ?thesis using False assms(2) q Inr appended_sel(4) [OF a] by (auto simp: tombstone_def)
  qed
qed

lemma tombstone_inv:
  assumes "engine_inv D e" and "tombstone D os e i = (r, e')"
  shows "engine_inv D e'"
proof -
  have c: "core_inv D e" using assms(1) by (simp add: engine_inv_def)
  show ?thesis
  proof (cases r)
    case (Inl err)
    then show ?thesis using tombstone_effect [OF c assms(2)] engine_inv_file [OF assms(1)] by auto
  next
    case (Inr u)
    then obtain e1 where i: "i |\<in>| fmdom (offsets (se_index e))"
      and a: "appended D e \<lparr>rec_kind = Tombstone, payload = le_bytes 8 (raw_id i)\<rparr> e1"
      and e': "e' = e1\<lparr>se_index := mark_dead (se_index e) i\<rparr>"
      using tombstone_effect [OF c assms(2)] by auto
    have c1: "core_inv D e1" using c a by (rule appended_core_inv)
    then have "core_inv D e'"
      using i appended_sel(4) [OF a] unfolding e'
      by (intro core_inv_index) (simp_all add: core_inv_def index_ok_mark_dead)
    then show ?thesis using appended_sel(5) [OF a] e' by (auto intro!: dirty_engine_inv)
  qed
qed


section \<open>Commit\<close>

text \<open>The header a commit is about to write, with the index serialized to \<open>p\<close>.\<close>

definition next_header :: "StorageEngine \<Rightarrow> bytes \<Rightarrow> Header" where
  "next_header e p = \<lparr>generation = generation (se_header e) + 1, master_ptr = se_end e,
     master_len = of_nat (length p), log_end = se_end e + RECORD_HEADER_SIZE + of_nat (length p)\<rparr>"

text \<open>
  The checksum tells a torn write of that header from a header: the assumption on CRC-32 under
  which a commit is atomic.
\<close>

definition commit_tear_safe :: "deps \<Rightarrow> StorageEngine \<Rightarrow> bool" where
  "commit_tear_safe D e \<longleftrightarrow> (\<forall>p. idx_encode D (se_index e) = Inr p \<longrightarrow>
     torn_ok D (slot_bytes (content (se_file e)) (victim_slot (se_slots e)))
       (Header_encode (crc32 D) (next_header e p)))"

lemma engine_inv_sync:
  assumes "engine_inv D e" and "engine_sync os e = (r, e')"
  shows "engine_inv D e'" and "\<exists>f. e' = e\<lparr>se_file := f\<rparr> \<and> content f = content (se_file e) \<and>
      tail_write (unat (se_end e)) (se_file e) f"
    and "r = Inr () \<Longrightarrow> versions (se_file e') = [content (se_file e')]"
proof -
  obtain q f where q: "sync_file os (se_file e) = (q, f)" "r = map_err Io q" "e' = e\<lparr>se_file := f\<rparr>"
    using engine_sync_effect [OF assms(2)] by blast
  note eff = sync_file_effect [OF q(1)] and t = tail_write_sync [OF q(1)]
  show "engine_inv D e'" using engine_inv_file [OF assms(1) t] q(3) by simp
  show "\<exists>f. e' = e\<lparr>se_file := f\<rparr> \<and> content f = content (se_file e) \<and>
      tail_write (unat (se_end e)) (se_file e) f" using q(3) eff(1) t by blast
  show "versions (se_file e') = [content (se_file e')]" if "r = Inr ()"
    using that q eff by (cases q) auto
qed

text \<open>The next header describes the log and the index the commit has just written.\<close>

lemma next_header_ok:
  assumes inv: "core_inv D e" and app: "appended D e \<lparr>rec_kind = MasterIndexKind, payload = p\<rparr> e1"
    and enc: "idx_decode D p = Inr (se_index e)" "p \<noteq> []"
    and vs: "versions f = [content f]" "content f = content (se_file e1)"
  shows "header_ok D f (unat (se_end e1)) (next_header e p)" and "log_end (next_header e p) = se_end e1"
    and "snap D (content f) (next_header e p) (se_index e)"
    and "generation (se_header e) < generation (next_header e p)"
    and "unat (generation (next_header e p)) = unat (generation (se_header e)) + 1"
    and "log_end (se_header e) \<le> se_end e1"
proof -
  let ?h = "next_header e p"
  have e1: "unat (se_end e1) = unat (se_end e) + 9 + length p" "length p \<le> 67108864"
    "rec_in D (content (se_file e1)) (unat (se_end e1)) (unat (se_end e)) \<lparr>rec_kind = MasterIndexKind, payload = p\<rparr>"
    using app unfolding appended_def record_ok_def by auto
  show le: "log_end ?h = se_end e1"
    using app by (cases e1) (simp add: next_header_def appended_def)
  have c1: "core_inv D e1" using inv app by (rule appended_core_inv)
  note b = core_inv_bounds [OF c1]
  obtain idx where "snap D (content (se_file e)) (se_header e) idx" and lh: "unat (log_end (se_header e)) \<le> unat (se_end e)"
    using header_ok_snap [OF core_inv_header_ok [OF inv]] by blast
  then have g: "9 * unat (generation (se_header e)) \<le> unat (se_end e)" using snap_bounds by fastforce
  then have "unat (generation (se_header e)) < 2 ^ 64 - 1" using e1(1) b by (simp add: max_off_def)
  then show gen: "unat (generation ?h) = unat (generation (se_header e)) + 1"
    unfolding next_header_def by (simp add: unat_succ)
  then show "generation (se_header e) < generation ?h" by (simp add: word_less_nat_alt)
  show "log_end (se_header e) \<le> se_end e1" using lh e1(1) by (simp add: word_le_nat_alt)
  have "unat (of_nat (length p) :: u64) = length p" using e1(2) by (simp add: word_nat)
  then have "master_len ?h \<noteq> 0" using enc(2) by (auto simp: next_header_def)
  moreover have "master_ptr ?h = se_end e" by (simp add: next_header_def)
  moreover have "index_ok D (content f) (unat (se_end e1)) (se_index e)" "\<exists>rs. log_is D (content f) (unat (se_end e1)) rs"
    using c1 appended_sel(4) [OF app] vs(2) by (simp_all add: core_inv_def)
  ultimately show sn: "snap D (content f) ?h (se_index e)"
    using e1 le enc(1) gen g vs(2) by (auto simp: snap_def)
  show "header_ok D f (unat (se_end e1)) ?h"
    using sn le vs b by (auto simp: header_ok_def)
qed

text \<open>
  The header write and the final sync. Before them nothing is in flight; after them the victim
  slot may hold what it held, the next header or a torn mix of both, and the other slot is
  untouched.
\<close>

definition header_landed :: "deps \<Rightarrow> StorageEngine \<Rightarrow> Header \<Rightarrow> dbfile \<Rightarrow> bool" where
  "header_landed D e nxt f \<longleftrightarrow> heads_ok D f (unat (se_end e)) \<and> stable f (se_live_slot e) \<and>
     (\<forall>i<2. \<forall>k. cand D f i k \<longrightarrow> cand D (se_file e) i k \<or>
        (i = victim_slot (se_slots e) \<and> k = nxt \<and> slot_header D (slot_bytes (content f) i) = Some nxt)) \<and>
     length (content f) = length (content (se_file e)) \<and>
     (\<forall>b. bslice (content f) 128 b = bslice (content (se_file e)) 128 b) \<and>
     slot_bytes (content f) (se_live_slot e) = slot_bytes (content (se_file e)) (se_live_slot e)"

definition header_in_flight :: "deps \<Rightarrow> StorageEngine \<Rightarrow> Header \<Rightarrow> dbfile \<Rightarrow> bool" where
  "header_in_flight D e nxt f \<longleftrightarrow> header_landed D e nxt f \<and> (\<forall>i<2. \<exists>w. slot_in_flight D f i w)"

lemma header_landedD:
  assumes "header_landed D e nxt f"
  shows "heads_ok D f (unat (se_end e))" and "stable f (se_live_slot e)"
    and "i < 2 \<Longrightarrow> cand D f i k \<Longrightarrow> cand D (se_file e) i k \<or>
      (i = victim_slot (se_slots e) \<and> k = nxt \<and> slot_header D (slot_bytes (content f) i) = Some nxt)"
    and "length (content f) = length (content (se_file e))"
    and "bslice (content f) 128 b = bslice (content (se_file e)) 128 b"
    and "slot_bytes (content f) (se_live_slot e) = slot_bytes (content (se_file e)) (se_live_slot e)"
  using assms unfolding header_landed_def by blast+

lemma header_in_flightD:
  assumes "header_in_flight D e nxt f"
  shows "disk_ok D f (unat (se_end e))" and "stable f (se_live_slot e)"
    and "i < 2 \<Longrightarrow> cand D f i k \<Longrightarrow> cand D (se_file e) i k \<or>
      (i = victim_slot (se_slots e) \<and> k = nxt \<and> slot_header D (slot_bytes (content f) i) = Some nxt)"
    and "length (content f) = length (content (se_file e))"
    and "bslice (content f) 128 b = bslice (content (se_file e)) 128 b"
    and "slot_bytes (content f) (se_live_slot e) = slot_bytes (content (se_file e)) (se_live_slot e)"
  using assms header_landedD [of D e nxt f] unfolding header_in_flight_def disk_ok_def by blast+

lemma synced_header_in_flight: "header_landed D e nxt f \<Longrightarrow> versions f = [content f] \<Longrightarrow> header_in_flight D e nxt f"
  using synced_disk_ok header_landedD(1) unfolding header_in_flight_def disk_ok_def by blast

lemma header_write_in_flight:
  assumes inv: "core_inv D e" and vs: "versions (se_file e) = [content (se_file e)]"
    and w: "write_all_at os (se_file e) (Header_encode (crc32 D) nxt) (slot_offset (victim_slot (se_slots e))) = (r, f)"
    and nxt: "header_ok D (se_file e) (unat (se_end e)) nxt" "generation (se_header e) < generation nxt"
      "log_end (se_header e) \<le> log_end nxt"
  defines "torn \<equiv> torn_ok D (slot_bytes (content (se_file e)) (victim_slot (se_slots e))) (Header_encode (crc32 D) nxt)"
  shows "r = Inr () \<or> torn \<Longrightarrow> header_landed D e nxt f" and "torn \<Longrightarrow> header_in_flight D e nxt f"
    and "r = Inr () \<Longrightarrow> slot_bytes (content f) (victim_slot (se_slots e)) = Header_encode (crc32 D) nxt"
proof -
  let ?s = "victim_slot (se_slots e)"
  have s: "?s < 2" "se_live_slot e \<noteq> ?s" "se_live_slot e < 2"
    using inv victim_slotD core_inv_live [OF inv] unfolding core_inv_def by metis+
  have l: "slot_header D (slot_bytes (content (se_file e)) (se_live_slot e)) = Some (se_header e)"
    using inv by (simp add: core_inv_def)
  have d: "heads_ok D (se_file e) (unat (se_end e))" using inv by (simp add: core_inv_def disk_ok_def)
  have sz: "128 \<le> length (content (se_file e))" "length (content (se_file e)) \<le> max_off"
    using core_inv_bounds [OF inv] by simp_all
  note eff = slot_write_effect [OF w s(1) length_Header_encode sz]
  show landed: "header_landed D e nxt f" if "r = Inr () \<or> torn"
    using heads_ok_header_write [OF d vs w s(1,3,2) l nxt that [unfolded torn_def]] eff(2,3)
    unfolding header_landed_def by blast
  show "header_in_flight D e nxt f" if torn
    using landed header_write_slots_in_flight [OF sz vs w s(1)] that unfolding header_in_flight_def torn_def by blast
  show "slot_bytes (content f) ?s = Header_encode (crc32 D) nxt" if "r = Inr ()" by (rule eff(6) [OF that])
qed

text \<open>An engine whose victim slot is in flight still satisfies the invariant.\<close>

lemma in_flight_core_inv:
  assumes inv: "core_inv D e" and fl: "header_in_flight D e nxt f"
  shows "core_inv D (e\<lparr>se_file := f\<rparr>)"
proof -
  note d = header_in_flightD [OF fl]
  have n: "unat (se_end e) \<le> length (content f)" using d(4) core_inv_bounds [OF inv] by simp
  have bs: "bslice (content f) 128 (unat (se_end e)) = bslice (content (se_file e)) 128 (unat (se_end e))"
    by (rule d(5))
  show ?thesis
    using inv d(1,6) log_is_stable [OF _ bs n] index_ok_stable [OF _ bs n] by (auto simp: core_inv_def)
qed


text \<open>The engine inside a commit, once its index is appended to the log and flushed.\<close>

definition index_flushed :: "deps \<Rightarrow> StorageEngine \<Rightarrow> bytes \<Rightarrow> StorageEngine \<Rightarrow> bool" where
  "index_flushed D e p e1 \<longleftrightarrow> core_inv D e1 \<and> se_dirty e1 \<and>
     versions (se_file e1) = [content (se_file e1)] \<and> idx_encode D (se_index e) = Inr p \<and>
     se_slots e1 = se_slots e \<and> se_header e1 = se_header e \<and> se_live_slot e1 = se_live_slot e \<and>
     se_index e1 = se_index e \<and> tail_write (unat (se_end e)) (se_file e) (se_file e1) \<and>
     header_ok D (se_file e1) (unat (se_end e1)) (next_header e p) \<and>
     snap D (content (se_file e1)) (next_header e p) (se_index e) \<and>
     rec_in D (content (se_file e1)) (unat (se_end e1)) (unat (se_end e)) \<lparr>rec_kind = MasterIndexKind, payload = p\<rparr> \<and>
     unat (se_end e1) = unat (se_end e) + 9 + length p \<and>
     next_header e p = \<lparr>generation = generation (se_header e1) + 1, master_ptr = se_end e,
       master_len = of_nat (length p), log_end = se_end e1\<rparr>"

lemma index_flushed_header:
  assumes "core_inv D e" and "index_flushed D e p e1"
  shows "generation (se_header e1) < generation (next_header e p)"
    and "unat (generation (next_header e p)) = unat (generation (se_header e)) + 1"
    and "log_end (se_header e1) \<le> log_end (next_header e p)"
    and "i < 2 \<Longrightarrow> slot_bytes (content (se_file e1)) i = slot_bytes (content (se_file e)) i"
proof -
  note f = assms(2) [unfolded index_flushed_def]
  have "header_ok D (se_file e1) (unat (se_end e1)) (se_header e1)"
    using f by (intro core_inv_header_ok) blast
  then have le: "unat (log_end (se_header e1)) \<le> unat (se_end e1)" unfolding header_ok_def by blast
  obtain idx where "snap D (content (se_file e1)) (se_header e1) idx"
    using core_inv_header_ok [of D e1] header_ok_snap f by blast
  then have "9 * unat (generation (se_header e1)) \<le> max_off"
    using snap_bounds core_inv_bounds(3) [of D e1] f by fastforce
  then have "unat (generation (se_header e1) + 1) = unat (generation (se_header e1)) + 1"
    by (intro unat_succ) (simp add: max_off_def)
  then show g: "unat (generation (next_header e p)) = unat (generation (se_header e)) + 1" using f by simp
  then show "generation (se_header e1) < generation (next_header e p)" using f by (simp add: word_less_nat_alt)
  show "log_end (se_header e1) \<le> log_end (next_header e p)" using le f by (simp add: word_le_nat_alt)
  show "slot_bytes (content (se_file e1)) i = slot_bytes (content (se_file e)) i" if "i < 2"
  proof (rule slot_bytes_take [OF _ that])
    show "128 \<le> unat (se_end e)" by (rule core_inv_bounds [OF assms(1)])
    show "take (unat (se_end e)) (content (se_file e1)) = take (unat (se_end e)) (content (se_file e))"
      using f by (simp add: tail_write_def)
  qed
qed

text \<open>
  Up to the header write a commit either fails, leaving the engine with the slots and the
  header it had and at most a longer log, or reaches the state \<open>index_flushed\<close>.
\<close>

definition log_only :: "StorageEngine \<Rightarrow> StorageEngine \<Rightarrow> bool" where
  "log_only e e' \<longleftrightarrow> tail_write (unat (se_end e)) (se_file e) (se_file e') \<and>
     unat (se_end e) \<le> unat (se_end e') \<and> se_index e' = se_index e \<and> se_slots e' = se_slots e \<and>
     se_header e' = se_header e \<and> se_live_slot e' = se_live_slot e \<and> (se_dirty e \<longrightarrow> se_dirty e')"

definition commit_prefix :: "deps \<Rightarrow> os \<Rightarrow> StorageEngine \<Rightarrow> (u64 \<times> bytes) engine_result" where
  "commit_prefix D os e =
     st_bind (engine_sync os e) (\<lambda>_ e.
     case idx_encode D (se_index e) of
       Inl err \<Rightarrow> (Inl err, e)
     | Inr p \<Rightarrow>
         st_bind (append_raw D os e MasterIndexKind p) (\<lambda>ptr e.
         st_bind (engine_sync os e) (\<lambda>_ e. (Inr (ptr, p), e))))"

definition commit_suffix :: "deps \<Rightarrow> os \<Rightarrow> u64 \<Rightarrow> bytes \<Rightarrow> StorageEngine \<Rightarrow> unit engine_result" where
  "commit_suffix D os ptr p e =
     (let next = \<lparr>generation = generation (se_header e) + 1, master_ptr = ptr,
                  master_len = of_nat (length p), log_end = se_end e\<rparr>;
          slot = victim_slot (se_slots e) in
      st_bind (engine_write os e (Header_encode (crc32 D) next) (slot_offset slot)) (\<lambda>_ e.
      st_bind (engine_sync os e) (\<lambda>_ e.
      (Inr (), e\<lparr>se_header := next, se_slots := (se_slots e)[slot := Some next],
                 se_live_slot := slot, se_dirty := False\<rparr>))))"

lemma st_bind_assoc: "st_bind (st_bind m k) l = st_bind m (\<lambda>x s. st_bind (k x s) l)"
  by (cases m; cases "fst m") auto

lemma commit_split:
  "commit D os e = (if \<not> se_dirty e then (Inr (), e)
     else st_bind (commit_prefix D os e) (\<lambda>(ptr, p). commit_suffix D os ptr p))"
  by (auto simp: commit_def commit_prefix_def commit_suffix_def st_bind_assoc Let_def
      intro!: arg_cong [where f = "st_bind (engine_sync os e)"] ext split: sum.split)

lemma commit_prefix_effect:
  assumes inv: "engine_inv D e" and bin: "bincode_ok D" and c: "commit_prefix D os e = (r, e')"
  shows "engine_inv D e' \<and> log_only e e' \<and>
    (case r of Inl _ \<Rightarrow> True | Inr (ptr, p) \<Rightarrow> ptr = se_end e \<and> index_flushed D e p e')"
proof -
  let ?n = "unat (se_end e)"
  obtain q1 e1 where s1: "engine_sync os e = (q1, e1)" by fastforce
  note i1 = engine_inv_sync [OF inv s1]
  obtain f1 where f1: "e1 = e\<lparr>se_file := f1\<rparr>" "tail_write ?n (se_file e) f1" using i1(2) by blast
  have lo1: "log_only e e1" using f1 by (simp add: log_only_def)
  show ?thesis
  proof (cases "q1 = Inr () \<and> (\<exists>p. idx_encode D (se_index e) = Inr p)")
    case False
    then have "e' = e1 \<and> (\<exists>err. r = Inl err)"
      using c s1 f1(1) by (cases q1; cases "idx_encode D (se_index e)") (auto simp: commit_prefix_def)
    then show ?thesis using i1(1) lo1 by auto
  next
    case True
    then obtain p where p: "idx_encode D (se_index e) = Inr p" by blast
    note dec = idx_encode_InrD [OF bin p]
    have core1: "core_inv D e1" using i1(1) by (simp add: engine_inv_def)
    obtain q2 e2 where a2: "append_raw D os e1 MasterIndexKind p = (q2, e2)" by fastforce
    note eff2 = append_raw_effect [OF core1 a2]
    show ?thesis
    proof (cases q2)
      case (Inl err)
      then obtain f2 where f2: "e2 = e1\<lparr>se_file := f2\<rparr>" "tail_write ?n (se_file e1) f2"
        using eff2 f1(1) by auto
      have "e' = e2" "r = Inl err" using c s1 True p a2 Inl f1(1) by (auto simp: commit_prefix_def)
      moreover have "log_only e e2" using f1 f2 tail_write_trans by (auto simp: log_only_def)
      moreover have "engine_inv D e2" using engine_inv_file [OF i1(1)] f1(1) f2 by simp
      ultimately show ?thesis by simp
    next
      case (Inr ptr)
      then have app: "appended D e1 \<lparr>rec_kind = MasterIndexKind, payload = p\<rparr> e2" and ptr: "ptr = se_end e"
        using eff2 f1(1) by auto
      have inv2: "engine_inv D e2"
        using appended_core_inv [OF core1 app] appended_sel(5) [OF app] by (rule dirty_engine_inv)
      have lo2: "log_only e e2"
        using f1 app appended_sel [OF app] tail_write_trans by (auto simp: log_only_def appended_def)
      obtain q3 e3 where s3: "engine_sync os e2 = (q3, e3)" by fastforce
      note i3 = engine_inv_sync [OF inv2 s3]
      obtain f3 where f3: "e3 = e2\<lparr>se_file := f3\<rparr>" "content f3 = content (se_file e2)"
        "tail_write (unat (se_end e2)) (se_file e2) f3" using i3(2) by blast
      have "?n \<le> unat (se_end e2)" using app f1(1) unfolding appended_def by auto
      then have "tail_write ?n (se_file e2) f3" using f3(3) tail_write_mono by blast
      then have lo3: "log_only e e3" using lo2 f3(1) tail_write_trans by (auto simp: log_only_def)
      have e': "e' = e3" "r = (case q3 of Inl err \<Rightarrow> Inl err | Inr _ \<Rightarrow> Inr (ptr, p))"
        using c s1 True p a2 Inr s3 f1(1) by (cases q3; auto simp: commit_prefix_def)+
      show ?thesis
      proof (cases q3)
        case (Inl err)
        then show ?thesis using e' i3(1) lo3 by simp
      next
        case q3: (Inr u)
        have vs: "versions f3 = [content f3]" using i3(3) q3 f3(1) by simp
        have ix: "se_index e1 = se_index e" "next_header e1 p = next_header e p"
          using f1(1) by (simp_all add: next_header_def)
        note nh = next_header_ok [OF core1 app, of f3, unfolded ix, OF _ _ vs f3(2)]
        have "next_header e p = \<lparr>generation = generation (se_header e3) + 1, master_ptr = se_end e,
            master_len = of_nat (length p), log_end = se_end e3\<rparr>"
          using nh(2) dec f3(1) appended_sel(2) [OF app] f1(1) by (simp add: next_header_def)
        moreover have "rec_in D (content (se_file e3)) (unat (se_end e) + 9 + length p) (unat (se_end e))
            \<lparr>rec_kind = MasterIndexKind, payload = p\<rparr>"
          and "unat (se_end e3) = unat (se_end e) + 9 + length p"
          using appended_rec [OF app] f1(1) f3(1,2) by simp_all
        ultimately have "index_flushed D e p e3"
          using i3(1) lo3 nh dec p vs f3(1) appended_sel [OF app] ix
          by (simp add: index_flushed_def engine_inv_def log_only_def)
        then show ?thesis using e' q3 i3(1) lo3 ptr by simp
      qed
    qed
  qed
qed


section \<open>The header write and the result of a commit\<close>

lemma header_landed_sync:
  assumes "header_landed D e nxt f" and "sync_file os f = (q, f')" and "core_inv D e"
  shows "header_landed D e nxt f'"
proof -
  note d = header_landedD [OF assms(1)] and t = tail_write_sync [OF assms(2)]
    and b = core_inv_bounds(1) [OF assms(3)]
  have "heads_ok D f' (unat (se_end e))" using d(1) t order_refl b by (rule heads_ok_tail)
  moreover have "stable f' (se_live_slot e)" using t b core_inv_live [OF assms(3)] d(2) by (rule stable_tail)
  moreover have "cand D (se_file e) i k \<or>
      (i = victim_slot (se_slots e) \<and> k = nxt \<and> slot_header D (slot_bytes (content f') i) = Some nxt)"
    if "cand D f' i k" "i < 2" for i k
    using d(3) [OF that(2)] cand_tail [OF t b that(2,1)] sync_file_effect(1) [OF assms(2)] by metis
  ultimately show ?thesis
    using d(4-6) sync_file_effect(1) [OF assms(2)] unfolding header_landed_def by metis
qed

lemma header_in_flight_sync:
  assumes "header_in_flight D e nxt f" and "sync_file os f = (q, f')" and "core_inv D e"
  shows "header_in_flight D e nxt f'"
proof -
  have l: "header_landed D e nxt f'"
    using assms header_landed_sync unfolding header_in_flight_def by blast
  note t = tail_write_sync [OF assms(2)] and b = core_inv_bounds(1) [OF assms(3)]
  have "disk_ok D f' (unat (se_end e))" using header_in_flightD(1) [OF assms(1)] t order_refl b by (rule disk_ok_tail)
  then show ?thesis using l unfolding header_in_flight_def disk_ok_def by blast
qed

lemma commit_suffix_effect:
  assumes core: "core_inv D e" and fl: "index_flushed D e p e1"
    and torn: "r = Inr () \<or> torn_ok D (slot_bytes (content (se_file e)) (victim_slot (se_slots e)))
       (Header_encode (crc32 D) (next_header e p))"
    and c: "commit_suffix D os (se_end e) p e1 = (r, e')"
  shows "case r of
      Inl _ \<Rightarrow> \<exists>f. e' = e1\<lparr>se_file := f\<rparr> \<and> header_in_flight D e1 (next_header e p) f
    | Inr _ \<Rightarrow> \<exists>f. header_in_flight D e1 (next_header e p) f \<and> versions f = [content f] \<and>
        slot_bytes (content f) (victim_slot (se_slots e)) = Header_encode (crc32 D) (next_header e p) \<and>
        e' = e1\<lparr>se_file := f, se_header := next_header e p,
                 se_slots := (se_slots e)[victim_slot (se_slots e) := Some (next_header e p)],
                 se_live_slot := victim_slot (se_slots e), se_dirty := False\<rparr>"
proof -
  let ?nxt = "next_header e p" and ?s = "victim_slot (se_slots e)"
  note g = fl [unfolded index_flushed_def] and ih = index_flushed_header [OF core fl]
  have core1: "core_inv D e1" using g by blast
  have vs: "versions (se_file e1) = [content (se_file e1)]" using g by blast
  have hok: "header_ok D (se_file e1) (unat (se_end e1)) ?nxt" using g by blast
  have sl: "se_slots e1 = se_slots e" using g by blast
  have lit: "\<lparr>generation = generation (se_header e1) + 1, master_ptr = se_end e,
      master_len = of_nat (length p), log_end = se_end e1\<rparr> = ?nxt" using g by metis
  have s2: "?s < 2" using core victim_slotD unfolding core_inv_def by metis
  then have torn1: "r = Inr () \<or> torn_ok D (slot_bytes (content (se_file e1)) (victim_slot (se_slots e1)))
      (Header_encode (crc32 D) ?nxt)" using torn ih(4) sl by simp
  obtain q f where w: "write_all_at os (se_file e1) (Header_encode (crc32 D) ?nxt) (slot_offset ?s) = (q, f)"
    by fastforce
  have w1: "write_all_at os (se_file e1) (Header_encode (crc32 D) ?nxt) (slot_offset (victim_slot (se_slots e1))) = (q, f)"
    using w sl by simp
  note hw = header_write_in_flight [OF core1 vs w1 hok ih(1,3)]
  obtain q' f' where y: "sync_file os f = (q', f')" by fastforce
  have c': "(r, e') = (case q of Inl x \<Rightarrow> (Inl (Io x), e1\<lparr>se_file := f\<rparr>)
    | Inr _ \<Rightarrow> (case q' of Inl x \<Rightarrow> (Inl (Io x), e1\<lparr>se_file := f'\<rparr>)
        | Inr _ \<Rightarrow> (Inr (), e1\<lparr>se_file := f', se_header := ?nxt, se_slots := (se_slots e)[?s := Some ?nxt],
                     se_live_slot := ?s, se_dirty := False\<rparr>)))"
    using c w y unfolding commit_suffix_def Let_def lit
    by (cases q; cases q') (auto simp: engine_write_def engine_sync_def on_file_def sl)
  show ?thesis
  proof (cases "\<exists>u v. q = Inr u \<and> q' = Inr v")
    case True
    then have q: "q = Inr ()" "q' = Inr ()" by auto
    then have v: "versions f' = [content f']" "content f' = content f" using sync_file_effect [OF y] by auto
    have "header_in_flight D e1 ?nxt f'"
      using synced_header_in_flight [OF header_landed_sync [OF hw(1) y core1] v(1)] q(1) by blast
    moreover have "slot_bytes (content f) ?s = Header_encode (crc32 D) ?nxt" using hw(3) q sl by simp
    ultimately show ?thesis using c' q v by auto
  next
    case False
    then have "r \<noteq> Inr ()" using c' by (cases q; cases q') auto
    then have "header_in_flight D e1 ?nxt f" "header_in_flight D e1 ?nxt f'"
      using hw(2) torn1 header_in_flight_sync [OF _ y core1] by blast+
    then show ?thesis using c' False by (cases q; cases q') auto
  qed
qed

lemma commit_done_inv:
  assumes core: "core_inv D e" and fl: "index_flushed D e p e1"
    and f: "header_in_flight D e1 (next_header e p) f" "versions f = [content f]"
      "slot_bytes (content f) (victim_slot (se_slots e)) = Header_encode (crc32 D) (next_header e p)"
    and e': "e' = e1\<lparr>se_file := f, se_header := next_header e p,
                 se_slots := (se_slots e)[victim_slot (se_slots e) := Some (next_header e p)],
                 se_live_slot := victim_slot (se_slots e), se_dirty := False\<rparr>"
  shows "engine_inv D e' \<and> settled D e'"
proof -
  let ?nxt = "next_header e p" and ?s = "victim_slot (se_slots e)" and ?n = "unat (se_end e1)"
  note g = fl [unfolded index_flushed_def] and ih = index_flushed_header [OF core fl]
  have core1: "core_inv D e1" using g by blast
  note b = core_inv_bounds [OF core1]
  have fls: "disk_ok D f ?n" "length (content f) = length (content (se_file e1))"
    "\<And>m. bslice (content f) 128 m = bslice (content (se_file e1)) 128 m"
    "slot_bytes (content f) (se_live_slot e) = slot_bytes (content (se_file e1)) (se_live_slot e)"
    using header_in_flightD [OF f(1)] g by simp_all
  have n: "?n \<le> length (content f)" using b fls(2) by simp
  note c2 = in_flight_core_inv [OF core1 f(1)]
  have sel: "select_live (se_slots e') = Inr (se_header e', se_live_slot e')" "length (se_slots e') = HEADER_SLOTS"
    using core ih(1) g e' select_live_newer [of "se_slots e" "se_header e" "se_live_slot e" ?nxt]
    by (simp_all add: core_inv_def)
  have live: "slot_header D (slot_bytes (content f) ?s) = Some ?nxt" using f(3) by simp
  have cor: "core_inv D e'"
    using c2 sel live e' unfolding core_inv_def by auto
  have sn: "snap D (content f) ?nxt (se_index e)"
  proof (rule snap_stable)
    show "snap D (content (se_file e1)) ?nxt (se_index e)" using g by blast
    show "unat (log_end ?nxt) \<le> length (content f)" using g n by simp
  qed (rule fls(3))
  have lv: "se_live_slot e < 2" "?s < 2" "?s \<noteq> se_live_slot e"
    using core_inv_live [OF core] core victim_slotD unfolding core_inv_def by metis+
  have "generation h \<le> generation ?nxt" if h: "slot_header D (slot_bytes (content f) i) = Some h" "i < 2" for i h
  proof (cases "i = ?s")
    case True
    then show ?thesis using h live by simp
  next
    case False
    then have "i = se_live_slot e" using h(2) lv by linarith
    then have "h = se_header e1" using h(1) fls(4) core1 g by (simp add: core_inv_def)
    then show ?thesis using ih(1) by simp
  qed
  then have st: "settled D e'" using f(2) e' by (simp add: settled_def stable_synced)
  then have "clean_ok D e'" using sn g e' by (simp add: clean_ok_def)
  then show ?thesis using cor st by (simp add: engine_inv_def)
qed

lemma commit_inv:
  assumes inv: "engine_inv D e" and bin: "bincode_ok D" and tear: "r = Inr () \<or> commit_tear_safe D e"
    and c: "commit D os e = (r, e')"
  shows "engine_inv D e'"
proof (cases "se_dirty e")
  case False
  then show ?thesis using c inv by (simp add: commit_split)
next
  case True
  have core: "core_inv D e" using inv by (simp add: engine_inv_def)
  obtain q e1 where pre: "commit_prefix D os e = (q, e1)" by fastforce
  note eff = commit_prefix_effect [OF inv bin pre]
  show ?thesis
  proof (cases q)
    case (Inl err)
    then show ?thesis using c True pre eff by (simp add: commit_split)
  next
    case (Inr pp)
    then obtain ptr p where q: "q = Inr (ptr, p)" by (cases pp) auto
    then have ptr: "ptr = se_end e" and fl: "index_flushed D e p e1" using eff by auto
    have suf: "commit_suffix D os (se_end e) p e1 = (r, e')" using c True pre q ptr by (simp add: commit_split)
    have torn: "r = Inr () \<or> torn_ok D (slot_bytes (content (se_file e)) (victim_slot (se_slots e)))
       (Header_encode (crc32 D) (next_header e p))"
      using tear fl by (auto simp: commit_tear_safe_def index_flushed_def)
    note ce = commit_suffix_effect [OF core fl torn suf]
    show ?thesis
    proof (cases r)
      case (Inl err)
      then obtain f where f: "e' = e1\<lparr>se_file := f\<rparr>" "header_in_flight D e1 (next_header e p) f" using ce by auto
      have "core_inv D e1" "se_dirty e1" using fl by (simp_all add: index_flushed_def)
      then show ?thesis using in_flight_core_inv [OF _ f(2)] f(1) by (simp add: dirty_engine_inv)
    next
      case (Inr u)
      then show ?thesis using ce commit_done_inv [OF core fl] by auto
    qed
  qed
qed

end
