(* ===== verification/Recovery.thy ===== *)
theory Recovery
  imports Engine_Inv
begin

text \<open>
  Opening a database and recovering it after a power loss: the engine that \<open>open\<close> returns
  satisfies the invariant, a committed state survives every crash, and a crash during a commit
  yields the state before it or the state after it, never a mixture.
\<close>

section \<open>Loading a file in a good state\<close>

lemma slot_header_decode:
  "slot_header D b = (case Header_decode (crc32 D) b i of Inr h \<Rightarrow> Some h | Inl _ \<Rightarrow> None)"
proof (cases "Header_decode (crc32 D) b i")
  case (Inl e)
  then show ?thesis using slot_header_None [of D b i] by auto
next
  case (Inr h)
  then show ?thesis using slot_header_Some [of D b h i] by auto
qed

lemma decode_slots_region:
  "fst (decode_slots (crc32 D) (bslice bs 0 128) [0..<HEADER_SLOTS] None) =
     [slot_header D (slot_bytes bs 0), slot_header D (slot_bytes bs 1)]"
proof -
  have 0: "bslice (bslice bs 0 128) 0 64 = slot_bytes bs 0" using slot_of_region [of 0 bs] by simp
  have 1: "bslice (bslice bs 0 128) 64 128 = slot_bytes bs (Suc 0)" using slot_of_region [of 1 bs] by simp
  have r: "[0..<2] = [0, Suc 0]" by (simp add: numeral_2_eq_2)
  show ?thesis
    using slot_header_decode [of D "slot_bytes bs 0" 0] slot_header_decode [of D "slot_bytes bs 1" 1]
    by (simp add: r 0 1 Let_def split: sum.split)
qed

text \<open>The engine that \<open>load\<close> builds when it succeeds with header \<open>h\<close> and index \<open>idx\<close>.\<close>

definition loaded :: "deps \<Rightarrow> string \<Rightarrow> dbfile \<Rightarrow> Header \<Rightarrow> nat \<Rightarrow> MasterIndex \<Rightarrow> StorageEngine" where
  "loaded D path f h live idx =
     \<lparr>se_file = f, se_path = path, se_header = h,
      se_slots = [slot_header D (slot_bytes (content f) 0), slot_header D (slot_bytes (content f) 1)],
      se_live_slot = live, se_index = idx, se_end = log_end h, se_dirty = False\<rparr>"

lemma load_loaded:
  assumes "128 \<le> length (content f)" and "length (content f) \<le> max_off" and "reads_ok os"
    and "select_live [slot_header D (slot_bytes (content f) 0), slot_header D (slot_bytes (content f) 1)] = Inr (h, live)"
    and "unat (log_end h) \<le> length (content f)" and "load_index D os f h = Inr idx"
  shows "load D os path f (of_nat (length (content f))) = Inr (loaded D path f h live idx)"
proof -
  have len: "unat (of_nat (length (content f)) :: u64) = length (content f)"
    using assms(2) by (simp add: word_nat max_off_def)
  have "\<not> of_nat (length (content f)) < LOG_START" "\<not> of_nat (length (content f)) < log_end h"
    using len assms(1,5) by (simp_all add: word_less_nat_alt)
  moreover have "read_exact_at os f (HEADER_SIZE * HEADER_SLOTS) 0 = Inr (bslice (content f) 0 128)"
    using read_exact_at_ok [OF assms(3), of 0 128 f] assms(1,2) by simp
  moreover obtain err where "decode_slots (crc32 D) (bslice (content f) 0 128) [0..<HEADER_SLOTS] None =
      ([slot_header D (slot_bytes (content f) 0), slot_header D (slot_bytes (content f) 1)], err)"
    using decode_slots_region by (metis prod.collapse)
  ultimately show ?thesis
    using assms(4,6) by (simp add: load_def loaded_def)
qed

lemma select_live_exists:
  assumes "a \<noteq> None \<or> b \<noteq> None"
  shows "\<exists>h i. select_live [a, b] = Inr (h, i)"
  using assms by (cases a; cases b) auto

lemma header_ok_within: "header_ok D f n h \<Longrightarrow> unat (log_end h) \<le> m \<Longrightarrow> header_ok D f m h"
  unfolding header_ok_def by blast

text \<open>
  What reopening needs of a file when no power loss has happened since the last sync: the log
  found by \<open>load\<close> reaches as far as any header that a later power loss may still bring back.
  It fails only when a header write was torn over the header of an earlier commit that failed
  in its last sync.
\<close>

definition reopen_safe :: "deps \<Rightarrow> dbfile \<Rightarrow> bool" where
  "reopen_safe D f \<longleftrightarrow> (\<forall>i<2. \<forall>k. cand D f i k \<longrightarrow>
     (\<exists>j<2. \<exists>h. slot_header D (slot_bytes (content f) j) = Some h \<and> log_end k \<le> log_end h))"

lemma stable_reopen_safe: "\<forall>i<2. stable f i \<Longrightarrow> reopen_safe D f"
  unfolding reopen_safe_def using stable_cand by blast

text \<open>Such a file in a good state loads, and the engine satisfies the invariant.\<close>

lemma load_disk_ok:
  assumes d: "disk_ok D f n" and safe: "reopen_safe D f" and os: "reads_ok os"
  obtains e where "load D os path f (of_nat (length (content f))) = Inr e" and "engine_inv D e"
    and "se_file e = f" and "se_live_slot e < 2"
    and "slot_header D (slot_bytes (content f) (se_live_slot e)) = Some (se_header e)"
    and "\<And>i k. i < 2 \<Longrightarrow> slot_header D (slot_bytes (content f) i) = Some k \<Longrightarrow> generation k \<le> generation (se_header e)"
    and "snap D (content f) (se_header e) (se_index e)" and "\<not> se_dirty e"
    and "se_end e = log_end (se_header e)"
proof -
  let ?now = "slot_bytes (content f)"
  let ?slots = "[slot_header D (?now 0), slot_header D (?now 1)]"
  have sz: "128 \<le> length (content f)" "length (content f) \<le> max_off"
    using disk_okD(1) [OF d] versions_content [of f] unfolding sized_def by blast+
  have "slot_header D (?now 0) \<noteq> None \<or> slot_header D (?now 1) \<noteq> None"
    using disk_okD(4) [OF d] by (metis less_2_cases One_nat_def)
  then obtain h live where sel: "select_live ?slots = Inr (h, live)" using select_live_exists by blast
  have sl: "live < 2" "slot_header D (?now live) = Some h"
    "\<And>j k. j < 2 \<Longrightarrow> slot_header D (?now j) = Some k \<Longrightarrow> generation k \<le> generation h"
    using select_live_slotD [OF _ sel] by (auto simp: less_2_cases_iff)
  obtain idx where idx: "snap D (content f) h idx"
    using header_ok_snap [OF disk_okD(3) [OF d sl(1) cand_now [OF sl(2)]]] by blast
  note sb = snap_bounds [OF idx]
  have now_le: "log_end k \<le> log_end h" if k: "slot_header D (?now i) = Some k" "i < 2" for i k
  proof (cases "i = live")
    case True
    then show ?thesis using k sl(2) by simp
  next
    case False
    then have "apart k h" using disk_ok_apart [OF d k(2) sl(1) _ cand_now [OF k(1)] cand_now [OF sl(2)]] by blast
    then show ?thesis using sl(3) [OF k(2,1)] by (rule apart_le)
  qed
  have le: "log_end k \<le> log_end h" if k: "cand D f i k" "i < 2" for i k
    using safe k now_le unfolding reopen_safe_def by (meson order_trans)
  let ?e = "loaded D path f h live idx"
  have ld: "load D os path f (of_nat (length (content f))) = Inr ?e"
    using sz os sel sb snap_load_index [OF idx sz(2) os] by (intro load_loaded) auto
  have "header_ok D f (unat (log_end h)) k" if "cand D f i k" "i < 2" for i k
    using le [OF that] by (intro header_ok_within [OF disk_okD(3) [OF d that(2,1)]]) (simp add: word_le_nat_alt)
  then have d': "disk_ok D f (unat (log_end h))" using d unfolding disk_ok_def heads_ok_def by blast
  have e: "se_file ?e = f" "se_header ?e = h" "se_live_slot ?e = live" "se_index ?e = idx"
    "se_end ?e = log_end h" "se_slots ?e = ?slots" "\<not> se_dirty ?e"
    by (simp_all add: loaded_def)
  have "core_inv D ?e"
    unfolding core_inv_def e using sel sl(2) sb d' idx unfolding snap_def by auto
  then have "engine_inv D ?e" unfolding engine_inv_def clean_ok_def e using idx by blast
  then show thesis
    by (rule that [OF ld]) (use sl idx in \<open>auto simp: e\<close>)
qed

lemma engine_open_existing:
  assumes "0 < length (content f)" and "length (content f) \<le> max_off" and "reads_ok os"
  shows "engine_open D os path (Some f) = (load D os path f (of_nat (length (content f))), f)"
proof -
  have "unat (of_nat (length (content f)) :: u64) = length (content f)"
    using assms(2) by (simp add: word_nat max_off_def)
  then have "(0 :: u64) < of_nat (length (content f))" using assms(1) by (simp add: word_less_nat_alt)
  then show ?thesis using assms(3) by (simp add: engine_open_def reads_ok_def)
qed

section \<open>Recovery after a power loss\<close>

text \<open>
  What every recovery has in common: the file opens, the invariant holds again, the recovered
  header is one that was live or being written, and the index is the one it describes.
\<close>

lemma recover_disk_ok:
  assumes d: "disk_ok D f n" and img: "crash_image f img" and os: "reads_ok os"
  obtains e where "engine_open D os path (Some (disk_file img)) = (Inr e, disk_file img)"
    and "engine_inv D e" and "settled D e" and "\<not> se_dirty e" and "se_file e = disk_file img"
    and "se_live_slot e < 2" and "cand D f (se_live_slot e) (se_header e)"
    and "snap D img (se_header e) (se_index e)"
    and "\<And>i h. i < 2 \<Longrightarrow> stable f i \<Longrightarrow> slot_header D (slot_bytes (content f) i) = Some h \<Longrightarrow>
      generation h \<le> generation (se_header e)"
proof -
  note c = disk_ok_crash [OF d img]
  have st: "stable (disk_file img) i" for i by (simp add: stable_synced)
  obtain e where e: "load D os path (disk_file img) (of_nat (length img)) = Inr e" "engine_inv D e"
    "se_file e = disk_file img" "se_live_slot e < 2"
    "slot_header D (slot_bytes img (se_live_slot e)) = Some (se_header e)"
    "\<And>i k. i < 2 \<Longrightarrow> slot_header D (slot_bytes img i) = Some k \<Longrightarrow> generation k \<le> generation (se_header e)"
    "snap D img (se_header e) (se_index e)" "\<not> se_dirty e"
    by (rule load_disk_ok [OF c(1) stable_reopen_safe os, of path]) (use st in auto)
  have "128 \<le> length img" "length img \<le> max_off"
    using disk_okD(1) [OF c(1)] by (simp_all add: sized_def)
  moreover from this(1) have "img \<noteq> []" by auto
  ultimately have "engine_open D os path (Some (disk_file img)) = (Inr e, disk_file img)"
    using engine_open_existing [of "disk_file img", OF _ _ os] e(1) by simp
  moreover have "settled D e" using e(3,6) st by (simp add: settled_def)
  moreover have "generation h \<le> generation (se_header e)"
    if "i < 2" "stable f i" "slot_header D (slot_bytes (content f) i) = Some h" for i h
    using e(6) [OF that(1)] c(3) [OF that(1,2)] that(3) by simp
  ultimately show thesis using that e(2,3,4,7,8) c(2) [OF e(4,5)] by blast
qed

lemma crash_agree:
  assumes "header_ok D f n h" and "crash_image f img"
  shows "bslice img 128 (unat (log_end h)) = bslice (content f) 128 (unat (log_end h))"
    and "unat (log_end h) \<le> length img"
proof -
  have ag: "\<forall>v\<in>set (versions f). unat (log_end h) \<le> length v \<and>
      bslice v 128 (unat (log_end h)) = bslice (content f) 128 (unat (log_end h))"
    using assms(1) unfolding header_ok_def by blast
  show "bslice img 128 (unat (log_end h)) = bslice (content f) 128 (unat (log_end h))"
    by (rule crash_image_agree [OF assms(2) ag])
  show "unat (log_end h) \<le> length img" using ag assms(2) le_trans unfolding crash_image_def by blast
qed

text \<open>An index determines what its documents read as, from the bytes of its log alone.\<close>

lemma read_record_index_ok:
  assumes "index_ok D (content f) n (se_index e)" and "se_file e = f"
    and "length (content f) \<le> max_off" and "reads_ok os"
  shows "case read_record D os e i of
      Inr r \<Rightarrow> i |\<notin>| dead (se_index e) \<and> (\<exists>off. fmlookup (offsets (se_index e)) i = Some off \<and>
        rec_in D (content f) n (unat off) r)
    | Inl err \<Rightarrow> err = (if i |\<in>| dead (se_index e) then Deleted i else NotFound i) \<and>
        \<not> is_live (se_index e) i"
proof (cases "i |\<in>| dead (se_index e)")
  case True
  then show ?thesis by (simp add: read_record_def is_live_def)
next
  case nd: False
  show ?thesis
  proof (cases "fmlookup (offsets (se_index e)) i")
    case None
    then have "i |\<notin>| fmdom (offsets (se_index e))" by (simp add: fmdom_notI)
    then show ?thesis using None nd by (simp add: read_record_def is_live_def)
  next
    case (Some off)
    then obtain r where r: "rec_in D (content f) n (unat off) r" using assms(1) by (auto simp: index_ok_def)
    then show ?thesis
      using Some nd read_record_rec_in [of D f n off r os] assms(2-4) by (auto simp: read_record_def)
  qed
qed

lemma read_record_same:
  assumes ix: "index_ok D (content (se_file e)) n (se_index e)" "se_index e' = se_index e"
    and ag: "bslice (content (se_file e')) 128 n = bslice (content (se_file e)) 128 n" "n \<le> length (content (se_file e'))"
    and len: "length (content (se_file e)) \<le> max_off" "length (content (se_file e')) \<le> max_off"
    and os: "reads_ok os" "reads_ok os'"
  shows "read_record D os' e' i = read_record D os e i"
proof (cases "i |\<in>| dead (se_index e) \<or> fmlookup (offsets (se_index e)) i = None")
  case True
  then show ?thesis using ix(2) by (auto simp: read_record_def)
next
  case False
  then obtain off where off: "fmlookup (offsets (se_index e)) i = Some off" "i |\<notin>| dead (se_index e)" by auto
  then obtain r where r: "rec_in D (content (se_file e)) n (unat off) r" using ix(1) by (auto simp: index_ok_def)
  have "rec_in D (content (se_file e')) n (unat off) r" using r ag by (rule rec_in_stable)
  then show ?thesis
    using off ix(2) read_record_rec_in [OF r len(1) os(1)] read_record_rec_in [OF _ len(2) os(2)]
    by (simp add: read_record_def)
qed


lemma snap_unique:
  assumes "snap D bs h a" and "snap D bs h b" and "length bs \<le> max_off"
  shows "a = b"
  using snap_load_index [of D "disk_file bs" h a os_ok] snap_load_index [of D "disk_file bs" h b os_ok] assms
  by simp

text \<open>
  The committed state of an engine: what the live header describes, provided no other header
  can come up after a power loss.
\<close>

definition committed :: "deps \<Rightarrow> StorageEngine \<Rightarrow> MasterIndex \<Rightarrow> bool" where
  "committed D e idx \<longleftrightarrow> settled D e \<and> snap D (content (se_file e)) (se_header e) idx"

text \<open>Of the headers on a settled disk only the live one has its generation.\<close>

lemma settled_newest:
  assumes core: "core_inv D e" and st: "settled D e"
    and h: "i < 2" "slot_header D (slot_bytes (content (se_file e)) i) = Some h"
      "generation (se_header e) \<le> generation h"
  shows "h = se_header e"
proof (cases "i = se_live_slot e")
  case True
  then show ?thesis using core h(2) by (simp add: core_inv_def)
next
  case False
  have d: "disk_ok D (se_file e) (unat (se_end e))"
    and "slot_header D (slot_bytes (content (se_file e)) (se_live_slot e)) = Some (se_header e)"
    using core by (simp_all add: core_inv_def)
  then have "apart h (se_header e)"
    using disk_ok_apart [OF d h(1) core_inv_live [OF core] False] cand_now h(2) by blast
  moreover have "generation h \<le> generation (se_header e)" using st h(1,2) unfolding settled_def by blast
  ultimately show ?thesis using h(3) by (auto simp: apart_def)
qed

lemma recover_committed:
  assumes core: "core_inv D e" and com: "committed D e idx" and img: "crash_image (se_file e) img" and os: "reads_ok os"
  obtains e' where "engine_open D os path (Some (disk_file img)) = (Inr e', disk_file img)"
    and "engine_inv D e'" and "committed D e' idx" and "se_header e' = se_header e" and "se_index e' = idx"
    and "se_file e' = disk_file img" and "\<not> se_dirty e'"
    and "bslice img 128 (unat (log_end (se_header e))) = bslice (content (se_file e)) 128 (unat (log_end (se_header e)))"
    and "unat (log_end (se_header e)) \<le> length img" and "length img \<le> max_off"
proof -
  have st: "settled D e" and sn: "snap D (content (se_file e)) (se_header e) idx"
    using com by (simp_all add: committed_def)
  have d: "disk_ok D (se_file e) (unat (se_end e))" using core by (simp add: core_inv_def)
  note hok = core_inv_header_ok [OF core]
  note ag = crash_agree [OF hok img]
  have sn': "snap D img (se_header e) idx" using sn ag by (rule snap_stable)
  show thesis
  proof (rule recover_disk_ok [OF d img os, of path])
    fix e' assume e': "engine_open D os path (Some (disk_file img)) = (Inr e', disk_file img)"
      "engine_inv D e'" "settled D e'" "\<not> se_dirty e'" "se_file e' = disk_file img" "se_live_slot e' < 2"
      "cand D (se_file e) (se_live_slot e') (se_header e')" "snap D img (se_header e') (se_index e')"
      "\<And>i h. i < 2 \<Longrightarrow> stable (se_file e) i \<Longrightarrow> slot_header D (slot_bytes (content (se_file e)) i) = Some h \<Longrightarrow>
        generation h \<le> generation (se_header e')"
    have stab: "stable (se_file e) i" if "i < 2" for i using st that unfolding settled_def by blast
    have live: "se_live_slot e < 2" by (rule core_inv_live [OF core])
    have "generation (se_header e) \<le> generation (se_header e')"
      using e'(9) [OF live stab [OF live]] core by (simp add: core_inv_def)
    then have hd: "se_header e' = se_header e"
      using settled_newest [OF core st e'(6)] e'(7) stable_cand [OF stab [OF e'(6)]] by blast
    have len: "length img \<le> max_off" using core_inv_bounds(3) [of D e'] e'(2,5) by (simp add: engine_inv_def)
    then have "se_index e' = idx" using snap_unique e'(8) sn' hd by metis
    then show thesis using that e'(1-5) hd ag len sn' by (simp add: committed_def)
  qed
qed

text \<open>Uncommitted writes do not touch the committed state.\<close>

lemma tail_writeD:
  assumes "tail_write n f f'"
  shows "length (content f) \<le> length (content f')" and "take n (content f') = take n (content f)"
  using assms unfolding tail_write_def by blast+

lemma appended_tail: "appended D e r e' \<Longrightarrow> tail_write (unat (se_end e)) (se_file e) (se_file e')"
  unfolding appended_def by blast

lemma appended_log:
  assumes "log_is D (content (se_file e)) (unat (se_end e)) rs" and a: "appended D e r e'"
  shows "log_is D (content (se_file e')) (unat (se_end e')) (rs @ [r])"
proof -
  note t = tail_writeD [OF appended_tail [OF a]]
  have "log_is D (content (se_file e')) (unat (se_end e)) rs"
    using assms(1) bslice_take [OF order_refl t(2)] by (rule log_is_stable) (use assms(1) t(1) in \<open>simp add: log_is_def\<close>)
  moreover have "rec_in D (content (se_file e')) (unat (se_end e) + 9 + length (payload r)) (unat (se_end e)) r"
    "unat (se_end e') = unat (se_end e) + 9 + length (payload r)"
    using a unfolding appended_def by metis+
  ultimately show ?thesis using log_is_snoc by metis
qed

lemma committed_tail:
  assumes core: "core_inv D e" and com: "committed D e idx"
    and t: "tail_write (unat (se_end e)) (se_file e) (se_file e')" and hd: "se_header e' = se_header e"
  shows "committed D e' idx"
proof -
  let ?L = "unat (log_end (se_header e))"
  have L: "?L \<le> unat (se_end e)" using core_inv_header_ok [OF core] unfolding header_ok_def by blast
  have "snap D (content (se_file e')) (se_header e) idx"
  proof (rule snap_stable)
    show "snap D (content (se_file e)) (se_header e) idx" using com by (simp add: committed_def)
    show "bslice (content (se_file e')) 128 ?L = bslice (content (se_file e)) 128 ?L"
      using L tail_writeD(2) [OF t] by (rule bslice_take)
    show "?L \<le> length (content (se_file e'))"
      using L tail_writeD(1) [OF t] core_inv_bounds(2) [OF core] by linarith
  qed
  moreover have "settled D e'"
    using com t core_inv_bounds(1) [OF core] hd unfolding committed_def by (blast intro: settled_tail)
  ultimately show ?thesis using hd by (simp add: committed_def)
qed

text \<open>What an append or a deletion does besides the index, whatever it returns.\<close>

lemma append_tail:
  assumes "core_inv D e" and "append D os e k p = (r, e')"
  shows "tail_write (unat (se_end e)) (se_file e) (se_file e') \<and> se_header e' = se_header e \<and>
    (se_dirty e' \<longleftrightarrow> se_dirty e \<or> \<not> isl r)"
  using append_effect [OF assms] appended_sel(2,5) appended_tail by (cases r) fastforce+

lemma tombstone_tail:
  assumes "core_inv D e" and "tombstone D os e i = (r, e')"
  shows "tail_write (unat (se_end e)) (se_file e) (se_file e') \<and> se_header e' = se_header e \<and>
    (se_dirty e' \<longleftrightarrow> se_dirty e \<or> \<not> isl r)"
  using tombstone_effect [OF assms] appended_sel(2,5) appended_tail by (cases r) fastforce+

lemma append_committed:
  assumes "core_inv D e" and "committed D e idx" and "append D os e k p = (r, e')"
  shows "committed D e' idx \<and> se_header e' = se_header e"
  using append_tail [OF assms(1,3)] committed_tail [OF assms(1,2)] by blast

lemma tombstone_committed:
  assumes "core_inv D e" and "committed D e idx" and "tombstone D os e i = (r, e')"
  shows "committed D e' idx \<and> se_header e' = se_header e"
  using tombstone_tail [OF assms(1,3)] committed_tail [OF assms(1,2)] by blast

text \<open>After a commit that returned \<open>Ok\<close> the committed state is the state of the engine.\<close>

lemma clean_committed: "engine_inv D e \<Longrightarrow> \<not> se_dirty e \<Longrightarrow> settled D e \<Longrightarrow> committed D e (se_index e)"
  by (simp add: engine_inv_def clean_ok_def committed_def)

lemma commit_Inr_cases:
  assumes inv: "engine_inv D e" and bin: "bincode_ok D" and c: "commit D os e = (Inr u, e')"
  shows "engine_inv D e' \<and> \<not> se_dirty e' \<and> (se_dirty e \<longrightarrow> settled D e') \<and> se_index e' = se_index e \<and>
    (if se_dirty e then unat (generation (se_header e')) = unat (generation (se_header e)) + 1 \<and>
        se_live_slot e' = victim_slot (se_slots e) \<and>
        (\<exists>p. idx_encode D (se_index e) = Inr p \<and> se_header e' = next_header e p \<and>
           rec_in D (content (se_file e')) (unat (log_end (se_header e'))) (unat (se_end e))
             \<lparr>rec_kind = MasterIndexKind, payload = p\<rparr> \<and>
           unat (log_end (se_header e')) = unat (se_end e) + 9 + length p)
     else e' = e) \<and>
    bslice (content (se_file e')) 128 (unat (se_end e)) = bslice (content (se_file e)) 128 (unat (se_end e)) \<and>
    unat (se_end e) \<le> length (content (se_file e')) \<and>
    slot_bytes (content (se_file e')) (se_live_slot e) = slot_bytes (content (se_file e)) (se_live_slot e)"
proof (cases "se_dirty e")
  case False
  then have "e' = e" using c by (simp add: commit_split)
  then show ?thesis using False inv core_inv_bounds(2) [of D e] by (simp add: engine_inv_def)
next
  case True
  have core: "core_inv D e" using inv by (simp add: engine_inv_def)
  obtain q e1 where pre: "commit_prefix D os e = (q, e1)" by fastforce
  note eff = commit_prefix_effect [OF inv bin pre]
  obtain ptr p where q: "q = Inr (ptr, p)" using c True pre by (cases q) (auto simp: commit_split)
  then have ptr: "ptr = se_end e" and fl: "index_flushed D e p e1" and lo: "log_only e e1" using eff by auto
  have suf: "commit_suffix D os (se_end e) p e1 = (Inr u, e')" using c True pre q ptr by (simp add: commit_split)
  obtain f where f: "header_in_flight D e1 (next_header e p) f" "versions f = [content f]"
      "slot_bytes (content f) (victim_slot (se_slots e)) = Header_encode (crc32 D) (next_header e p)"
      "e' = e1\<lparr>se_file := f, se_header := next_header e p,
                 se_slots := (se_slots e)[victim_slot (se_slots e) := Some (next_header e p)],
                 se_live_slot := victim_slot (se_slots e), se_dirty := False\<rparr>"
    using commit_suffix_effect [OF core fl _ suf] by auto
  have "bslice (content f) 128 (unat (se_end e)) = bslice (content (se_file e1)) 128 (unat (se_end e))"
    "length (content f) = length (content (se_file e1))"
    using header_in_flightD [OF f(1)] by simp_all
  moreover have "bslice (content (se_file e1)) 128 (unat (se_end e)) = bslice (content (se_file e)) 128 (unat (se_end e))"
    "unat (se_end e) \<le> length (content (se_file e1))"
    using lo core_inv_bounds(2) [OF core] bslice_take [OF order_refl]
    by (auto simp: log_only_def tail_write_def)
  moreover have "rec_in D (content f) (unat (se_end e1)) (unat (se_end e)) \<lparr>rec_kind = MasterIndexKind, payload = p\<rparr>"
  proof (rule rec_in_stable)
    show "rec_in D (content (se_file e1)) (unat (se_end e1)) (unat (se_end e)) \<lparr>rec_kind = MasterIndexKind, payload = p\<rparr>"
      using fl unfolding index_flushed_def by blast
    show "bslice (content f) 128 (unat (se_end e1)) = bslice (content (se_file e1)) 128 (unat (se_end e1))"
      by (rule header_in_flightD(5) [OF f(1)])
    show "unat (se_end e1) \<le> length (content f)"
      using calculation(2) core_inv_bounds(2) [of D e1] fl unfolding index_flushed_def by simp
  qed
  moreover have "slot_bytes (content f) (se_live_slot e) = slot_bytes (content (se_file e)) (se_live_slot e)"
    using header_in_flightD(6) [OF f(1)] index_flushed_header(4) [OF core fl core_inv_live [OF core]] fl
    unfolding index_flushed_def by simp
  moreover have "log_end (next_header e p) = se_end e1" "unat (se_end e1) = unat (se_end e) + 9 + length p"
    "idx_encode D (se_index e) = Inr p" "se_index e1 = se_index e" "se_header e1 = se_header e"
    using fl unfolding index_flushed_def by auto
  ultimately show ?thesis
    using commit_done_inv [OF core fl f] f(4) True index_flushed_header(2) [OF core fl] by simp
qed

text \<open>A commit adds the index it writes to the records of the log.\<close>

lemma commit_log:
  assumes inv: "engine_inv D e" and bin: "bincode_ok D" and c: "commit D os e = (Inr u, e')" and "se_dirty e"
    and log: "log_is D (content (se_file e)) (unat (se_end e)) rs"
  shows "\<exists>r. log_is D (content (se_file e')) (unat (log_end (se_header e'))) (rs @ [r])"
proof -
  note c = commit_Inr_cases [OF inv bin c]
  obtain p where "rec_in D (content (se_file e')) (unat (log_end (se_header e'))) (unat (se_end e))
      \<lparr>rec_kind = MasterIndexKind, payload = p\<rparr> \<and> unat (log_end (se_header e')) = unat (se_end e) + 9 + length p"
    using c assms(4) by auto
  moreover have "log_is D (content (se_file e')) (unat (se_end e)) rs" using log c by (blast intro: log_is_stable)
  ultimately show ?thesis using log_is_snoc [of D "content (se_file e')"] by (metis Record.select_convs(2))
qed

text \<open>A commit that failed leaves the index and the live header of the engine alone.\<close>

lemma commit_InlD:
  assumes inv: "engine_inv D e" and bin: "bincode_ok D" and tear: "commit_tear_safe D e"
    and c: "commit D os e = (Inl err, e')"
  shows "se_index e' = se_index e \<and> se_header e' = se_header e \<and> se_dirty e'"
proof -
  have core: "core_inv D e" and dirty: "se_dirty e"
    using inv c by (auto simp: engine_inv_def commit_split split: if_splits)
  obtain q e1 where pre: "commit_prefix D os e = (q, e1)" by fastforce
  note eff = commit_prefix_effect [OF inv bin pre]
  have lo: "se_index e1 = se_index e" "se_header e1 = se_header e" "se_dirty e1"
    using eff dirty unfolding log_only_def by blast+
  show ?thesis
  proof (cases q)
    case (Inl x)
    then show ?thesis using c dirty pre lo by (simp add: commit_split)
  next
    case (Inr pp)
    then obtain ptr p where q: "q = Inr (ptr, p)" by (cases pp) auto
    then have ptr: "ptr = se_end e" and fl: "index_flushed D e p e1" using eff by auto
    have suf: "commit_suffix D os (se_end e) p e1 = (Inl err, e')" using c dirty pre q ptr by (simp add: commit_split)
    have torn: "torn_ok D (slot_bytes (content (se_file e)) (victim_slot (se_slots e)))
       (Header_encode (crc32 D) (next_header e p))"
      using tear fl by (simp add: commit_tear_safe_def index_flushed_def)
    obtain f where "e' = e1\<lparr>se_file := f\<rparr>" using commit_suffix_effect [OF core fl disjI2 [OF torn] suf] by auto
    then show ?thesis using lo by simp
  qed
qed

section \<open>A new database\<close>

definition header_region :: "deps \<Rightarrow> bytes" where
  "header_region D = put_at (replicate (HEADER_SIZE * HEADER_SLOTS) 0) 0 (Header_encode (crc32 D) Header_initial)"

definition fresh :: "deps \<Rightarrow> string \<Rightarrow> StorageEngine" where
  "fresh D path =
     \<lparr>se_file = \<lparr>content = header_region D, older = [], ops = 2\<rparr>, se_path = path,
      se_header = Header_initial, se_slots = [Some Header_initial, None], se_live_slot = 0,
      se_index = MasterIndex_default, se_end = LOG_START, se_dirty = False\<rparr>"

lemma header_region_eq: "header_region D = Header_encode (crc32 D) Header_initial @ replicate 64 0"
  by (simp add: header_region_def put_at_def flip: replicate_add)

lemma length_header_region [simp]: "length (header_region D) = 128"
  by (simp add: header_region_eq)

lemma header_region_slots:
  "slot_bytes (header_region D) 0 = Header_encode (crc32 D) Header_initial"
  "slot_bytes (header_region D) 1 = replicate 64 0"
  "slot_bytes (header_region D) (Suc 0) = replicate 64 0"
  by (simp_all add: slot_bytes_def bslice_def header_region_eq)

lemma zero_slot [simp]: "slot_header D (replicate 64 0) = None"
proof -
  have "hd (bslice (replicate 64 (0 :: u8)) 0 4) \<noteq> hd MAGIC" by (simp add: bslice_def MAGIC_def)
  then have "bslice (replicate 64 0) 0 4 \<noteq> MAGIC" by metis
  then show ?thesis by (simp add: slot_header_def Header_decode_BadMagic)
qed

lemma pwrite_empty: "pwrite [] 0 data = data"
  by (cases "data = []") (simp_all add: pwrite_def)

lemma open_fresh_eq:
  assumes "all_ok os"
  shows "engine_open D os path None = (Inr (fresh D path), se_file (fresh D path))"
proof -
  let ?r = "header_region D"
  have os: "wr_fault os k = None" "sync_fault os k = None" "open_fault os = None" for k
    using assms by (simp_all add: all_ok_def reads_ok_def)
  have "write_all_at os empty_file ?r 0 = (Inr (), \<lparr>content = ?r, older = [[]], ops = 1\<rparr>)"
    using os length_header_region [of D]
    by (auto simp: write_all_at_def empty_file_def Let_def pwrite_empty max_off_def
        simp del: length_header_region)
  moreover have "sync_file os \<lparr>content = ?r, older = [[]], ops = 1\<rparr> =
      (Inr (), \<lparr>content = ?r, older = [], ops = 2\<rparr>)"
    using os by (simp add: sync_file_def)
  moreover have "put_at (replicate 128 0) 0 (Header_encode (crc32 D) Header_initial) = ?r"
    by (simp add: header_region_def)
  ultimately show ?thesis
    using os by (simp add: engine_open_def empty_file_def initialize_def
        engine_write_def engine_sync_def on_file_def fresh_def)
qed

lemma fresh_snap: "snap D (header_region D) Header_initial MasterIndex_default"
  using log_is_empty [of "header_region D" D] index_ok_default [of 128 D "header_region D"]
  by (auto simp: snap_def Header_initial_def)

lemma fresh_disk_ok:
  fixes D :: deps
  defines "f \<equiv> \<lparr>content = header_region D, older = [], ops = 2\<rparr>"
  shows "disk_ok D f 128"
proof -
  have vs: "versions f = [header_region D]" "content f = header_region D"
    by (simp_all add: f_def versions_def)
  have sz: "sized f" by (simp add: sized_def vs max_off_def)
  have st: "stable f i" for i using vs by (intro stable_synced) simp
  have c: "i = 0 \<and> h = Header_initial" if "cand D f i h" "i < 2" for i h
    using that by (auto simp: cand_def vs header_region_slots less_2_cases_iff)
  have "header_ok D f 128 Header_initial"
    using fresh_snap by (auto simp: header_ok_def vs Header_initial_def)
  then have "header_ok D f 128 h" if "cand D f i h" "i < 2" for i h using c [OF that] by simp
  moreover have "slot_header D (slot_bytes (content f) 0) \<noteq> None" by (simp add: vs header_region_slots)
  moreover have "\<not> cand D f 1 h" for h using c [of 1 h] by auto
  ultimately show ?thesis using sz st stable_in_flight [OF st sz] unfolding disk_ok_def heads_ok_def by (metis zero_less_numeral)
qed

lemma fresh_inv: "engine_inv D (fresh D path)"
proof -
  have live: "slot_header D (slot_bytes (header_region D) 0) = Some Header_initial"
    by (simp add: header_region_slots)
  have gens: "slot_header D (slot_bytes (header_region D) i) = Some h \<Longrightarrow> i < 2 \<Longrightarrow> h = Header_initial" for i h
    by (auto simp: header_region_slots less_2_cases_iff)
  have "disk_ok D (se_file (fresh D path)) 128"
    using fresh_disk_ok [of D] by (simp add: fresh_def)
  then have "core_inv D (fresh D path)"
    using log_is_empty [of "header_region D" D] index_ok_default [of 128 D "header_region D"] live
    by (auto simp: core_inv_def fresh_def)
  then show ?thesis
    using fresh_snap by (simp add: engine_inv_def clean_ok_def fresh_def Header_initial_def)
qed

lemma fresh_settled: "settled D (fresh D path)"
proof -
  have "slot_header D (slot_bytes (header_region D) i) = Some h \<Longrightarrow> i < 2 \<Longrightarrow> h = Header_initial" for i h
    by (auto simp: header_region_slots less_2_cases_iff)
  then show ?thesis by (auto simp: settled_def fresh_def versions_def intro: stable_synced)
qed

end
