(* ===== verification/Samples.thy ===== *)
theory Samples
  imports Log_Store
begin

text \<open>
  Concrete third-party functions, to show that the assumptions the properties make about them
  can hold together: two checksum functions and a serializer with bincode's layout (64-bit
  little-endian lengths and integers, map entries as pairs).
\<close>

section \<open>Checksums\<close>

text \<open>The sum of all bytes: it detects every change of a single byte.\<close>

fun sum_crc :: "bytes \<Rightarrow> u32" where
  "sum_crc [] = 0"
| "sum_crc (b # bs) = ucast b + sum_crc bs"

lemma ucast_u8_u32_inj: "ucast (a :: u8) = (ucast b :: u32) \<Longrightarrow> a = b"
proof -
  assume h: "ucast a = (ucast b :: u32)"
  have "ucast (ucast a :: u32) = a" "ucast (ucast b :: u32) = b"
    by (simp_all add: bit_eq_iff bit_ucast_iff)
  then show "a = b" using h by metis
qed

lemma sum_crc_update: "i < length bs \<Longrightarrow> sum_crc (bs[i := b]) + ucast (bs ! i) = sum_crc bs + ucast b"
  by (induction bs arbitrary: i) (auto simp: nth_Cons' algebra_simps split: nat.split)

lemma sum_crc_detects: "detects_one_byte sum_crc"
  unfolding detects_one_byte_def
proof (intro allI impI)
  fix bs :: bytes and i and b :: u8
  assume h: "i < length bs \<and> bs ! i \<noteq> b"
  show "sum_crc (bs[i := b]) \<noteq> sum_crc bs"
  proof
    assume "sum_crc (bs[i := b]) = sum_crc bs"
    then have "ucast (bs ! i) = (ucast b :: u32)" using sum_crc_update [of i bs b] h by simp
    then show False using h ucast_u8_u32_inj by blast
  qed
qed

theorem Header_detects_corruption_witness:
  "\<exists>e. Header_decode sum_crc ((Header_encode sum_crc Header_initial)[3 := 0]) 1 = Inl e"
proof (rule Header_detects_corruption [OF sum_crc_detects])
  have "Header_encode sum_crc Header_initial ! 3 = bslice (Header_encode sum_crc Header_initial) 0 4 ! 3"
    using nth_bslice [of 3 4 0 "Header_encode sum_crc Header_initial"] by simp
  then show "0 \<noteq> Header_encode sum_crc Header_initial ! 3"
    by (simp add: Header_encode_image slot_image_fields) (simp add: MAGIC_def)
qed simp

lemma payload_corruption_detected_witness:
  "verify_payload sum_crc \<lparr>frame_len = 2, frame_kind = Blob, frame_crc = sum_crc [4, 5]\<rparr> ([4, 5][1 := 6]) 128 =
     Inl (RecordChecksum 128)"
  by (rule payload_corruption_detected [OF sum_crc_detects, where k = Blob])
    (simp_all add: decode_encode_frame)

text \<open>The number of nonzero bytes: it detects every torn write over a zeroed slot.\<close>

definition count_crc :: "bytes \<Rightarrow> u32" where
  "count_crc bs = of_nat (length (filter (\<lambda>b. b \<noteq> 0) bs))"

section \<open>A serializer of the master index\<close>

definition index_words :: "MasterIndex \<Rightarrow> u64 list" where
  "index_words idx =
     (let keys = sorted_list_of_fset (fmdom (offsets idx)); gone = sorted_list_of_fset (dead idx) in
      of_nat (length keys) # concat (map (\<lambda>i. [raw_id i, the (fmlookup (offsets idx) i)]) keys) @
      of_nat (length gone) # map raw_id gone @ [next_doc_id idx])"

definition sample_ser :: "MasterIndex \<Rightarrow> string + bytes" where
  "sample_ser idx =
     (if fcard (fmdom (offsets idx)) < 2 ^ 64 \<and> fcard (dead idx) < 2 ^ 64
      then Inr (concat (map (le_bytes 8) (index_words idx))) else Inl ''size limit'')"

fun to_words :: "bytes \<Rightarrow> u64 list" where
  "to_words bs = (if length bs < 8 then [] else le_word (take 8 bs) # to_words (drop 8 bs))"

declare to_words.simps [simp del]

fun pairs :: "nat \<Rightarrow> u64 list \<Rightarrow> (DocId \<times> u64) list \<times> u64 list" where
  "pairs (Suc n) (k # v # ws) = (let (ps, rest) = pairs n ws in ((DocId k, v) # ps, rest))"
| "pairs n ws = ([], ws)"

definition sample_de :: "bytes \<Rightarrow> string + MasterIndex" where
  "sample_de bs =
     (case to_words bs of
        [] \<Rightarrow> Inl ''unexpected end of file''
      | n # ws \<Rightarrow>
          (case pairs (unat n) ws of
             (ps, m # rest) \<Rightarrow>
               (case drop (unat m) rest of
                  [next] \<Rightarrow> Inr \<lparr>offsets = fmap_of_list ps,
                       dead = fset_of_list (map DocId (take (unat m) rest)), next_doc_id = next\<rparr>
                | _ \<Rightarrow> Inl ''unexpected end of file'')
           | _ \<Rightarrow> Inl ''unexpected end of file''))"

lemma to_words_concat: "to_words (concat (map (le_bytes 8) ws)) = ws"
  by (induction ws) (simp_all add: to_words.simps)

lemma pairs_concat:
  "pairs (length ks) (concat (map (\<lambda>i. [raw_id i, f i]) ks) @ ws) = (map (\<lambda>i. (i, f i)) ks, ws)"
  by (induction ks) simp_all

lemma fmap_of_keys: "fmap_of_list (map (\<lambda>i. (i, the (fmlookup m i))) (sorted_list_of_fset (fmdom m))) = m"
proof (rule fmap_ext)
  fix x
  have "map_of (map (\<lambda>i. (i, the (fmlookup m i))) ks) x = (if x \<in> set ks then Some (the (fmlookup m x)) else None)"
    for ks by (induction ks) auto
  then show "fmlookup (fmap_of_list (map (\<lambda>i. (i, the (fmlookup m i))) (sorted_list_of_fset (fmdom m)))) x =
      fmlookup m x"
    by (auto simp: fmlookup_of_list fmlookup_dom_iff)
qed

lemma length_sorted_list_of_fset: "length (sorted_list_of_fset A) = fcard A"
  by (simp add: sorted_list_of_fset.rep_eq fcard.rep_eq)

lemma sample_roundtrip:
  assumes "sample_ser idx = Inr bs"
  shows "bs \<noteq> [] \<and> sample_de bs = Inr idx"
proof -
  have lt: "fcard (fmdom (offsets idx)) < 2 ^ 64" "fcard (dead idx) < 2 ^ 64"
    and bs: "bs = concat (map (le_bytes 8) (index_words idx))"
    using assms by (auto simp: sample_ser_def split: if_splits)
  have "fset_of_list (sorted_list_of_fset (dead idx)) = dead idx"
    by (simp add: fset_of_list.abs_eq sorted_list_of_fset.rep_eq fset_inverse)
  moreover have "map (DocId \<circ> raw_id) xs = xs" for xs by (simp add: comp_def)
  ultimately have "sample_de bs = Inr idx"
    using lt unfolding bs sample_de_def to_words_concat
    using pairs_concat [of "sorted_list_of_fset (fmdom (offsets idx))" "\<lambda>i. the (fmlookup (offsets idx) i)",
        unfolded length_sorted_list_of_fset]
    by (simp add: index_words_def Let_def length_sorted_list_of_fset word_nat fmap_of_keys)
  moreover have "bs \<noteq> []" by (simp add: bs index_words_def Let_def) (metis length_le_bytes list.size(3) zero_neq_numeral)
  ultimately show ?thesis by simp
qed

definition sample_deps :: "(bytes \<Rightarrow> u32) \<Rightarrow> deps" where
  "sample_deps c = \<lparr>crc32 = c, bin_ser = sample_ser, bin_de = sample_de\<rparr>"

lemma sample_deps_crc [simp]: "crc32 (sample_deps c) = c"
  by (simp add: sample_deps_def)

lemma sample_bincode_ok [simp]: "bincode_ok (sample_deps c)"
  using sample_roundtrip by (simp add: bincode_ok_def sample_deps_def)

text \<open>What the sample serializer produces on the indexes of small databases.\<close>

lemma length_concat_words: "length (concat (map (le_bytes 8) ws)) = 8 * length ws"
  by (induction ws) simp_all

lemma sample_encode:
  assumes "idx_wf idx"
  shows "\<exists>p. idx_encode (sample_deps c) idx = Inr p \<and>
    length p = 8 * (2 * fcard (fmdom (offsets idx)) + fcard (dead idx) + 3)"
proof -
  have lt: "fcard (fmdom (offsets idx)) < 2 ^ 64"
    using stored_count_less [OF assms] unat_u64_less [of "next_doc_id idx"] by linarith
  moreover have "fcard (dead idx) \<le> fcard (fmdom (offsets idx))"
    using assms by (simp add: idx_wf_def fcard_mono)
  moreover have "length (concat (map (\<lambda>i. [f i, g i]) xs)) = 2 * length xs" for f g :: "DocId \<Rightarrow> u64" and xs
    by (induction xs) simp_all
  then have "length (index_words idx) = 2 * fcard (fmdom (offsets idx)) + fcard (dead idx) + 3"
    by (simp add: index_words_def Let_def length_sorted_list_of_fset)
  ultimately show ?thesis
    by (simp add: idx_encode_def sample_deps_def sample_ser_def length_concat_words)
qed

lemma sample_bincode_total [simp]: "bincode_total (sample_deps c)"
  unfolding bincode_total_def using sample_encode by blast

text \<open>A blob cut short does not decode.\<close>

lemma to_words_take: "to_words (take n (concat (map (le_bytes 8) ws))) = take (n div 8) ws"
proof (induction ws arbitrary: n)
  case (Cons w ws)
  show ?case
  proof (cases "n < 8")
    case False
    then have "n div 8 = Suc ((n - 8) div 8)" by (simp add: le_div_geq)
    then show ?thesis using False Cons.IH [of "n - 8"] by (subst to_words.simps) simp
  qed (simp add: to_words.simps)
qed (simp add: to_words.simps)

lemma pairs_rest: "if 2 * n \<le> length ws then snd (pairs n ws) = drop (2 * n) ws else length (snd (pairs n ws)) \<le> 1"
  by (induction n ws rule: pairs.induct)
    (auto simp: Let_def drop_Cons' split: prod.splits)

lemma sample_bincode_prefix [simp]: "bincode_prefix (sample_deps c)"
  unfolding bincode_prefix_def
proof (intro allI impI)
  fix idx p n assume h: "bin_ser (sample_deps c) idx = Inr p \<and> n < length p"
  let ?a = "fcard (fmdom (offsets idx))" and ?b = "fcard (dead idx)"
  have lt: "?a < 2 ^ 64" "?b < 2 ^ 64" and p: "p = concat (map (le_bytes 8) (index_words idx))"
    using h by (auto simp: sample_deps_def sample_ser_def split: if_splits)
  obtain body gone where ws: "index_words idx = of_nat ?a # body @ of_nat ?b # gone"
    and len: "length body = 2 * ?a" "length gone = ?b + 1"
  proof (rule that)
    have "length (concat (map (\<lambda>i. [f i, g i]) xs)) = 2 * length xs" for f g :: "DocId \<Rightarrow> u64" and xs
      by (induction xs) simp_all
    then show "length (concat (map (\<lambda>i. [raw_id i, the (fmlookup (offsets idx) i)]) (sorted_list_of_fset (fmdom (offsets idx))))) = 2 * ?a"
      by (simp add: length_sorted_list_of_fset)
    show "length (map raw_id (sorted_list_of_fset (dead idx)) @ [next_doc_id idx]) = ?b + 1"
      by (simp add: length_sorted_list_of_fset)
  qed (simp add: index_words_def Let_def length_sorted_list_of_fset)
  have "n < 8 * (2 * ?a + ?b + 3)" using h len unfolding p length_concat_words ws by simp
  then have k: "n div 8 < 2 * ?a + ?b + 3" by (simp add: less_mult_imp_div_less mult.commute)
  have tw: "to_words (take n p) = take (n div 8) (index_words idx)" unfolding p by (rule to_words_take)
  show "\<exists>m. bin_de (sample_deps c) (take n p) = Inl m"
  proof (rule ccontr)
    assume "\<not> ?thesis"
    then obtain x where "sample_de (take n p) = Inr x" by (cases "sample_de (take n p)") (auto simp: sample_deps_def)
    then obtain w us ps m rest y where us: "take (n div 8) (index_words idx) = w # us"
      "pairs (unat w) us = (ps, m # rest)" "drop (unat m) rest = [y]"
      by (auto simp: sample_de_def tw split: list.splits prod.splits)
    obtain q where q: "n div 8 = Suc q" using us(1) by (cases "n div 8") simp_all
    have "w = of_nat ?a" and us': "us = take q (body @ of_nat ?b # gone)" using us(1) by (simp_all add: q ws)
    then have w: "unat w = ?a" using lt by (simp add: word_nat)
    have *: "if 2 * ?a \<le> length us then m # rest = drop (2 * ?a) us else length (m # rest) \<le> 1"
      using pairs_rest [of ?a us] us(2) w by (simp split: if_splits)
    have le: "2 * ?a \<le> length us" using * us(3) by (cases "2 * ?a \<le> length us") auto
    define j where "j = q - 2 * ?a"
    have mr: "m # rest = take j (of_nat ?b # gone)" using * le len by (simp add: us' j_def)
    then have "m = of_nat ?b" by (cases j) simp_all
    then have "unat m = ?b" using lt by (simp add: word_nat)
    moreover have "length (m # rest) \<le> j" unfolding mr by simp
    moreover have "length (drop (unat m) rest) = 1" using us(3) by simp
    ultimately show False using k by (simp add: j_def q)
  qed
qed

end
