(* ===== verification/Engine_Run.thy ===== *)
theory Engine_Run
  imports Recovery Samples
begin

text \<open>
  Runs of the engine: any sequence of appends, deletions, commits, reopenings and power
  losses, with any system call failing at any point. Every state that a safe run reaches
  satisfies the invariant, so the database is consistent in all of them.
\<close>

section \<open>Labelled runs, and the interface of a system with an invariant\<close>

inductive trace :: "('s \<Rightarrow> 'e \<Rightarrow> 's \<Rightarrow> bool) \<Rightarrow> 's \<Rightarrow> 'e list \<Rightarrow> 's \<Rightarrow> bool"
  for step :: "'s \<Rightarrow> 'e \<Rightarrow> 's \<Rightarrow> bool" where
  trace_nil: "trace step s [] s"
| trace_cons: "step s ev t \<Longrightarrow> trace step t evs u \<Longrightarrow> trace step s (ev # evs) u"

inductive_simps trace_simps: "trace step s [] u" "trace step s (ev # evs) u"

lemma trace_append:
  "trace step s evs t \<Longrightarrow> trace step t evs' u \<Longrightarrow> trace step s (evs @ evs') u"
  by (induction rule: trace.induct) (auto intro: trace_cons)

locale invariant_system =
  fixes init :: "'s \<Rightarrow> bool" and step :: "'s \<Rightarrow> 'e \<Rightarrow> 's \<Rightarrow> bool" and inv :: "'s \<Rightarrow> bool"
  assumes init_inv: "init s \<Longrightarrow> inv s"
    and step_inv: "inv s \<Longrightarrow> step s ev t \<Longrightarrow> inv t"
begin

lemma run_inv: "trace step s evs t \<Longrightarrow> inv s \<Longrightarrow> inv t"
  by (induction rule: trace.induct) (auto intro: step_inv)

lemma reachable_inv: "init s \<Longrightarrow> trace step s evs t \<Longrightarrow> inv t"
  by (blast intro: run_inv init_inv)

text \<open>What every step leaves alone, a run leaves alone.\<close>

lemma run_relates:
  assumes "trace step s evs t" and "inv s" and "\<And>a. R a a" and "\<And>a b c. R a b \<Longrightarrow> R b c \<Longrightarrow> R a c"
    and "\<And>a ev b. ev \<in> set evs \<Longrightarrow> inv a \<Longrightarrow> step a ev b \<Longrightarrow> R a b"
  shows "R s t"
  using assms(1,2,5)
proof (induction rule: trace.induct)
  case (trace_cons s ev t evs u)
  then have "R s t" "R t u" using step_inv by auto
  then show ?case by (rule assms(4))
qed (rule assms(3))

end

section \<open>Steps of the engine\<close>

text \<open>
  What a client observes of a step: the operation with its arguments and its result, a
  reopening, or a power loss followed by a reopening.
\<close>

datatype event =
    EPut RecordKind bytes "CndbError + DocId"
  | EDel DocId "CndbError + unit"
  | EGet DocId "CndbError + Record"
  | ECommit "CndbError + unit"
  | EReopen
  | ECrash

text \<open>
  The serializer may order the entries of a map differently each time: a commit uses any
  serializer that the fixed deserializer inverts. A power loss is a crash image of the file
  found by a new process; a reopening without one finds the file as written, headers of failed
  commits included. Any system call may fail in any step; an attempt to open that fails leaves
  everything as it is. The guard \<open>G\<close> says which commits and reopenings a kind of run admits:
  \<open>any_step\<close> is the code, where nothing is excluded.
\<close>

inductive engine_event :: "(deps \<Rightarrow> StorageEngine \<Rightarrow> event \<Rightarrow> bool) \<Rightarrow> deps \<Rightarrow>
    StorageEngine \<Rightarrow> event \<Rightarrow> StorageEngine \<Rightarrow> bool" for G D where
  ev_put: "append D os e k p = (r, e') \<Longrightarrow> engine_event G D e (EPut k p r) e'"
| ev_del: "tombstone D os e i = (r, e') \<Longrightarrow> engine_event G D e (EDel i r) e'"
| ev_get: "engine_event G D e (EGet i (read_record D os e i)) e"
| ev_commit: "bincode_ok (D\<lparr>bin_ser := s\<rparr>) \<Longrightarrow> G (D\<lparr>bin_ser := s\<rparr>) e (ECommit r) \<Longrightarrow>
    commit (D\<lparr>bin_ser := s\<rparr>) os e = (r, e') \<Longrightarrow> engine_event G D e (ECommit r) e'"
| ev_reopen: "G D e EReopen \<Longrightarrow>
    engine_open D os path (Some (se_file e)) = (Inr e', f) \<Longrightarrow> engine_event G D e EReopen e'"
| ev_crash: "crash_image (se_file e) img \<Longrightarrow>
    engine_open D os path (Some (disk_file img)) = (Inr e', f) \<Longrightarrow> engine_event G D e ECrash e'"

definition any_step :: "deps \<Rightarrow> StorageEngine \<Rightarrow> event \<Rightarrow> bool" where
  "any_step D e ev \<longleftrightarrow> True"

text \<open>
  The checksum does its work: a header torn by a commit that fails does not pass it
  (\<open>commit_tear_safe\<close>). A commit that returns \<open>Ok\<close> needs nothing of the kind.
\<close>

definition tears_detected :: "deps \<Rightarrow> StorageEngine \<Rightarrow> event \<Rightarrow> bool" where
  "tears_detected D e ev \<longleftrightarrow> (\<forall>err. ev = ECommit (Inl err) \<longrightarrow> commit_tear_safe D e)"

text \<open>
  A safe step is, in addition, no reopening without a power loss of a file on which a header
  write was torn over the header of an earlier commit that failed (\<open>reopen_safe\<close>). The code
  does not refuse such a file; what then happens is shown in \<open>Unsafe_Restart\<close>, and a rule a
  client can follow to stay clear of it in \<open>Safe_Restarts\<close>.
\<close>

definition safe_step :: "deps \<Rightarrow> StorageEngine \<Rightarrow> event \<Rightarrow> bool" where
  "safe_step D e ev \<longleftrightarrow> tears_detected D e ev \<and> (ev = EReopen \<longrightarrow> reopen_safe D (se_file e))"

abbreviation safe_event :: "deps \<Rightarrow> StorageEngine \<Rightarrow> event \<Rightarrow> StorageEngine \<Rightarrow> bool" where
  "safe_event \<equiv> engine_event safe_step"

inductive_cases engine_putE: "engine_event G D e (EPut k p r) e'"
inductive_cases engine_delE: "engine_event G D e (EDel i r) e'"
inductive_cases engine_commitE: "engine_event G D e (ECommit r) e'"
inductive_cases engine_reopenE: "engine_event G D e EReopen e'"

lemma commit_guard: "tears_detected D e (ECommit r) \<longleftrightarrow> (r = Inr () \<or> commit_tear_safe D e)"
  by (cases r) (auto simp: tears_detected_def)

lemma safe_commit_guard: "safe_step D e (ECommit r) \<longleftrightarrow> (r = Inr () \<or> commit_tear_safe D e)"
  by (simp add: safe_step_def commit_guard)

lemma safe_reopen_guard: "safe_step D e EReopen \<longleftrightarrow> reopen_safe D (se_file e)"
  by (simp add: safe_step_def tears_detected_def)

lemma event_mono:
  assumes "engine_event G D e ev e'" and "\<And>D e ev. G D e ev \<Longrightarrow> H D e ev"
  shows "engine_event H D e ev e'"
  using assms(1)
proof (cases rule: engine_event.cases)
  case (ev_get os i)
  then show ?thesis using engine_event.ev_get by metis
qed (auto intro: engine_event.intros assms(2))

section \<open>Reading under failures\<close>

text \<open>A read that succeeds is one that no failure disturbed; one that fails changes nothing.\<close>

lemma read_frame_reads: "read_frame_at os f off = Inr x \<Longrightarrow> read_frame_at os_ok f off = Inr x"
  unfolding read_frame_at_def res_bind_Inr_iff map_err_Inr_iff by (blast intro: read_exact_at_reads)

lemma read_record_reads: "read_record_at D os f off = Inr r \<Longrightarrow> read_record_at D os_ok f off = Inr r"
  unfolding read_record_at_def res_bind_Inr_iff map_err_Inr_iff
  by (blast intro: read_exact_at_reads read_frame_reads)

lemma load_index_reads: "load_index D os f h = Inr idx \<Longrightarrow> load_index D os_ok f h = Inr idx"
  using read_record_reads [of D os f "master_ptr h"]
  by (cases "read_record_at D os f (master_ptr h)") (simp_all add: load_index_def split: if_splits)

lemma load_reads:
  assumes "load D os path f n = Inr e"
  shows "load D os_ok path f n = Inr e"
proof -
  have n: "\<not> n < LOG_START" using assms by (auto simp: load_def)
  then obtain region where region: "read_exact_at os f (HEADER_SIZE * HEADER_SLOTS) 0 = Inr region"
    using assms by (cases "read_exact_at os f (HEADER_SIZE * HEADER_SLOTS) 0") (simp_all add: load_def)
  obtain slots err where sl: "decode_slots (crc32 D) region [0..<HEADER_SLOTS] None = (slots, err)" by fastforce
  obtain h live where hl: "select_live slots = Inr (h, live)"
    using assms n region sl by (cases "select_live slots") (auto simp: load_def)
  have "\<not> n < log_end h" using assms n region sl hl by (auto simp: load_def)
  moreover from this obtain idx where "load_index D os f h = Inr idx"
    using assms n region sl hl by (cases "load_index D os f h") (simp_all add: load_def)
  ultimately show ?thesis
    using assms n region sl hl read_exact_at_reads [OF region] load_index_reads [of D os f h idx] by (simp add: load_def)
qed

lemma open_reads:
  assumes "engine_open D os path (Some f) = (Inr e, g)" and "0 < length (content f)" and "length (content f) \<le> max_off"
  shows "engine_open D os_ok path (Some f) = (Inr e, f)"
proof -
  have "unat (of_nat (length (content f)) :: u64) = length (content f)"
    using assms(3) by (simp add: word_nat max_off_def)
  then have "(0 :: u64) < of_nat (length (content f))" using assms(2) by (simp add: word_less_nat_alt)
  then have "load D os path f (of_nat (length (content f))) = Inr e"
    using assms(1) by (auto simp: engine_open_def split: option.splits)
  then show ?thesis using engine_open_existing [OF assms(2,3) os_ok_reads_ok] load_reads by simp
qed

lemma read_exact_at_faulty: "read_exact_at os f n off = read_exact_at os_ok f n off \<or> (\<exists>x. read_exact_at os f n off = Inl x)"
  by (cases "read_exact_at os f n off") (auto dest: read_exact_at_reads)

lemma read_record_at_faulty:
  "read_record_at D os f off = read_record_at D os_ok f off \<or> (\<exists>x. read_record_at D os f off = Inl (Io x))"
proof -
  consider x where "read_exact_at os f (unat RECORD_HEADER_SIZE) off = Inl x"
    | "read_exact_at os f (unat RECORD_HEADER_SIZE) off = read_exact_at os_ok f (unat RECORD_HEADER_SIZE) off"
    using read_exact_at_faulty by blast
  then show ?thesis
  proof cases
    case 2
    then have fr: "read_frame_at os f off = read_frame_at os_ok f off" by (simp add: read_frame_at_def)
    show ?thesis
    proof (cases "read_frame_at os_ok f off")
      case (Inr frame)
      then show ?thesis
        using fr read_exact_at_faulty [of os f "unat (frame_len frame)" "off + RECORD_HEADER_SIZE"]
        by (auto simp: read_record_at_def)
    qed (simp add: fr read_record_at_def)
  qed (simp add: read_record_at_def read_frame_at_def)
qed

lemma read_record_faulty:
  "read_record D os e i = read_record D os_ok e i \<or>
   (is_live (se_index e) i \<and> (\<exists>x. read_record D os e i = Inl (Io x)))"
  using read_record_at_faulty [of D os "se_file e"]
  by (cases "fmlookup (offsets (se_index e)) i") (auto simp: read_record_def is_live_def intro: fmdomI)

definition engine_init :: "deps \<Rightarrow> StorageEngine \<Rightarrow> bool" where
  "engine_init D e \<longleftrightarrow> (\<exists>os path f. engine_open D os path None = (Inr e, f))"

text \<open>The invariant depends on the checksum and the deserializer only.\<close>

lemma format_simps [simp]:
  "idx_decode (D\<lparr>bin_ser := s\<rparr>) = idx_decode D"
  "slot_header (D\<lparr>bin_ser := s\<rparr>) = slot_header D"
  "rec_in (D\<lparr>bin_ser := s\<rparr>) = rec_in D"
  "log_is (D\<lparr>bin_ser := s\<rparr>) = log_is D"
  by (simp_all add: fun_eq_iff idx_decode_def slot_header_def rec_in_def log_is_def)

lemma format_snap [simp]:
  "index_ok (D\<lparr>bin_ser := s\<rparr>) = index_ok D" "snap (D\<lparr>bin_ser := s\<rparr>) = snap D"
  by (simp_all add: fun_eq_iff index_ok_def snap_def)

lemma format_disk [simp]:
  "torn_ok (D\<lparr>bin_ser := s\<rparr>) = torn_ok D" "cand (D\<lparr>bin_ser := s\<rparr>) = cand D"
  "header_ok (D\<lparr>bin_ser := s\<rparr>) = header_ok D"
  by (simp_all add: fun_eq_iff torn_ok_def cand_def header_ok_def)

lemma format_disk_ok [simp]: "slot_in_flight (D\<lparr>bin_ser := s\<rparr>) = slot_in_flight D"
  "disk_ok (D\<lparr>bin_ser := s\<rparr>) = disk_ok D"
  by (simp_all add: fun_eq_iff disk_ok_def heads_ok_def slot_in_flight_def)

lemma format_inv [simp]:
  "core_inv (D\<lparr>bin_ser := s\<rparr>) = core_inv D" "settled (D\<lparr>bin_ser := s\<rparr>) = settled D"
  "engine_inv (D\<lparr>bin_ser := s\<rparr>) = engine_inv D"
  by (simp_all add: fun_eq_iff core_inv_def settled_def engine_inv_def clean_ok_def)

text \<open>Creating a database either fails or yields the fresh engine.\<close>

lemma open_new_Inr:
  assumes "engine_open D os path None = (Inr e, f)"
  shows "e = fresh D path"
proof -
  let ?r = "header_region D"
  have r: "put_at (replicate 128 0) 0 (Header_encode (crc32 D) Header_initial) = ?r"
    by (simp add: header_region_def)
  obtain q g where w: "write_all_at os empty_file ?r 0 = (q, g)" by fastforce
  obtain q' g' where y: "sync_file os g = (q', g')" by fastforce
  have op: "open_fault os = None" using assms by (cases "open_fault os") (auto simp: engine_open_def)
  have res: "(Inr e, f) = (case q of Inl x \<Rightarrow> (Inl (Io x), g) | Inr _ \<Rightarrow>
      (case q' of Inl x \<Rightarrow> (Inl (Io x), g') | Inr _ \<Rightarrow> (Inr ((fresh D path)\<lparr>se_file := g'\<rparr>), g')))"
    using assms op w y
    by (cases q; cases q') (auto simp: engine_open_def empty_file_def initialize_def r engine_write_def
        engine_sync_def on_file_def fresh_def)
  then obtain u v where q: "q = Inr u" "q' = Inr v" and e: "e = (fresh D path)\<lparr>se_file := g'\<rparr>"
    by (cases q; cases q') auto
  have "?r \<noteq> []" using length_header_region [of D] by fastforce
  then have "g = \<lparr>content = ?r, older = [[]], ops = 1\<rparr>"
    using w q(1) by (auto simp: write_all_at_def empty_file_def Let_def pwrite_empty split: option.splits if_splits)
  then have "g' = \<lparr>content = ?r, older = [], ops = 2\<rparr>"
    using y q(2) by (auto simp: sync_file_def split: option.splits)
  then show ?thesis using e by (simp add: fresh_def)
qed

section \<open>The engine keeps its invariant\<close>

lemma reopen_inv:
  assumes inv: "engine_inv D e" and safe: "reopen_safe D (se_file e)" and os: "reads_ok os"
  obtains e' where "engine_open D os path (Some (se_file e)) = (Inr e', se_file e)" and "engine_inv D e'"
    and "se_file e' = se_file e" and "se_live_slot e' < 2" and "cand D (se_file e) (se_live_slot e') (se_header e')"
    and "\<And>i k. i < 2 \<Longrightarrow> slot_header D (slot_bytes (content (se_file e)) i) = Some k \<Longrightarrow>
      generation k \<le> generation (se_header e')"
    and "snap D (content (se_file e)) (se_header e') (se_index e')" and "\<not> se_dirty e'"
proof -
  have core: "core_inv D e" using inv by (simp add: engine_inv_def)
  have d: "disk_ok D (se_file e) (unat (se_end e))" using core by (simp add: core_inv_def)
  have "0 < length (content (se_file e))" using core_inv_bounds [OF core] by linarith
  note op = engine_open_existing [OF this core_inv_bounds(3) [OF core] os]
  show thesis
    by (rule load_disk_ok [OF d safe os, of path]) (rule that, simp_all add: op cand_now)
qed

lemma inv_file_length:
  assumes "engine_inv D e"
  shows "0 < length (content (se_file e))" and "length (content (se_file e)) \<le> max_off"
proof -
  have "core_inv D e" using assms by (simp add: engine_inv_def)
  note b = core_inv_bounds [OF this]
  show "0 < length (content (se_file e))" "length (content (se_file e)) \<le> max_off" using b by linarith+
qed

text \<open>Opening again, or after a power loss, is the same with failing reads when it succeeds.\<close>

lemma reopen_reads:
  assumes "engine_inv D e" and "engine_open D os path (Some (se_file e)) = (Inr e', f)"
  shows "engine_open D os_ok path (Some (se_file e)) = (Inr e', se_file e)"
  using open_reads [OF assms(2)] inv_file_length [OF assms(1)] by blast

lemma crash_reads:
  assumes "engine_inv D e" and "crash_image (se_file e) img"
    and "engine_open D os path (Some (disk_file img)) = (Inr e', f)"
  shows "engine_open D os_ok path (Some (disk_file img)) = (Inr e', disk_file img)"
proof -
  have "disk_ok D (se_file e) (unat (se_end e))" using assms(1) by (simp add: engine_inv_def core_inv_def)
  then have "\<forall>v\<in>set (versions (se_file e)). 128 \<le> length v \<and> length v \<le> max_off"
    using disk_okD(1) by (simp add: sized_def)
  then have "128 \<le> length img \<and> length img \<le> max_off" by (rule crash_image_length [OF assms(2)])
  then show ?thesis using open_reads [OF assms(3)] by (cases img) simp_all
qed

lemma step_keeps_inv:
  assumes "safe_event D e ev e'" and "engine_inv D e"
  shows "engine_inv D e'"
  using assms(1)
proof (cases rule: engine_event.cases)
  case (ev_put os k p r)
  then show ?thesis using assms(2) by (blast intro: append_inv)
next
  case (ev_del os i r)
  then show ?thesis using assms(2) by (blast intro: tombstone_inv)
next
  case (ev_get os i)
  then show ?thesis using assms(2) by simp
next
  case (ev_commit s r os)
  then show ?thesis using assms(2) commit_inv [of "D\<lparr>bin_ser := s\<rparr>" e r os e'] by (simp add: safe_commit_guard)
next
  case (ev_reopen os path f)
  then have "reopen_safe D (se_file e)" by (simp add: safe_reopen_guard)
  then show ?thesis
    using reopen_inv [OF assms(2) _ os_ok_reads_ok, of path] reopen_reads [OF assms(2) ev_reopen(3)]
    by (metis Pair_inject sum.inject(2))
next
  case (ev_crash img os path f)
  have "disk_ok D (se_file e) (unat (se_end e))" using assms(2) by (simp add: engine_inv_def core_inv_def)
  then obtain e2 where "engine_open D os_ok path (Some (disk_file img)) = (Inr e2, disk_file img)" "engine_inv D e2"
    by (rule recover_disk_ok [OF _ ev_crash(2) os_ok_reads_ok])
  then show ?thesis using crash_reads [OF assms(2) ev_crash(2,3)] by simp
qed

interpretation engine_run: invariant_system "engine_init D" "safe_event D" "engine_inv D" for D
proof
  show "engine_init D s \<Longrightarrow> engine_inv D s" for s
    unfolding engine_init_def using open_new_Inr [of D] fresh_inv [of D] by metis
  show "engine_inv D s \<Longrightarrow> safe_event D s ev t \<Longrightarrow> engine_inv D t" for s ev t
    by (rule step_keeps_inv)
qed

lemma fresh_init: "engine_init D (fresh D path)"
  using open_fresh_eq [OF os_ok_all_ok, of D path] unfolding engine_init_def by blast

section \<open>What the invariant gives\<close>

lemma engine_inv_verify:
  assumes "engine_inv D e" and "reads_ok os"
  obtains rs where "verify D os e = Inr (length rs)"
    and "log_is D (content (se_file e)) (unat (log_end (se_header e))) rs"
proof -
  have core: "core_inv D e" using assms(1) by (simp add: engine_inv_def)
  obtain idx where "snap D (content (se_file e)) (se_header e) idx"
    using header_ok_snap [OF core_inv_header_ok [OF core]] by blast
  then obtain rs where rs: "log_is D (content (se_file e)) (unat (log_end (se_header e))) rs"
    unfolding snap_def by blast
  then show thesis using that verify_log [OF _ core_inv_bounds(3) [OF core] assms(2)] by blast
qed

lemma engine_inv_read:
  assumes "engine_inv D e" and "reads_ok os"
  shows "case read_record D os e i of Inr r \<Rightarrow> is_live (se_index e) i
    | Inl err \<Rightarrow> err = (if i |\<in>| dead (se_index e) then Deleted i else NotFound i) \<and> \<not> is_live (se_index e) i"
proof -
  have core: "core_inv D e" using assms(1) by (simp add: engine_inv_def)
  then have "index_ok D (content (se_file e)) (unat (se_end e)) (se_index e)" by (simp add: core_inv_def)
  then show ?thesis
    using read_record_index_ok [OF _ refl core_inv_bounds(3) [OF core] assms(2), of D "unat (se_end e)" i]
    by (auto simp: is_live_def split: sum.splits intro: fmdomI)
qed

definition consistent :: "deps \<Rightarrow> os \<Rightarrow> StorageEngine \<Rightarrow> bool" where
  "consistent D os e \<longleftrightarrow> (\<exists>n. verify D os e = Inr n) \<and>
     (\<forall>i. case read_record D os e i of Inr r \<Rightarrow> is_live (se_index e) i
        | Inl err \<Rightarrow> err = (if i |\<in>| dead (se_index e) then Deleted i else NotFound i) \<and> \<not> is_live (se_index e) i) \<and>
     unat (engine_len e) = fcard (engine_live_ids e)"

lemma engine_inv_consistent: "engine_inv D e \<Longrightarrow> reads_ok os \<Longrightarrow> consistent D os e"
  using engine_inv_verify [of D e os] engine_inv_read [of D e os] counts_eq(1) [of "se_index e"]
  unfolding consistent_def engine_len_def engine_live_ids_def engine_inv_def core_inv_def index_ok_def
  by blast

end
