(* ===== verification/Store_Spec.thy ===== *)
theory Store_Spec
  imports Engine_Run
begin

text \<open>
  What the database promises its client, without files, offsets or headers: a numbered
  collection of documents that only grows and loses documents by deletion, and a transactional
  store around it whose commits survive power losses. A commit that reports an error leaves it
  in doubt which of the two states a restart will find. A reopening settles the doubt for the
  client only: what it finds may still be lost to a power loss, until a commit with something
  to write.
\<close>

section \<open>Documents\<close>

record docs =
  st_docs :: "DocId \<Rightarrow> Record option"
  st_gone :: "DocId set"
  st_next :: u64

definition no_docs :: docs where
  "no_docs = \<lparr>st_docs = (\<lambda>_. None), st_gone = {}, st_next = 1\<rparr>"

definition docs_put :: "docs \<Rightarrow> Record \<Rightarrow> docs" where
  "docs_put d r = d\<lparr>st_docs := (st_docs d)(DocId (st_next d) := Some r), st_next := st_next d + 1\<rparr>"

definition docs_del :: "docs \<Rightarrow> DocId \<Rightarrow> docs" where
  "docs_del d i = d\<lparr>st_docs := (st_docs d)(i := None), st_gone := insert i (st_gone d)\<rparr>"

definition docs_get :: "docs \<Rightarrow> DocId \<Rightarrow> CndbError + Record" where
  "docs_get d i = (if i \<in> st_gone d then Inl (Deleted i)
     else case st_docs d i of None \<Rightarrow> Inl (NotFound i) | Some r \<Rightarrow> Inr r)"

definition docs_wf :: "docs \<Rightarrow> bool" where
  "docs_wf d \<longleftrightarrow> (\<forall>i. DocId (st_next d) \<le> i \<longrightarrow> st_docs d i = None \<and> i \<notin> st_gone d)"

definition docs_room :: "docs \<Rightarrow> bool" where
  "docs_room d \<longleftrightarrow> unat (st_next d) < 2 ^ 64 - 1"

text \<open>The documents are a document directory, like the index that implements them.\<close>

interpretation docs_dir: doc_directory docs_wf docs_room "\<lambda>d. DocId (st_next d)" docs_put docs_del docs_get
proof
  fix d :: docs and r :: Record and i j :: DocId
  have lt: "docs_room d \<Longrightarrow> st_next d < st_next d + 1"
    using unat_succ [of "st_next d"] by (simp add: docs_room_def word_less_nat_alt)
  show "docs_wf d \<Longrightarrow> docs_room d \<Longrightarrow> docs_wf (docs_put d r)"
    using lt by (auto simp: docs_wf_def docs_put_def less_eq_DocId_def)
  show "docs_wf d \<Longrightarrow> docs_get d i = Inr r \<Longrightarrow> docs_wf (docs_del d i)"
    by (auto simp: docs_wf_def docs_del_def docs_get_def split: if_splits option.splits)
  show "docs_wf d \<Longrightarrow> DocId (st_next d) \<le> i \<Longrightarrow> docs_get d i = Inl (NotFound i)"
    by (simp add: docs_wf_def docs_get_def)
  show "docs_wf d \<Longrightarrow> docs_room d \<Longrightarrow> docs_get (docs_put d r) i =
      (if i = DocId (st_next d) then Inr r else docs_get d i)"
    by (auto simp: docs_wf_def docs_get_def docs_put_def)
  show "docs_wf d \<Longrightarrow> docs_get d i = Inr r \<Longrightarrow> docs_get (docs_del d i) j =
      (if j = i then Inl (Deleted i) else docs_get d j)"
    by (auto simp: docs_get_def docs_del_def)
  show "docs_wf d \<Longrightarrow> docs_room d \<Longrightarrow> DocId (st_next d) < DocId (st_next (docs_put d r))"
    using lt by (simp add: docs_put_def)
  show "DocId (st_next (docs_del d i)) = DocId (st_next d)" by (simp add: docs_del_def)
qed

section \<open>The transactional store\<close>

text \<open>
  The documents a client sees now, those a restart may bring back, and whether there is
  anything to commit.
\<close>

record store =
  cur :: docs
  possible :: "docs set"
  pending :: bool

definition new_store :: store where
  "new_store = \<lparr>cur = no_docs, possible = {no_docs}, pending = False\<rparr>"

inductive store_event :: "store \<Rightarrow> event \<Rightarrow> store \<Rightarrow> bool" where
  st_put: "length p \<le> unat MAX_RECORD_LEN \<Longrightarrow>
    store_event s (EPut k p (Inr (DocId (st_next (cur s))))) 
      (s\<lparr>cur := docs_put (cur s) \<lparr>rec_kind = k, payload = p\<rparr>, pending := True\<rparr>)"
| st_put_large: "unat MAX_RECORD_LEN < length p \<Longrightarrow>
    store_event s (EPut k p (Inl (RecordTooLarge off (of_nat (length p)) MAX_RECORD_LEN))) s"
| st_put_io: "length p \<le> unat MAX_RECORD_LEN \<Longrightarrow> store_event s (EPut k p (Inl (Io x))) s"
| st_del: "docs_get (cur s) i = Inr r \<Longrightarrow> store_event s (EDel i (Inr ()))
      (s\<lparr>cur := docs_del (cur s) i, pending := True\<rparr>)"
| st_del_refused: "docs_get (cur s) i = Inl err \<Longrightarrow> store_event s (EDel i (Inl err)) s"
| st_del_io: "docs_get (cur s) i = Inr r \<Longrightarrow> store_event s (EDel i (Inl (Io x))) s"
| st_get: "store_event s (EGet i (docs_get (cur s) i)) s"
| st_get_io: "docs_get (cur s) i = Inr r \<Longrightarrow> store_event s (EGet i (Inl (Io x))) s"
| st_commit: "pending s \<Longrightarrow> store_event s (ECommit (Inr ())) (s\<lparr>possible := {cur s}, pending := False\<rparr>)"
| st_commit_nothing: "\<not> pending s \<Longrightarrow> store_event s (ECommit (Inr ())) s"
| st_commit_failed: "pending s \<Longrightarrow>
    store_event s (ECommit (Inl err)) (s\<lparr>possible := insert (cur s) (possible s)\<rparr>)"
| st_reopen: "d \<in> possible s \<Longrightarrow> store_event s EReopen (s\<lparr>cur := d, pending := False\<rparr>)"
| st_crash: "d \<in> possible s \<Longrightarrow> store_event s ECrash \<lparr>cur = d, possible = {d}, pending = False\<rparr>"

inductive_cases store_putE: "store_event s (EPut k p r) s'"
inductive_cases store_delE: "store_event s (EDel i r) s'"
inductive_cases store_getE: "store_event s (EGet i r) s'"
inductive_cases store_commitE: "store_event s (ECommit r) s'"
inductive_cases store_crashE: "store_event s ECrash s'"

section \<open>The interface of a refinement\<close>

text \<open>
  A system with an invariant implements another one when every step of the first, from a state
  related to one of the second, is a step of the second with the same label.
\<close>

locale refinement = invariant_system init step inv
  for init :: "'s \<Rightarrow> bool" and step :: "'s \<Rightarrow> 'e \<Rightarrow> 's \<Rightarrow> bool" and inv :: "'s \<Rightarrow> bool" +
  fixes ainit :: "'a" and astep :: "'a \<Rightarrow> 'e \<Rightarrow> 'a \<Rightarrow> bool" and rel :: "'s \<Rightarrow> 'a \<Rightarrow> bool"
  assumes sim_init: "init s \<Longrightarrow> rel s ainit"
    and sim_step: "inv s \<Longrightarrow> rel s a \<Longrightarrow> step s ev t \<Longrightarrow> \<exists>b. astep a ev b \<and> rel t b"
begin

lemma sim_trace:
  "trace step s evs t \<Longrightarrow> inv s \<Longrightarrow> rel s a \<Longrightarrow> \<exists>b. trace astep a evs b \<and> rel t b"
proof (induction arbitrary: a rule: trace.induct)
  case (trace_nil s)
  then show ?case by (blast intro: trace.trace_nil)
next
  case (trace_cons s ev t evs u)
  then obtain b where "astep a ev b" "rel t b" "inv t" using sim_step step_inv by blast
  with trace_cons.IH show ?case by (blast intro: trace.trace_cons)
qed

lemma implements:
  "init s \<Longrightarrow> trace step s evs t \<Longrightarrow> \<exists>b. trace astep ainit evs b \<and> rel t b"
  by (rule sim_trace) (auto intro: init_inv sim_init)

end

end
