(* ===== verification/Store_Refines.thy ===== *)
theory Store_Refines
  imports Store_Spec
begin

text \<open>
  The engine implements the transactional store of \<open>Store_Spec\<close>: its documents are the
  records its index points to, and the documents a restart may bring back are those of the
  headers that may survive a power loss.
\<close>

section \<open>The documents of a file and an index\<close>

definition docs_of :: "deps \<Rightarrow> bytes \<Rightarrow> MasterIndex \<Rightarrow> docs" where
  "docs_of D bs idx =
     \<lparr>st_docs = (\<lambda>i. if i |\<in>| dead idx then None
        else case fmlookup (offsets idx) i of
          None \<Rightarrow> None
        | Some off \<Rightarrow> (case read_record_at D os_ok (disk_file bs) off of Inr r \<Rightarrow> Some r | Inl _ \<Rightarrow> None)),
      st_gone = fset (dead idx), st_next = next_doc_id idx\<rparr>"

definition engine_docs :: "deps \<Rightarrow> StorageEngine \<Rightarrow> docs" where
  "engine_docs D e = docs_of D (content (se_file e)) (se_index e)"

lemma read_record_at_ser [simp]: "read_record_at (D\<lparr>bin_ser := s\<rparr>) = read_record_at D"
  by (simp add: fun_eq_iff read_record_at_def)

lemma docs_of_ser [simp]: "docs_of (D\<lparr>bin_ser := s\<rparr>) = docs_of D"
  unfolding docs_of_def read_record_at_ser by simp

lemma index_ok_entry:
  assumes "index_ok D bs n idx" and "\<not> (i |\<in>| dead idx \<or> fmlookup (offsets idx) i = None)"
  obtains off r where "fmlookup (offsets idx) i = Some off" and "i |\<notin>| dead idx"
    and "rec_in D bs n (unat off) r"
  using assms unfolding index_ok_def by blast

lemma docs_of_sel [simp]:
  "st_gone (docs_of D bs idx) = fset (dead idx)" "st_next (docs_of D bs idx) = next_doc_id idx"
  by (simp_all add: docs_of_def)

lemma docs_of_default: "docs_of D bs MasterIndex_default = no_docs"
  by (simp add: docs_of_def MasterIndex_default_def no_docs_def)

lemma docs_of_found:
  assumes "rec_in D bs n (unat off) r" and "length bs \<le> max_off"
    and "fmlookup (offsets idx) i = Some off" and "i |\<notin>| dead idx"
  shows "st_docs (docs_of D bs idx) i = Some r"
  using assms read_record_rec_in [of D "disk_file bs" n off r os_ok] by (simp add: docs_of_def)

lemma docs_of_none:
  "i |\<in>| dead idx \<or> fmlookup (offsets idx) i = None \<Longrightarrow> st_docs (docs_of D bs idx) i = None"
  by (auto simp: docs_of_def)

lemma docs_of_stable:
  assumes ix: "index_ok D bs n idx" and ag: "bslice bs' 128 n = bslice bs 128 n" "n \<le> length bs'"
    and len: "length bs \<le> max_off" "length bs' \<le> max_off"
  shows "docs_of D bs' idx = docs_of D bs idx"
proof -
  have "st_docs (docs_of D bs' idx) i = st_docs (docs_of D bs idx) i" for i
  proof (cases "i |\<in>| dead idx \<or> fmlookup (offsets idx) i = None")
    case True
    then show ?thesis by (simp add: docs_of_none)
  next
    case False
    obtain off r where o: "fmlookup (offsets idx) i = Some off" "i |\<notin>| dead idx"
      and r: "rec_in D bs n (unat off) r" by (rule index_ok_entry [OF ix False])
    have "rec_in D bs' n (unat off) r" using r ag by (rule rec_in_stable)
    then show ?thesis using docs_of_found [OF _ _ o] r len by simp
  qed
  then show ?thesis by (simp add: docs.equality fun_eq_iff docs_of_def)
qed

lemma docs_of_append:
  assumes "index_ok D bs n idx" and "rec_in D bs m (unat off) r" and "length bs \<le> max_off"
  shows "docs_of D bs (idx_append idx off) = docs_put (docs_of D bs idx) r"
proof -
  let ?i = "DocId (next_doc_id idx)"
  have "?i |\<notin>| dead idx" using assms(1) next_id_not_stored [of idx ?i] by (simp add: index_ok_def)
  then have "st_docs (docs_of D bs (idx_append idx off)) ?i = Some r"
    using assms(2,3) by (intro docs_of_found) (simp_all add: idx_append_eq)
  then show ?thesis
    by (simp add: docs_of_def docs_put_def idx_append_eq fun_eq_iff)
qed

lemma docs_of_mark_dead: "docs_of D bs (mark_dead idx i) = docs_del (docs_of D bs idx) i"
  by (auto simp: docs_of_def docs_del_def mark_dead_def fun_eq_iff)

lemma docs_get_of:
  assumes "index_ok D (content (se_file e)) n (se_index e)" and "length (content (se_file e)) \<le> max_off"
    and "reads_ok os"
  shows "read_record D os e i = docs_get (engine_docs D e) i"
proof (cases "i |\<in>| dead (se_index e) \<or> fmlookup (offsets (se_index e)) i = None")
  case True
  then show ?thesis by (auto simp: read_record_def docs_get_def engine_docs_def docs_of_def)
next
  case False
  obtain off r where o: "fmlookup (offsets (se_index e)) i = Some off" "i |\<notin>| dead (se_index e)"
    and r: "rec_in D (content (se_file e)) n (unat off) r" by (rule index_ok_entry [OF assms(1) False])
  have "st_docs (engine_docs D e) i = Some r"
    unfolding engine_docs_def using r assms(2) o by (rule docs_of_found)
  moreover have "read_record_at D os (se_file e) off = Inr r" using r assms(2,3) by (rule read_record_rec_in)
  ultimately show ?thesis using o by (simp add: read_record_def docs_get_def engine_docs_def)
qed

section \<open>What a restart may find\<close>

text \<open>Whatever a power loss takes, a header of at least this generation survives.\<close>

definition survives :: "deps \<Rightarrow> dbfile \<Rightarrow> u64 \<Rightarrow> bool" where
  "survives D f g \<longleftrightarrow> (\<exists>p<2. \<exists>h. stable f p \<and> slot_header D (slot_bytes (content f) p) = Some h \<and> g \<le> generation h)"

text \<open>
  The documents that a header which may come back describes, unless a newer one is sure to
  survive.
\<close>

definition outcomes :: "deps \<Rightarrow> StorageEngine \<Rightarrow> docs set \<Rightarrow> bool" where
  "outcomes D e P \<longleftrightarrow> (\<exists>g. g \<le> generation (se_header e) \<and> survives D (se_file e) g \<and>
     (\<forall>i<2. \<forall>h idx. cand D (se_file e) i h \<and> g \<le> generation h \<and>
        snap D (content (se_file e)) h idx \<longrightarrow> docs_of D (content (se_file e)) idx \<in> P))"

lemma outcomes_mono: "outcomes D e P \<Longrightarrow> P \<subseteq> Q \<Longrightarrow> outcomes D e Q"
  unfolding outcomes_def by blast

lemma core_inv_cand_ok:
  assumes "core_inv D e" and "i < 2" and "cand D (se_file e) i h"
  shows "header_ok D (se_file e) (unat (se_end e)) h" and "unat (log_end h) \<le> unat (se_end e)"
proof -
  show h: "header_ok D (se_file e) (unat (se_end e)) h"
    using disk_okD(3) [OF _ assms(2,3)] assms(1) unfolding core_inv_def by blast
  show "unat (log_end h) \<le> unat (se_end e)" using h unfolding header_ok_def by blast
qed

text \<open>Writing past the end of the log does not change what a restart may find.\<close>

lemma outcomes_tail:
  assumes core: "core_inv D e" "core_inv D e'" and out: "outcomes D e P"
    and t: "tail_write (unat (se_end e)) (se_file e) (se_file e')"
    and sel: "se_header e' = se_header e" "unat (se_end e) \<le> unat (se_end e')"
  shows "outcomes D e' P"
proof -
  obtain g where g: "g \<le> generation (se_header e)" "survives D (se_file e) g"
    and P: "\<And>i h idx. i < 2 \<Longrightarrow> cand D (se_file e) i h \<Longrightarrow> g \<le> generation h \<Longrightarrow>
      snap D (content (se_file e)) h idx \<Longrightarrow> docs_of D (content (se_file e)) idx \<in> P"
    using out unfolding outcomes_def by blast
  note b = core_inv_bounds [OF core(1)] and b' = core_inv_bounds [OF core(2)]
  have "survives D (se_file e') g"
    using g(2) stable_tail [OF t b(1)] tail_write_slots(1) [OF t b(1)] unfolding survives_def by metis
  moreover have "docs_of D (content (se_file e')) idx \<in> P"
    if c: "i < 2" "cand D (se_file e') i h" "g \<le> generation h" and s: "snap D (content (se_file e')) h idx" for i h idx
  proof -
    have c0: "cand D (se_file e) i h" by (rule cand_tail [OF t b(1) c(1,2)])
    have L: "unat (log_end h) \<le> unat (se_end e)" by (rule core_inv_cand_ok [OF core(1) c(1) c0])
    have ag: "bslice (content (se_file e)) 128 (unat (log_end h)) = bslice (content (se_file e')) 128 (unat (log_end h))"
      using bslice_take [OF L tail_writeD(2) [OF t]] by (rule sym)
    have L2: "unat (log_end h) \<le> length (content (se_file e))" using L b(2) by simp
    have s0: "snap D (content (se_file e)) h idx" using s ag L2 by (rule snap_stable)
    then have ix: "index_ok D (content (se_file e)) (unat (log_end h)) idx" using snap_bounds by blast
    have "docs_of D (content (se_file e')) idx = docs_of D (content (se_file e)) idx"
      using ix ag [symmetric] snap_bounds [OF s] b(3) b'(3) by (intro docs_of_stable) auto
    then show ?thesis using P [OF c(1) c0 c(3) s0] by simp
  qed
  ultimately show ?thesis using g(1) sel(1) unfolding outcomes_def by metis
qed

text \<open>With nothing in flight and no newer header, a restart finds the committed state.\<close>

lemma outcomes_settled:
  assumes core: "core_inv D e" and com: "committed D e idx"
  shows "outcomes D e {docs_of D (content (se_file e)) idx}"
proof -
  have st: "settled D e" and sn: "snap D (content (se_file e)) (se_header e) idx"
    using com by (simp_all add: committed_def)
  have stab: "stable (se_file e) i" if "i < 2" for i using st that unfolding settled_def by blast
  have "idx' = idx" if h: "i < 2" "cand D (se_file e) i h" "generation (se_header e) \<le> generation h"
    and s: "snap D (content (se_file e)) h idx'" for i h idx'
  proof -
    have "h = se_header e"
      using settled_newest [OF core st h(1) _ h(3)] stable_cand [OF stab [OF h(1)]] h(2) by blast
    then show ?thesis using snap_unique [OF s _ core_inv_bounds(3) [OF core]] sn by blast
  qed
  moreover have "survives D (se_file e) (generation (se_header e))"
    using stab core_inv_live [OF core] core unfolding survives_def core_inv_def by blast
  ultimately show ?thesis unfolding outcomes_def by blast
qed

text \<open>A header in flight adds the state it describes.\<close>

lemma outcomes_in_flight:
  assumes core: "core_inv D e" and out: "outcomes D e P"
    and fl: "header_in_flight D e nxt f" and sn: "snap D (content (se_file e)) nxt (se_index e)"
  shows "outcomes D (e\<lparr>se_file := f\<rparr>) (insert (engine_docs D e) P)"
    and "docs_of D (content f) (se_index e) = engine_docs D e"
proof -
  let ?c = "content (se_file e)"
  obtain g where g: "g \<le> generation (se_header e)" "survives D (se_file e) g"
    and P: "\<And>i h idx. i < 2 \<Longrightarrow> cand D (se_file e) i h \<Longrightarrow> g \<le> generation h \<Longrightarrow>
      snap D ?c h idx \<Longrightarrow> docs_of D ?c idx \<in> P"
    using out unfolding outcomes_def by blast
  note fd = header_in_flightD [OF fl]
  note b = core_inv_bounds [OF core]
  have docs: "docs_of D (content f) idx = docs_of D ?c idx \<and> snap D ?c h idx" if s: "snap D (content f) h idx" for h idx
  proof
    note sb = snap_bounds [OF s]
    show s': "snap D ?c h idx" by (rule snap_stable [OF s]) (use fd(4,5) sb in auto)
    show "docs_of D (content f) idx = docs_of D ?c idx"
      using snap_bounds [OF s'] fd(4,5) b(3) by (intro docs_of_stable [of D ?c "unat (log_end h)"]) auto
  qed
  have ix: "index_ok D ?c (unat (se_end e)) (se_index e)" using core by (simp add: core_inv_def)
  show eq: "docs_of D (content f) (se_index e) = engine_docs D e"
    unfolding engine_docs_def using ix fd(4,5) b(2,3) by (intro docs_of_stable [of D ?c "unat (se_end e)"]) auto
  have "docs_of D (content f) idx \<in> insert (engine_docs D e) P"
    if h: "i < 2" "cand D f i h" "g \<le> generation h" and s: "snap D (content f) h idx" for i h idx
  proof (cases "cand D (se_file e) i h")
    case True
    then show ?thesis using P [OF h(1) _ h(3)] docs [OF s] by simp
  next
    case False
    then have "h = nxt" using fd(3) [OF h(1,2)] by blast
    then have "idx = se_index e" using docs [OF s] sn snap_unique [OF _ sn b(3)] by blast
    then show ?thesis using eq by simp
  qed
  moreover have "survives D f g"
    using fd(2,6) g(1) core core_inv_live [OF core] unfolding survives_def core_inv_def by auto
  ultimately show "outcomes D (e\<lparr>se_file := f\<rparr>) (insert (engine_docs D e) P)"
    using g(1) unfolding outcomes_def by (intro exI [of _ g]) auto
qed

text \<open>After a power loss the engine has one of these states.\<close>

lemma outcomes_crash:
  assumes core: "core_inv D e" and out: "outcomes D e P" and img: "crash_image (se_file e) img" and os: "reads_ok os"
    and op: "engine_open D os path (Some (disk_file img)) = (Inr e', f)"
  shows "engine_docs D e' \<in> P" and "outcomes D e' {engine_docs D e'}" and "engine_inv D e'"
    and "settled D e'" and "\<not> se_dirty e'"
proof -
  obtain g where g: "g \<le> generation (se_header e)" "survives D (se_file e) g"
    and P: "\<And>i h idx. i < 2 \<Longrightarrow> cand D (se_file e) i h \<Longrightarrow> g \<le> generation h \<Longrightarrow>
      snap D (content (se_file e)) h idx \<Longrightarrow> docs_of D (content (se_file e)) idx \<in> P"
    using out unfolding outcomes_def by blast
  have d: "disk_ok D (se_file e) (unat (se_end e))" using core by (simp add: core_inv_def)
  obtain e2 where e2: "engine_open D os path (Some (disk_file img)) = (Inr e2, disk_file img)"
    "engine_inv D e2" "settled D e2" "se_file e2 = disk_file img" "se_live_slot e2 < 2"
    "cand D (se_file e) (se_live_slot e2) (se_header e2)" "snap D img (se_header e2) (se_index e2)"
    "\<And>i h. i < 2 \<Longrightarrow> stable (se_file e) i \<Longrightarrow> slot_header D (slot_bytes (content (se_file e)) i) = Some h \<Longrightarrow>
      generation h \<le> generation (se_header e2)" "\<not> se_dirty e2"
    by (rule recover_disk_ok [OF d img os, of path]) blast
  have eq: "e' = e2" using op e2(1) by simp
  have core2: "core_inv D e2" using e2(2) by (simp add: engine_inv_def)
  have gen: "g \<le> generation (se_header e2)" using g(2) e2(8) unfolding survives_def by (meson order_trans)
  note hok = core_inv_cand_ok [OF core e2(5,6)]
  note ag = crash_agree [OF hok(1) img]
  have L: "unat (log_end (se_header e2)) \<le> length (content (se_file e))"
    using hok(2) core_inv_bounds(2) [OF core] by linarith
  have s: "snap D (content (se_file e)) (se_header e2) (se_index e2)"
    using e2(7) ag(1) [symmetric] L by (rule snap_stable)
  have len2: "length img \<le> max_off" using core_inv_bounds(3) [OF core2] e2(4) by simp
  have "docs_of D img (se_index e2) = docs_of D (content (se_file e)) (se_index e2)"
    using snap_bounds [OF s] ag core_inv_bounds(3) [OF core] len2
    by (intro docs_of_stable [of D _ "unat (log_end (se_header e2))"]) auto
  then show "engine_docs D e' \<in> P"
    using P [OF e2(5,6) gen s] e2(4) eq by (simp add: engine_docs_def)
  have "committed D e2 (se_index e2)" using e2(3,4,7) by (simp add: committed_def)
  then show "outcomes D e' {engine_docs D e'}" using outcomes_settled [OF core2] eq by (simp add: engine_docs_def)
  show "engine_inv D e'" "settled D e'" "\<not> se_dirty e'" using e2(2,3,9) eq by simp_all
qed

text \<open>A reopening finds one of them too, and leaves them all possible.\<close>

lemma outcomes_reopen:
  assumes inv: "engine_inv D e" and out: "outcomes D e P" and safe: "reopen_safe D (se_file e)" and os: "reads_ok os"
    and op: "engine_open D os path (Some (se_file e)) = (Inr e', f)"
  shows "engine_docs D e' \<in> P" and "outcomes D e' P" and "engine_inv D e'" and "\<not> se_dirty e'"
    and "se_file e' = se_file e"
proof -
  obtain g where g: "g \<le> generation (se_header e)" "survives D (se_file e) g"
    and P: "\<And>i h idx. i < 2 \<Longrightarrow> cand D (se_file e) i h \<Longrightarrow> g \<le> generation h \<Longrightarrow>
      snap D (content (se_file e)) h idx \<Longrightarrow> docs_of D (content (se_file e)) idx \<in> P"
    using out unfolding outcomes_def by blast
  obtain e2 where e2: "engine_open D os path (Some (se_file e)) = (Inr e2, se_file e)" "engine_inv D e2"
    "se_file e2 = se_file e" "se_live_slot e2 < 2" "cand D (se_file e) (se_live_slot e2) (se_header e2)"
    "\<And>i k. i < 2 \<Longrightarrow> slot_header D (slot_bytes (content (se_file e)) i) = Some k \<Longrightarrow>
      generation k \<le> generation (se_header e2)"
    "snap D (content (se_file e)) (se_header e2) (se_index e2)" "\<not> se_dirty e2"
    by (rule reopen_inv [OF inv safe os, of path]) blast
  have eq: "e' = e2" using op e2(1) by simp
  have gen: "g \<le> generation (se_header e2)" using g(2) e2(6) unfolding survives_def by (meson order_trans)
  show "engine_docs D e' \<in> P" using P [OF e2(4,5) gen e2(7)] e2(3) eq by (simp add: engine_docs_def)
  show "outcomes D e' P" using gen g(2) P e2(3) eq unfolding outcomes_def by metis
  show "engine_inv D e'" "\<not> se_dirty e'" "se_file e' = se_file e" using e2 eq by simp_all
qed

section \<open>The simulation\<close>

definition store_rel :: "deps \<Rightarrow> StorageEngine \<Rightarrow> store \<Rightarrow> bool" where
  "store_rel D e a \<longleftrightarrow> cur a = engine_docs D e \<and> pending a = se_dirty e \<and> outcomes D e (possible a)"

lemma append_too_large:
  "unat MAX_RECORD_LEN < length p \<Longrightarrow> append D os e k p =
     (Inl (RecordTooLarge (se_end e) (of_nat (length p)) MAX_RECORD_LEN), e)"
  by (simp add: append_def append_raw_def)

lemma append_raw_Io:
  "length p \<le> unat MAX_RECORD_LEN \<Longrightarrow> append_raw D os e k p = (Inl err, e') \<Longrightarrow> \<exists>x. err = Io x"
  by (auto simp: append_raw_def Let_def st_bind_Inl_iff engine_write_def on_file_def map_err_def split: sum.splits)

lemma append_Io:
  "length p \<le> unat MAX_RECORD_LEN \<Longrightarrow> append D os e k p = (Inl err, e') \<Longrightarrow> \<exists>x. err = Io x"
  using append_raw_Io [of p D os e k err e'] by (auto simp: append_def st_bind_Inl_iff allocate_id_def)

lemma engine_docs_tail:
  assumes "core_inv D e" and "length (content (se_file e')) \<le> max_off"
    and t: "tail_write (unat (se_end e)) (se_file e) (se_file e')"
  shows "docs_of D (content (se_file e')) (se_index e) = engine_docs D e"
  unfolding engine_docs_def
proof (rule docs_of_stable)
  note b = core_inv_bounds [OF assms(1)]
  show "index_ok D (content (se_file e)) (unat (se_end e)) (se_index e)" using assms(1) by (simp add: core_inv_def)
  show "bslice (content (se_file e')) 128 (unat (se_end e)) = bslice (content (se_file e)) 128 (unat (se_end e))"
    using order_refl tail_writeD(2) [OF t] by (rule bslice_take)
  show "unat (se_end e) \<le> length (content (se_file e'))" using b(2) tail_writeD(1) [OF t] by simp
  show "length (content (se_file e)) \<le> max_off" by (rule b(3))
qed (rule assms(2))

lemma appended_docs:
  assumes core: "core_inv D e" and a: "appended D e r e1"
  shows "docs_of D (content (se_file e1)) (idx_append (se_index e) (se_end e)) = docs_put (engine_docs D e) r"
    and "docs_of D (content (se_file e1)) (se_index e) = engine_docs D e"
proof -
  have core1: "core_inv D e1" using core a by (rule appended_core_inv)
  note b1 = core_inv_bounds(3) [OF core1]
  show eq: "docs_of D (content (se_file e1)) (se_index e) = engine_docs D e"
    using core b1 appended_tail [OF a] by (rule engine_docs_tail)
  have "index_ok D (content (se_file e1)) (unat (se_end e1)) (se_index e)"
    using core1 appended_sel(4) [OF a] by (simp add: core_inv_def)
  moreover have "rec_in D (content (se_file e1)) (unat (se_end e1)) (unat (se_end e)) r"
    using a unfolding appended_def by blast
  ultimately show "docs_of D (content (se_file e1)) (idx_append (se_index e) (se_end e)) = docs_put (engine_docs D e) r"
    using docs_of_append b1 eq by metis
qed

lemma appended_end: "appended D e r e' \<Longrightarrow> unat (se_end e) \<le> unat (se_end e')"
  unfolding appended_def by linarith

lemma outcomes_file:
  assumes inv: "engine_inv D e" and out: "outcomes D e P" and t: "tail_write (unat (se_end e)) (se_file e) f"
  shows "outcomes D (e\<lparr>se_file := f\<rparr>) P" and "engine_docs D (e\<lparr>se_file := f\<rparr>) = engine_docs D e"
proof -
  have core: "core_inv D e" and core': "core_inv D (e\<lparr>se_file := f\<rparr>)"
    using inv engine_inv_file [OF inv t] by (simp_all add: engine_inv_def)
  show "outcomes D (e\<lparr>se_file := f\<rparr>) P" using core core' out by (rule outcomes_tail) (simp_all add: t)
  show "engine_docs D (e\<lparr>se_file := f\<rparr>) = engine_docs D e"
    using engine_docs_tail [OF core, of "e\<lparr>se_file := f\<rparr>"] core_inv_bounds(3) [OF core'] t
    by (simp add: engine_docs_def)
qed

lemma outcomes_appended:
  assumes core: "core_inv D e" and out: "outcomes D e P" and a: "appended D e r e1"
    and idx: "core_inv D (e1\<lparr>se_index := idx\<rparr>)"
  shows "outcomes D (e1\<lparr>se_index := idx\<rparr>) P"
  using core idx out
  by (rule outcomes_tail) (simp_all add: appended_tail [OF a] appended_sel [OF a] appended_end [OF a])

lemma put_simulates:
  assumes inv: "engine_inv D e" and rel: "store_rel D e a" and app: "append D os e k p = (r, e')"
  shows "\<exists>b. store_event a (EPut k p r) b \<and> store_rel D e' b"
proof (cases "unat MAX_RECORD_LEN < length p")
  case True
  have "r = Inl (RecordTooLarge (se_end e) (of_nat (length p)) MAX_RECORD_LEN)" "e' = e"
    using append_too_large [OF True, of D os e k] app by simp_all
  then show ?thesis using st_put_large [OF True] rel by blast
next
  case False
  then have len: "length p \<le> unat MAX_RECORD_LEN" by simp
  have core: "core_inv D e" and out: "outcomes D e (possible a)" and cur: "cur a = engine_docs D e"
    and pend: "pending a = se_dirty e"
    using inv rel by (simp_all add: engine_inv_def store_rel_def)
  note eff = append_effect [OF core app]
  show ?thesis
  proof (cases r)
    case (Inl err)
    then obtain f where f: "e' = e\<lparr>se_file := f\<rparr>" "tail_write (unat (se_end e)) (se_file e) f" using eff by auto
    have "\<exists>x. err = Io x" using app unfolding Inl by (rule append_Io [OF len])
    moreover have "store_rel D e' a" using outcomes_file [OF inv out f(2)] cur pend f(1) by (simp add: store_rel_def)
    ultimately show ?thesis using Inl st_put_io [OF len] by blast
  next
    case (Inr i)
    let ?rec = "\<lparr>rec_kind = k, payload = p\<rparr>"
    obtain e1 where a: "appended D e ?rec e1" and i: "i = DocId (next_doc_id (se_index e))"
      and e': "e' = e1\<lparr>se_index := idx_append (se_index e) (se_end e)\<rparr>" using eff Inr by auto
    have "outcomes D e' (possible a)"
      using outcomes_appended [OF core out a appended_append_inv [OF core a]] e' by simp
    then have "store_rel D e' (a\<lparr>cur := docs_put (cur a) ?rec, pending := True\<rparr>)"
      using appended_docs(1) [OF core a] appended_sel(5) [OF a] cur e' by (simp add: store_rel_def engine_docs_def)
    then show ?thesis using st_put [OF len, of a k] Inr i cur by (auto simp: engine_docs_def)
  qed
qed

definition read_err :: "DocId \<Rightarrow> MasterIndex \<Rightarrow> CndbError + 'a" where
  "read_err i idx = Inl (if i |\<in>| dead idx then Deleted i else NotFound i)"

lemma tombstone_refused:
  "i |\<in>| dead (se_index e) \<or> fmlookup (offsets (se_index e)) i = None \<Longrightarrow>
   tombstone D os e i = (read_err i (se_index e), e)"
  by (auto simp: tombstone_def read_err_def dest: fmdom_notI)

lemma tombstone_accepted:
  "fmlookup (offsets (se_index e)) i = Some off \<Longrightarrow> i |\<notin>| dead (se_index e) \<Longrightarrow>
   tombstone D os e i = st_bind (append_raw D os e Tombstone (le_bytes 8 (raw_id i)))
     (\<lambda>_ e. (Inr (), e\<lparr>se_index := mark_dead (se_index e) i\<rparr>))"
  by (simp add: tombstone_def fmdomI)

lemma del_simulates:
  assumes inv: "engine_inv D e" and rel: "store_rel D e a" and del: "tombstone D os e i = (r, e')"
  shows "\<exists>b. store_event a (EDel i r) b \<and> store_rel D e' b"
proof -
  have core: "core_inv D e" and out: "outcomes D e (possible a)" and cur: "cur a = engine_docs D e"
    and pend: "pending a = se_dirty e"
    using inv rel by (simp_all add: engine_inv_def store_rel_def)
  note b = core_inv_bounds [OF core]
  have ix: "index_ok D (content (se_file e)) (unat (se_end e)) (se_index e)" using core by (simp add: core_inv_def)
  have get: "docs_get (cur a) i = read_record D os_ok e i"
    using docs_get_of [OF ix b(3) os_ok_reads_ok] cur by simp
  note eff = tombstone_effect [OF core del]
  show ?thesis
  proof (cases "i |\<in>| dead (se_index e) \<or> fmlookup (offsets (se_index e)) i = None")
    case True
    then have "r = read_err i (se_index e) \<and> e' = e"
      using del by (auto simp: tombstone_refused)
    moreover have "docs_get (cur a) i = read_err i (se_index e)"
      using True get by (auto simp: read_record_def read_err_def)
    ultimately show ?thesis using st_del_refused [of a i] rel by (auto simp: read_err_def)
  next
    case live: False
    obtain off q where o: "fmlookup (offsets (se_index e)) i = Some off" "i |\<notin>| dead (se_index e)"
      and q: "rec_in D (content (se_file e)) (unat (se_end e)) (unat off) q" by (rule index_ok_entry [OF ix live])
    have got: "docs_get (cur a) i = Inr q"
      using get o read_record_rec_in [OF q b(3) os_ok_reads_ok] by (simp add: read_record_def)
    show ?thesis
    proof (cases r)
      case (Inl err)
      then obtain f where f: "e' = e\<lparr>se_file := f\<rparr>" "tail_write (unat (se_end e)) (se_file e) f" using eff by auto
      have "\<exists>x. err = Io x"
        using del Inl append_raw_Io [of "le_bytes 8 (raw_id i)" D os e Tombstone err e']
        unfolding tombstone_accepted [OF o] by (simp add: st_bind_Inl_iff)
      moreover have "store_rel D e' a" using outcomes_file [OF inv out f(2)] cur pend f(1) by (simp add: store_rel_def)
      ultimately show ?thesis using Inl st_del_io [OF got] by blast
    next
      case (Inr u)
      let ?rec = "\<lparr>rec_kind = Tombstone, payload = le_bytes 8 (raw_id i)\<rparr>"
      obtain e1 where a: "appended D e ?rec e1" and e': "e' = e1\<lparr>se_index := mark_dead (se_index e) i\<rparr>"
        using eff Inr by auto
      have "core_inv D e'" using tombstone_inv [OF inv del] by (simp add: engine_inv_def)
      then have "outcomes D e' (possible a)" using outcomes_appended [OF core out a] e' by simp
      then have "store_rel D e' (a\<lparr>cur := docs_del (cur a) i, pending := True\<rparr>)"
        using appended_docs(2) [OF core a] appended_sel(5) [OF a] cur e' by (simp add: store_rel_def engine_docs_def docs_of_mark_dead)
      then show ?thesis using st_del [OF got] Inr by auto
    qed
  qed
qed

text \<open>A commit keeps the documents; it makes them the only outcome, or one of the outcomes.\<close>

lemma commit_outcomes:
  assumes inv: "engine_inv D e" and bin: "bincode_ok D" and tear: "r = Inr () \<or> commit_tear_safe D e"
    and out: "outcomes D e P" and c: "commit D os e = (r, e')"
  shows "engine_docs D e' = engine_docs D e \<and>
    outcomes D e' (case r of Inr _ \<Rightarrow> (if se_dirty e then {engine_docs D e} else P)
      | Inl _ \<Rightarrow> insert (engine_docs D e) P)"
proof (cases "se_dirty e")
  case False
  then have "r = Inr ()" "e' = e" using c by (simp_all add: commit_split)
  then show ?thesis using out False by simp
next
  case True
  have core: "core_inv D e" using inv by (simp add: engine_inv_def)
  obtain q e1 where pre: "commit_prefix D os e = (q, e1)" by fastforce
  note eff = commit_prefix_effect [OF inv bin pre]
  have core1: "core_inv D e1" using eff by (simp add: engine_inv_def)
  have lo: "tail_write (unat (se_end e)) (se_file e) (se_file e1)" "se_header e1 = se_header e"
    "unat (se_end e) \<le> unat (se_end e1)" "se_index e1 = se_index e"
    using eff unfolding log_only_def by blast+
  have out1: "outcomes D e1 P" using core core1 out lo(1-3) by (rule outcomes_tail)
  have docs1: "engine_docs D e1 = engine_docs D e"
    using engine_docs_tail [OF core core_inv_bounds(3) [OF core1] lo(1)] lo(4) by (simp add: engine_docs_def)
  show ?thesis
  proof (cases q)
    case (Inl err)
    then have "r = Inl err" "e' = e1" using c True pre by (simp_all add: commit_split)
    then show ?thesis using outcomes_mono [OF out1] docs1 by auto
  next
    case (Inr pp)
    then obtain ptr p where q: "q = Inr (ptr, p)" by (cases pp) auto
    then have ptr: "ptr = se_end e" and fl: "index_flushed D e p e1" using eff by auto
    have suf: "commit_suffix D os (se_end e) p e1 = (r, e')" using c True pre q ptr by (simp add: commit_split)
    have torn: "r = Inr () \<or> torn_ok D (slot_bytes (content (se_file e)) (victim_slot (se_slots e)))
       (Header_encode (crc32 D) (next_header e p))"
      using tear fl by (auto simp: commit_tear_safe_def index_flushed_def)
    have sn: "snap D (content (se_file e1)) (next_header e p) (se_index e1)"
      using fl lo(4) unfolding index_flushed_def by metis
    note oif = outcomes_in_flight [OF core1 out1 _ sn]
    note ce = commit_suffix_effect [OF core fl torn suf]
    show ?thesis
    proof (cases r)
      case (Inl err)
      then obtain f where f: "e' = e1\<lparr>se_file := f\<rparr>" "header_in_flight D e1 (next_header e p) f" using ce by auto
      then show ?thesis using oif [OF f(2)] Inl docs1 by (simp add: engine_docs_def)
    next
      case (Inr u)
      then obtain f where f: "header_in_flight D e1 (next_header e p) f" "versions f = [content f]"
        "slot_bytes (content f) (victim_slot (se_slots e)) = Header_encode (crc32 D) (next_header e p)"
        and e': "e' = e1\<lparr>se_file := f, se_header := next_header e p,
                 se_slots := (se_slots e)[victim_slot (se_slots e) := Some (next_header e p)],
                 se_live_slot := victim_slot (se_slots e), se_dirty := False\<rparr>" using ce by auto
      have inv': "engine_inv D e'" and st': "settled D e'" using commit_done_inv [OF core fl f e'] by blast+
      have d': "engine_docs D e' = engine_docs D e" using oif(2) [OF f(1)] e' docs1 by (simp add: engine_docs_def)
      have "committed D e' (se_index e')" using clean_committed [OF inv' _ st'] e' by simp
      then have "outcomes D e' {engine_docs D e'}"
        using outcomes_settled inv' by (simp add: engine_inv_def engine_docs_def)
      then show ?thesis using d' Inr True by simp
    qed
  qed
qed

lemma format_store [simp]:
  "engine_docs (D\<lparr>bin_ser := s\<rparr>) = engine_docs D" "survives (D\<lparr>bin_ser := s\<rparr>) = survives D"
  "outcomes (D\<lparr>bin_ser := s\<rparr>) = outcomes D"
  by (simp_all add: fun_eq_iff engine_docs_def survives_def outcomes_def)

text \<open>An error of a commit keeps the engine dirty, a success leaves it clean.\<close>

lemma commit_dirty:
  assumes "engine_inv D e" and "bincode_ok D" and "r = Inr () \<or> commit_tear_safe D e" and "commit D os e = (r, e')"
  shows "se_dirty e' = (case r of Inr _ \<Rightarrow> False | Inl _ \<Rightarrow> True)" and "\<not> se_dirty e \<Longrightarrow> r = Inr () \<and> e' = e"
proof -
  show "se_dirty e' = (case r of Inr _ \<Rightarrow> False | Inl _ \<Rightarrow> True)"
  proof (cases r)
    case (Inl err)
    then show ?thesis using commit_InlD [OF assms(1,2)] assms(3,4) by simp
  next
    case (Inr u)
    have "\<not> se_dirty e'" using commit_Inr_cases [OF assms(1,2) assms(4) [unfolded Inr]] by blast
    then show ?thesis using Inr by simp
  qed
  show "\<not> se_dirty e \<Longrightarrow> r = Inr () \<and> e' = e" using assms(4) by (simp add: commit_split)
qed

lemma commit_simulates:
  assumes "engine_inv D e" and "store_rel D e a" and "bincode_ok (D\<lparr>bin_ser := s\<rparr>)"
    and "r = Inr () \<or> commit_tear_safe (D\<lparr>bin_ser := s\<rparr>) e" and "commit (D\<lparr>bin_ser := s\<rparr>) os e = (r, e')"
  shows "\<exists>b. store_event a (ECommit r) b \<and> store_rel D e' b"
proof -
  have cur: "cur a = engine_docs D e" and pend: "pending a = se_dirty e" and out: "outcomes D e (possible a)"
    using assms(2) by (simp_all add: store_rel_def)
  have res: "engine_docs D e' = engine_docs D e"
    "outcomes D e' (case r of Inr _ \<Rightarrow> (if se_dirty e then {engine_docs D e} else possible a)
       | Inl _ \<Rightarrow> insert (engine_docs D e) (possible a))"
    using commit_outcomes [of "D\<lparr>bin_ser := s\<rparr>", unfolded format_store format_inv, OF assms(1,3,4) out assms(5)]
    by blast+
  note dirty = commit_dirty [of "D\<lparr>bin_ser := s\<rparr>", unfolded format_inv, OF assms(1,3,4,5)]
  show ?thesis
  proof (cases "se_dirty e")
    case False
    then have "r = Inr ()" "e' = e" using dirty(2) by simp_all
    then show ?thesis using st_commit_nothing [of a] assms(2) False pend by blast
  next
    case True
    show ?thesis
    proof (cases r)
      case (Inl err)
      then have "store_rel D e' (a\<lparr>possible := insert (cur a) (possible a)\<rparr>)"
        using res cur dirty(1) pend True by (simp add: store_rel_def)
      then show ?thesis using Inl st_commit_failed [of a] True pend by blast
    next
      case (Inr u)
      then have "store_rel D e' (a\<lparr>possible := {cur a}, pending := False\<rparr>)"
        using res cur dirty(1) True by (simp add: store_rel_def)
      then show ?thesis using Inr st_commit [of a] True pend by (cases u) blast
    qed
  qed
qed

lemma crash_simulates:
  assumes "engine_inv D e" and "store_rel D e a" and "crash_image (se_file e) img" and "reads_ok os"
    and "engine_open D os path (Some (disk_file img)) = (Inr e', f)"
  shows "\<exists>b. store_event a ECrash b \<and> store_rel D e' b"
proof -
  have "core_inv D e" "outcomes D e (possible a)" using assms(1,2) by (simp_all add: engine_inv_def store_rel_def)
  note oc = outcomes_crash [OF this assms(3-5)]
  have "store_rel D e' \<lparr>cur = engine_docs D e', possible = {engine_docs D e'}, pending = False\<rparr>"
    using oc(2,5) by (simp add: store_rel_def)
  then show ?thesis using st_crash [OF oc(1)] by blast
qed

text \<open>A reopening finds one of the possible states and rules out none.\<close>

lemma reopen_simulates:
  assumes "engine_inv D e" and "store_rel D e a" and "reopen_safe D (se_file e)" and "reads_ok os"
    and "engine_open D os path (Some (se_file e)) = (Inr e', f)"
  shows "\<exists>b. store_event a EReopen b \<and> store_rel D e' b"
proof -
  have "outcomes D e (possible a)" using assms(2) by (simp add: store_rel_def)
  note oc = outcomes_reopen [OF assms(1) this assms(3-5)]
  have "store_rel D e' (a\<lparr>cur := engine_docs D e', pending := False\<rparr>)" using oc(2,4) by (simp add: store_rel_def)
  then show ?thesis using st_reopen [OF oc(1)] by blast
qed

lemma fresh_simulates: "store_rel D (fresh D path) new_store"
proof -
  have inv: "engine_inv D (fresh D path)" by (rule fresh_inv)
  have ix: "se_index (fresh D path) = MasterIndex_default" "\<not> se_dirty (fresh D path)" by (simp_all add: fresh_def)
  have "outcomes D (fresh D path) {no_docs}"
    using outcomes_settled [OF _ clean_committed [OF inv ix(2) fresh_settled]] inv ix
    by (simp add: engine_inv_def docs_of_default)
  then show ?thesis using ix by (simp add: store_rel_def new_store_def engine_docs_def docs_of_default)
qed

lemma get_simulates:
  assumes "engine_inv D e" and "store_rel D e a"
  shows "store_event a (EGet i (read_record D os e i)) a"
proof -
  have core: "core_inv D e" using assms(1) by (simp add: engine_inv_def)
  then have "index_ok D (content (se_file e)) (unat (se_end e)) (se_index e)" by (simp add: core_inv_def)
  then have ok: "read_record D os_ok e i = docs_get (cur a) i"
    using docs_get_of [OF _ core_inv_bounds(3) [OF core] os_ok_reads_ok] assms(2) by (simp add: store_rel_def)
  consider "read_record D os e i = read_record D os_ok e i"
    | x where "is_live (se_index e) i" "read_record D os e i = Inl (Io x)" using read_record_faulty by blast
  then show ?thesis
  proof cases
    case 1
    then show ?thesis using ok by (simp add: st_get)
  next
    case 2
    then obtain r where "docs_get (cur a) i = Inr r"
      using engine_inv_read [OF assms(1) os_ok_reads_ok, of i] ok by (auto split: sum.splits)
    then show ?thesis using 2(2) by (simp add: st_get_io)
  qed
qed

interpretation engine_store: refinement "engine_init D" "safe_event D" "engine_inv D"
  new_store store_event "store_rel D" for D
proof
  show "store_rel D e new_store" if "engine_init D e" for e
    using that open_new_Inr [of D] fresh_simulates unfolding engine_init_def by metis
  show "\<exists>b. store_event a ev b \<and> store_rel D e' b"
    if "engine_inv D e" "store_rel D e a" "safe_event D e ev e'" for e a ev e'
    using that(3)
  proof (cases rule: engine_event.cases)
    case (ev_put os k p r)
    then show ?thesis using put_simulates [OF that(1,2)] by blast
  next
    case (ev_del os i r)
    then show ?thesis using del_simulates [OF that(1,2)] by blast
  next
    case (ev_get os i)
    then show ?thesis using get_simulates [OF that(1,2)] that(2) by blast
  next
    case (ev_commit s r os)
    then show ?thesis using commit_simulates [OF that(1,2)] by (simp add: safe_commit_guard)
  next
    case (ev_reopen os path f)
    then show ?thesis
      using reopen_simulates [OF that(1,2) _ os_ok_reads_ok reopen_reads [OF that(1) ev_reopen(3)]]
      by (simp add: safe_reopen_guard)
  next
    case (ev_crash img os path f)
    then show ?thesis
      using crash_simulates [OF that(1,2) ev_crash(2) os_ok_reads_ok crash_reads [OF that(1) ev_crash(2,3)]] by blast
  qed
qed

end
