(* ===== verification/Progress.thy ===== *)
theory Progress
  imports Store_Refines
begin

text \<open>
  When operations succeed: with an operating system that reports no failure and room in the
  file, appends, deletions and commits return \<open>Ok\<close>. And what no operating system can make
  succeed: committing an index that serializes to more than a record may hold.
\<close>

section \<open>Calls on the file\<close>

lemma engine_write_ok:
  assumes "all_ok os" and "unat off + length buf \<le> max_off"
  shows "\<exists>f. engine_write os e buf off = (Inr (), e\<lparr>se_file := f\<rparr>)"
  using write_all_at_ok [OF assms, of "se_file e"]
  by (intro exI [of _ "snd (write_all_at os (se_file e) buf off)"]) (simp add: engine_write_def on_file_def)

lemma engine_sync_ok:
  assumes "all_ok os"
  shows "\<exists>f. engine_sync os e = (Inr (), e\<lparr>se_file := f\<rparr>)"
  using sync_file_ok [OF assms, of "se_file e"]
  by (intro exI [of _ "snd (sync_file os (se_file e))"]) (simp add: engine_sync_def on_file_def)

section \<open>Appends, deletions and commits\<close>

definition fits :: "StorageEngine \<Rightarrow> bytes \<Rightarrow> bool" where
  "fits e p \<longleftrightarrow> length p \<le> unat MAX_RECORD_LEN \<and> unat (se_end e) + 9 + length p \<le> max_off"

lemma append_raw_ok:
  assumes os: "all_ok os" and "fits e p"
  shows "\<exists>f. append_raw D os e k p = (Inr (se_end e), e\<lparr>se_file := f,
     se_end := se_end e + RECORD_HEADER_SIZE + of_nat (length p), se_dirty := True\<rparr>)"
proof -
  have len: "\<not> unat MAX_RECORD_LEN < length p" and room: "unat (se_end e) + 9 + length p \<le> max_off"
    using assms(2) by (simp_all add: fits_def)
  obtain f where f: "engine_write os e (encode_frame (crc32 D) k p) (se_end e) = (Inr (), e\<lparr>se_file := f\<rparr>)"
    using engine_write_ok [OF os, of "se_end e" "encode_frame (crc32 D) k p" e] room by auto
  have "unat (se_end e + RECORD_HEADER_SIZE) = unat (se_end e) + 9" using room by (simp add: word_nat max_off_def)
  then obtain g where "engine_write os (e\<lparr>se_file := f\<rparr>) p (se_end e + RECORD_HEADER_SIZE) = (Inr (), e\<lparr>se_file := g\<rparr>)"
    using engine_write_ok [OF os, of "se_end e + RECORD_HEADER_SIZE" p "e\<lparr>se_file := f\<rparr>"] room by auto
  then show ?thesis using len f by (auto simp: append_raw_def Let_def)
qed

lemma append_ok:
  assumes "all_ok os" and "fits e p"
  shows "\<exists>e'. append D os e k p = (Inr (DocId (next_doc_id (se_index e))), e')"
  using append_raw_ok [OF assms, of D k] by (auto simp: append_def allocate_id_def)

lemma tombstone_ok:
  assumes "all_ok os" and "unat (se_end e) + 17 \<le> max_off" and "is_live (se_index e) i"
  shows "\<exists>e'. tombstone D os e i = (Inr (), e')"
proof -
  have "fits e (le_bytes 8 (raw_id i))" using assms(2) by (simp add: fits_def)
  then show ?thesis
    using append_raw_ok [OF assms(1), of e _ D Tombstone] assms(3)
    by (fastforce simp: tombstone_def is_live_def)
qed

lemma commit_suffix_ok:
  assumes "all_ok os" and "victim_slot (se_slots e) < 2"
  shows "\<exists>e'. commit_suffix D os ptr p e = (Inr (), e')"
proof -
  let ?h = "\<lparr>generation = generation (se_header e) + 1, master_ptr = ptr,
                  master_len = of_nat (length p), log_end = se_end e\<rparr>"
  have "unat (slot_offset (victim_slot (se_slots e))) + 64 \<le> max_off"
    using unat_slot_offset [OF assms(2)] assms(2) by (simp add: max_off_def)
  then obtain f where f: "engine_write os e (Header_encode (crc32 D) ?h) (slot_offset (victim_slot (se_slots e))) =
      (Inr (), e\<lparr>se_file := f\<rparr>)"
    using engine_write_ok [OF assms(1), of "slot_offset (victim_slot (se_slots e))" "Header_encode (crc32 D) ?h" e]
    by auto
  obtain g where "engine_sync os (e\<lparr>se_file := f\<rparr>) = (Inr (), e\<lparr>se_file := g\<rparr>)"
    using engine_sync_ok [OF assms(1), of "e\<lparr>se_file := f\<rparr>"] by auto
  then show ?thesis using f by (simp add: commit_suffix_def Let_def)
qed

lemma commit_ok:
  assumes inv: "engine_inv D e" and os: "all_ok os" and enc: "idx_encode D (se_index e) = Inr p" and "fits e p"
  shows "\<exists>e'. commit D os e = (Inr (), e')"
proof (cases "se_dirty e")
  case False
  then show ?thesis by (simp add: commit_split)
next
  case True
  obtain f where f: "engine_sync os e = (Inr (), e\<lparr>se_file := f\<rparr>)" using engine_sync_ok [OF os] by blast
  have "fits (e\<lparr>se_file := f\<rparr>) p" using assms(4) by (simp add: fits_def)
  then obtain e1 where e1: "append_raw D os (e\<lparr>se_file := f\<rparr>) MasterIndexKind p = (Inr (se_end e), e1)" "se_slots e1 = se_slots e"
    using append_raw_ok [OF os, of "e\<lparr>se_file := f\<rparr>" p D MasterIndexKind] by auto
  obtain g where g: "engine_sync os e1 = (Inr (), e1\<lparr>se_file := g\<rparr>)" using engine_sync_ok [OF os] by blast
  have pre: "commit_prefix D os e = (Inr (se_end e, p), e1\<lparr>se_file := g\<rparr>)"
    using f e1 g enc by (simp add: commit_prefix_def)
  have "victim_slot (se_slots e) < 2" using inv victim_slotD unfolding engine_inv_def core_inv_def by metis
  then obtain e' where "commit_suffix D os (se_end e) p (e1\<lparr>se_file := g\<rparr>) = (Inr (), e')"
    using commit_suffix_ok [OF os, of "e1\<lparr>se_file := g\<rparr>" D "se_end e" p] e1(2) by auto
  then show ?thesis using True pre by (simp add: commit_split)
qed

text \<open>An index that serializes to more than 64 MiB is refused before the header is touched.\<close>

lemma commit_oversized:
  assumes "se_dirty e" and "idx_encode D (se_index e) = Inr p" and "unat MAX_RECORD_LEN < length p"
  shows "\<exists>err f. commit D os e = (Inl err, e\<lparr>se_file := f\<rparr>) \<and> content f = content (se_file e) \<and>
    (err = RecordTooLarge (se_end e) (of_nat (length p)) MAX_RECORD_LEN \<or> (\<exists>x. err = Io x))"
proof -
  obtain q e1 where s: "engine_sync os e = (q, e1)" by fastforce
  obtain x f where f: "sync_file os (se_file e) = (x, f)" "q = map_err Io x" "e1 = e\<lparr>se_file := f\<rparr>"
    using engine_sync_effect [OF s] by blast
  have "content f = content (se_file e)" using sync_file_effect(1) [OF f(1)] .
  then show ?thesis
    using assms s f by (cases x) (auto simp: commit_split commit_prefix_def append_raw_def)
qed

end
