(* ===== verification/Sample_Run.thy ===== *)
theory Sample_Run
  imports Progress
begin

text \<open>
  A concrete database: created, given a document, committed. It shows that the hypotheses of
  the properties hold together. Its checksum counts nonzero bytes, which is enough to tell
  every torn write over a zeroed slot from a header.
\<close>

section \<open>Torn writes over a zeroed slot\<close>

definition nonzero_at :: "bytes \<Rightarrow> nat set" where
  "nonzero_at b = {i. i < 64 \<and> \<not> (40 \<le> i \<and> i < 44) \<and> b ! i \<noteq> 0}"

lemma finite_nonzero_at [simp]: "finite (nonzero_at b)"
  by (simp add: nonzero_at_def)

lemma card_nonzero_at: "card (nonzero_at b) \<le> 64"
  using card_mono [of "{..<64}" "nonzero_at b"] by (auto simp: nonzero_at_def)

lemma count_crc_slot:
  assumes "length b = 64"
  shows "count_crc (put_at b 40 (replicate 4 0)) = of_nat (card (nonzero_at b))"
proof -
  let ?p = "put_at b 40 (replicate 4 0)"
  have len: "length ?p = 64" using assms by (simp add: length_put_at)
  have "?p ! i = (if 40 \<le> i \<and> i < 44 then 0 else b ! i)" if "i < 64" for i
    using that assms by (auto simp: put_at_def nth_append min_def)
  then have "{i. i < length ?p \<and> ?p ! i \<noteq> 0} = nonzero_at b"
    using len by (auto simp: nonzero_at_def split: if_splits)
  then show ?thesis by (simp add: count_crc_def length_filter_conv_card)
qed

lemma drop_small:
  assumes "n < 256" and "8 \<le> k"
  shows "drop_bit k (of_nat n :: u32) = 0"
proof -
  have "(2 :: nat) ^ 8 \<le> 2 ^ k" using assms(2) by (intro power_increasing) simp_all
  then have "n < 2 ^ k" using assms(1) by simp
  then have "drop_bit k n = 0" by (simp add: drop_bit_eq_div)
  moreover have "unat (of_nat n :: u32) = n" using assms(1) by (simp add: word_nat)
  ultimately show ?thesis using take_bit_nat_eq_self [of n 32] assms(1)
    by (simp add: word_unat_eq_iff unsigned_drop_bit_eq)
qed

lemma le_bytes_small: "n < 256 \<Longrightarrow> le_bytes 4 (of_nat n :: u32) = [ucast (of_nat n :: u32), 0, 0, 0]"
proof -
  assume n: "n < 256"
  have "[0..<4] = [0, 1, 2, 3]" by (simp add: upt_rec)
  then show ?thesis using drop_small [OF n, of 8] drop_small [OF n, of 16] drop_small [OF n, of 24]
    by (simp add: le_bytes_def)
qed

lemma unat_ucast_u8_u32: "unat (ucast (w :: u8) :: u32) = unat w"
proof -
  have "unat w < 2 ^ 8" using unsigned_less [of w] by simp
  then show ?thesis by (simp add: unsigned_ucast_eq take_bit_nat_eq_self)
qed

lemma bslice_four: "length b = 64 \<Longrightarrow> bslice b 40 44 = [b ! 40, b ! 41, b ! 42, b ! 43]"
  by (rule nth_equalityI) (auto simp: length_bslice nth_bslice less_Suc_eq numeral_eq_Suc)

lemma torn_zero_slot:
  "torn_ok (sample_deps count_crc) (replicate 64 0) (Header_encode count_crc h)"
  unfolding torn_ok_def
proof (intro allI impI)
  let ?D = "sample_deps count_crc" and ?enc = "Header_encode count_crc h"
  fix b h' assume h: "mix (replicate 64 0) ?enc b \<and> slot_header ?D b = Some h'"
  then have len: "length b = 64" and mx: "\<And>i. i < 64 \<Longrightarrow> b ! i = 0 \<or> b ! i = ?enc ! i"
    by (auto simp: mix_def)
  have dec: "bslice b 0 4 = MAGIC" "count_crc (put_at b 40 (replicate 4 0)) = le_word (bslice b 40 44)"
    using h by (auto simp: slot_header_def Header_decode_def Let_def split: if_splits)
  define N where "N = card (nonzero_at ?enc)"
  define M where "M = card (nonzero_at b)"
  have small: "N < 256" "M < 256" using card_nonzero_at [of b] card_nonzero_at [of ?enc]
    by (simp_all add: N_def M_def)
  have "put_at ?enc 40 (replicate 4 0) = slot_image h 0"
    by (simp add: Header_encode_image slot_image_fields)
  then have "count_crc (slot_image h 0) = of_nat N"
    using count_crc_slot [of ?enc] by (simp add: N_def)
  then have "bslice ?enc 40 44 = [ucast (of_nat N :: u32), 0, 0, 0]"
    using le_bytes_small [OF small(1)] by (simp add: Header_encode_image slot_image_fields)
  then have e4: "?enc ! 40 = ucast (of_nat N :: u32)" "?enc ! 41 = 0" "?enc ! 42 = 0" "?enc ! 43 = 0"
    by (simp_all add: bslice_four)
  have b4: "b ! 41 = 0" "b ! 42 = 0" "b ! 43 = 0" using mx [of 41] mx [of 42] mx [of 43] e4 by auto
  have M: "of_nat M = (ucast (b ! 40) :: u32)"
    using dec(2) count_crc_slot [OF len] b4 by (simp add: M_def bslice_four [OF len])
  have "b ! 0 = bslice b 0 4 ! 0" using len nth_bslice [of 0 4 0 b] by simp
  then have "0 \<in> nonzero_at b" using dec(1) by (simp add: nonzero_at_def MAGIC_def)
  then have "M \<noteq> 0" by (auto simp: M_def)
  then have "(of_nat M :: u32) \<noteq> 0" using small(2) by (simp add: word_unat_eq_iff word_nat)
  then have "b ! 40 \<noteq> 0" using M by auto
  then have b40: "b ! 40 = ?enc ! 40" using mx [of 40] by simp
  have "unat (of_nat N :: u32) = N" using small(1) by (simp add: word_nat)
  then have "unat (ucast (of_nat N :: u32) :: u8) = N"
    using small(1) take_bit_nat_eq_self [of N 8] by (simp only: unsigned_ucast_eq) simp
  moreover have "unat (of_nat M :: u32) = M" using small(2) by (simp add: word_nat)
  then have "unat (b ! 40) = M" unfolding M unat_ucast_u8_u32 .
  ultimately have "M = N" using b40 e4(1) by simp
  moreover have sub: "nonzero_at b \<subseteq> nonzero_at ?enc" unfolding nonzero_at_def using mx by fastforce
  ultimately have same: "nonzero_at b = nonzero_at ?enc" by (simp add: M_def N_def card_subset_eq)
  have "b ! i = ?enc ! i" if i: "i < 64" for i
  proof (cases "40 \<le> i \<and> i < 44")
    case True
    then have "i = 40 \<or> i = 41 \<or> i = 42 \<or> i = 43" by linarith
    then show ?thesis using b4 b40 e4 by auto
  next
    case False
    then show ?thesis using mx [OF i] same i unfolding nonzero_at_def by fastforce
  qed
  then have "b = ?enc" using len by (intro nth_equalityI) simp_all
  then show "slot_header ?D (replicate 64 0) = Some h' \<or> b = ?enc" by simp
qed

section \<open>The sample database\<close>

definition sample_D :: deps where
  "sample_D = sample_deps count_crc"

definition sample_new :: StorageEngine where
  "sample_new = fresh sample_D ''sample.cndb''"

definition sample_doc :: bytes where
  "sample_doc = [5, 0, 0, 0, 0]"

definition sample_put :: StorageEngine where
  "sample_put = snd (append sample_D os_ok sample_new Blob sample_doc)"

definition sample_done :: StorageEngine where
  "sample_done = snd (commit sample_D os_ok sample_put)"

lemma sample_ser_eq [simp]: "sample_D\<lparr>bin_ser := bin_ser sample_D\<rparr> = sample_D"
  by (cases sample_D) simp

lemma sample_D_ok [simp]: "bincode_ok sample_D" "crc32 sample_D = count_crc"
  by (simp_all add: sample_D_def)

lemma sample_new_inv: "engine_inv sample_D sample_new" and sample_new_init: "engine_init sample_D sample_new"
  by (simp_all add: sample_new_def fresh_inv fresh_init)

lemma sample_new_sel: "se_end sample_new = 128" "se_index sample_new = MasterIndex_default"
  "se_slots sample_new = [Some Header_initial, None]" "se_header sample_new = Header_initial" "\<not> se_dirty sample_new"
  by (simp_all add: sample_new_def fresh_def LOG_START_eq)

lemma sample_new_fits: "fits sample_new sample_doc"
  by (simp add: fits_def sample_doc_def sample_new_sel max_off_def)

lemma sample_put_eq: "append sample_D os_ok sample_new Blob sample_doc = (Inr (DocId 1), sample_put)"
proof -
  obtain e' where "append sample_D os_ok sample_new Blob sample_doc = (Inr (DocId 1), e')"
    using append_ok [OF os_ok_all_ok sample_new_fits, of sample_D Blob]
    by (auto simp: sample_new_sel MasterIndex_default_def)
  then show ?thesis by (simp add: sample_put_def)
qed

lemma sample_put_inv: "engine_inv sample_D sample_put"
  using sample_new_inv sample_put_eq by (rule append_inv)

lemma sample_appended:
  obtains e1 where "appended sample_D sample_new \<lparr>rec_kind = Blob, payload = sample_doc\<rparr> e1"
    and "sample_put = e1\<lparr>se_index := idx_append MasterIndex_default 128\<rparr>"
  using append_effect [OF _ sample_put_eq] sample_new_inv by (auto simp: engine_inv_def sample_new_sel)

lemma sample_put_sel: "unat (se_end sample_put) = 142" "se_slots sample_put = [Some Header_initial, None]"
  "se_header sample_put = Header_initial" "se_dirty sample_put"
  "se_index sample_put = idx_append MasterIndex_default 128"
proof -
  obtain e1 where a: "appended sample_D sample_new \<lparr>rec_kind = Blob, payload = sample_doc\<rparr> e1"
    and e: "sample_put = e1\<lparr>se_index := idx_append MasterIndex_default 128\<rparr>" by (rule sample_appended)
  have "unat (se_end e1) = 142" using a unfolding appended_def by (simp add: sample_new_sel sample_doc_def)
  then show "unat (se_end sample_put) = 142" unfolding e by simp
  show "se_slots sample_put = [Some Header_initial, None]" "se_header sample_put = Header_initial" "se_dirty sample_put"
    "se_index sample_put = idx_append MasterIndex_default 128"
    unfolding e using appended_sel [OF a] by (simp_all add: sample_new_sel)
qed

lemma sample_put_slot: "slot_bytes (content (se_file sample_put)) 1 = replicate 64 0"
proof -
  obtain e1 where a: "appended sample_D sample_new \<lparr>rec_kind = Blob, payload = sample_doc\<rparr> e1"
    and e: "sample_put = e1\<lparr>se_index := idx_append MasterIndex_default 128\<rparr>" by (rule sample_appended)
  have "take 128 (content (se_file e1)) = take 128 (content (se_file sample_new))"
    using tail_writeD(2) [OF appended_tail [OF a]] by (simp add: sample_new_sel)
  then have "slot_bytes (content (se_file e1)) 1 = slot_bytes (content (se_file sample_new)) 1"
    by (intro slot_bytes_take [of 128]) simp_all
  then show ?thesis unfolding e using header_region_slots(2) by (simp add: sample_new_def fresh_def)
qed

lemma sample_put_tear: "commit_tear_safe sample_D sample_put"
  using torn_zero_slot sample_put_slot by (simp add: commit_tear_safe_def sample_put_sel sample_D_def)

lemma sample_put_encode: "\<exists>p. idx_encode sample_D (se_index sample_put) = Inr p \<and> length p = 40"
proof -
  let ?idx = "idx_append MasterIndex_default 128"
  have "idx_wf ?idx" using sample_put_inv by (simp add: engine_inv_def core_inv_def index_ok_def sample_put_sel)
  moreover have "fcard (fmdom (offsets ?idx)) = 1" "fcard (dead ?idx) = 0"
    by (simp_all add: idx_append_eq MasterIndex_default_def fcard.rep_eq)
  ultimately show ?thesis using sample_encode [of ?idx count_crc] by (auto simp: sample_D_def sample_put_sel fcard.rep_eq)
qed

lemma sample_done_eq: "commit sample_D os_ok sample_put = (Inr (), sample_done)"
proof -
  obtain p where "idx_encode sample_D (se_index sample_put) = Inr p" "length p = 40" using sample_put_encode by blast
  moreover from this(2) have "fits sample_put p" by (simp add: fits_def sample_put_sel max_off_def)
  ultimately obtain e' where "commit sample_D os_ok sample_put = (Inr (), e')"
    using commit_ok [OF sample_put_inv os_ok_all_ok] by blast
  then show ?thesis by (simp add: sample_done_def)
qed

lemma sample_done_inv: "engine_inv sample_D sample_done"
  using commit_inv [OF sample_put_inv sample_D_ok(1) disjI1 [OF refl] sample_done_eq] .

end
