(* ===== verification/Durability.thy ===== *)
theory Durability
  imports Sample_Run
begin

text \<open>
  What the engine guarantees across failures and power losses: it implements the transactional
  store, every state of a safe run is consistent, commits are durable and atomic, and what was not
  committed is discarded as a whole.
\<close>

section \<open>Reachable engines\<close>

text \<open>The engines of safe runs.\<close>

definition safely_reachable :: "deps \<Rightarrow> StorageEngine \<Rightarrow> bool" where
  "safely_reachable D e \<longleftrightarrow> (\<exists>e0 evs. engine_init D e0 \<and> trace (safe_event D) e0 evs e)"

lemma reach_inv: "safely_reachable D e \<Longrightarrow> engine_inv D e"
  unfolding safely_reachable_def using engine_run.reachable_inv [of D] by blast

lemma reachable_step: "safely_reachable D e \<Longrightarrow> trace (safe_event D) e evs e' \<Longrightarrow> safely_reachable D e'"
  unfolding safely_reachable_def using trace_append by metis

lemma trace_one: "safe_event D s ev t \<Longrightarrow> trace (safe_event D) s [ev] t"
  by (simp add: trace_simps)

lemma reachable_index_ok:
  "safely_reachable D e \<Longrightarrow> index_ok D (content (se_file e)) (unat (se_end e)) (se_index e)"
  using reach_inv by (simp add: engine_inv_def core_inv_def)

lemma reachable_core: "safely_reachable D e \<Longrightarrow> core_inv D e"
  using reach_inv by (simp add: engine_inv_def)

lemma inv_read:
  assumes "engine_inv D e" and "reads_ok os"
  shows "read_record D os e i = docs_get (engine_docs D e) i"
proof -
  have core: "core_inv D e" using assms(1) by (simp add: engine_inv_def)
  then have "index_ok D (content (se_file e)) (unat (se_end e)) (se_index e)" by (simp add: core_inv_def)
  then show ?thesis using core_inv_bounds(3) [OF core] assms(2) by (rule docs_get_of)
qed

lemma clean_store_rel:
  assumes "engine_inv D e" and "\<not> se_dirty e" and "settled D e"
  shows "store_rel D e \<lparr>cur = engine_docs D e, possible = {engine_docs D e}, pending = False\<rparr>"
  using outcomes_settled [OF _ clean_committed [OF assms]] assms(1,2)
  by (simp add: store_rel_def engine_inv_def engine_docs_def)

text \<open>Events that neither commit nor restart.\<close>

fun uncommitted :: "event \<Rightarrow> bool" where
  "uncommitted (EPut k p r) = True"
| "uncommitted (EDel i r) = True"
| "uncommitted (EGet i r) = True"
| "uncommitted (ECommit r) = False"
| "uncommitted EReopen = False"
| "uncommitted ECrash = False"

lemma uncommitted_possible:
  "trace store_event a evs b \<Longrightarrow> \<forall>ev\<in>set evs. uncommitted ev \<Longrightarrow>
   possible b = possible a \<and> (pending a \<longrightarrow> pending b) \<and> (pending b \<or> cur b = cur a)"
proof (induction rule: trace.induct)
  case (trace_cons s ev t evs u)
  have "possible t = possible s \<and> (pending s \<longrightarrow> pending t) \<and> (pending t \<or> cur t = cur s)"
    using trace_cons.hyps(1) trace_cons.prems by (cases rule: store_event.cases) auto
  then show ?case using trace_cons by auto
qed simp

lemma uncommitted_store_rel:
  assumes "engine_inv D e" and "\<not> se_dirty e" and "settled D e" and "trace (safe_event D) e evs e'"
    and "\<forall>ev\<in>set evs. uncommitted ev"
  shows "outcomes D e' {engine_docs D e}" and "se_dirty e' \<or> engine_docs D e' = engine_docs D e"
proof -
  obtain b where "trace store_event \<lparr>cur = engine_docs D e, possible = {engine_docs D e}, pending = False\<rparr> evs b"
    and b: "store_rel D e' b"
    using engine_store.sim_trace [OF assms(4,1) clean_store_rel [OF assms(1-3)]] by blast
  then have "possible b = {engine_docs D e}" "pending b \<or> cur b = engine_docs D e"
    using uncommitted_possible [OF _ assms(5)] by fastforce+
  then show "outcomes D e' {engine_docs D e}" "se_dirty e' \<or> engine_docs D e' = engine_docs D e"
    using b by (auto simp: store_rel_def)
qed

lemma crash_open:
  assumes inv: "engine_inv D e" and "outcomes D e P" and "crash_image (se_file e) img" and os: "reads_ok os"
  obtains e' where "engine_open D os path (Some (disk_file img)) = (Inr e', disk_file img)"
    and "engine_inv D e'" and "engine_docs D e' \<in> P" and "\<not> se_dirty e'" and "settled D e'"
proof -
  have core: "core_inv D e" using inv by (simp add: engine_inv_def)
  then have "disk_ok D (se_file e) (unat (se_end e))" by (simp add: core_inv_def)
  then obtain e' where e': "engine_open D os path (Some (disk_file img)) = (Inr e', disk_file img)"
    by (rule recover_disk_ok [OF _ assms(3) os]) blast
  note oc = outcomes_crash [OF core assms(2,3) os e']
  show thesis using that [OF e' oc(3,1,5,4)] .
qed

section \<open>The sample run\<close>

lemma sample_new_settled: "settled sample_D sample_new"
  by (simp add: sample_new_def fresh_settled)

lemma sample_put_event:
  "safe_event sample_D sample_new (EPut Blob sample_doc (Inr (DocId 1))) sample_put"
  by (rule ev_put [OF sample_put_eq])

lemma sample_commit_event: "safe_event sample_D sample_put (ECommit (Inr ())) sample_done"
  using ev_commit [where D = sample_D and s = "bin_ser sample_D"] sample_done_eq by (simp add: safe_commit_guard)

lemma sample_reachable [simp]: "safely_reachable sample_D sample_new" "safely_reachable sample_D sample_put"
  "safely_reachable sample_D sample_done"
proof -
  show 1: "safely_reachable sample_D sample_new"
    unfolding safely_reachable_def using sample_new_init trace_nil by metis
  show 2: "safely_reachable sample_D sample_put" by (rule reachable_step [OF 1 trace_one [OF sample_put_event]])
  show "safely_reachable sample_D sample_done" by (rule reachable_step [OF 2 trace_one [OF sample_commit_event]])
qed

lemma sample_done_outcomes: "outcomes sample_D sample_done {engine_docs sample_D sample_done}"
proof -
  have "\<not> se_dirty sample_done" "settled sample_D sample_done"
    using commit_Inr_cases [OF sample_put_inv _ sample_done_eq] sample_put_sel(4) by simp_all
  then show ?thesis using clean_store_rel [OF sample_done_inv] by (simp add: store_rel_def)
qed

lemma sample_crash_event: "\<exists>e. safe_event sample_D sample_done ECrash e"
  using crash_open [OF sample_done_inv sample_done_outcomes crash_image_content os_ok_reads_ok, of "''sample.cndb''"]
    ev_crash [OF crash_image_content] by metis

definition failing_sync :: os where
  "failing_sync = os_ok\<lparr>sync_fault := \<lambda>_. Some (OsError 5)\<rparr>"

lemma failing_commit: "\<exists>e. commit sample_D failing_sync sample_put = (Inl (Io (OsError 5)), e)"
  by (simp add: commit_def sample_put_sel engine_sync_def on_file_def sync_file_def failing_sync_def)

section \<open>Properties\<close>

text \<open>
  C1: the engine implements the transactional store: in a safe run, with any system call failing
  in any operation and any power loss, the results its clients see are results of the store,
  and the documents it holds are those of the store. A run is safe when every header torn by a
  commit that fails is detected by its checksum, and no process restarts without a power loss
  on a file that can still bring back a header whose log is longer than that of every header
  it shows (\<open>safe_step\<close>); the code itself checks neither.
\<close>

theorem engine_refines_store:
  assumes "engine_init D e0" and "trace (safe_event D) e0 evs e"
  shows "\<exists>s. trace store_event new_store evs s \<and> cur s = engine_docs D e"
  using engine_store.implements [OF assms] by (auto simp: store_rel_def)

theorem engine_refines_store_witness:
  "\<exists>e evs. evs = [EPut Blob sample_doc (Inr (DocId 1)), ECommit (Inr ()), ECrash] \<and>
     trace (safe_event sample_D) sample_new evs e \<and>
     (\<exists>s. trace store_event new_store evs s \<and> cur s = engine_docs sample_D e)"
proof -
  obtain e where "safe_event sample_D sample_done ECrash e" using sample_crash_event by blast
  then have t: "trace (safe_event sample_D) sample_new
      [EPut Blob sample_doc (Inr (DocId 1)), ECommit (Inr ()), ECrash] e"
    using sample_put_event sample_commit_event by (blast intro: trace_cons trace_nil)
  show ?thesis using engine_refines_store [OF sample_new_init t] t by blast
qed

text \<open>
  C4: in every state of a safe run the database is consistent: verification succeeds, every live
  document can be read, every other id is refused as deleted or unknown, and the count agrees
  with the ids. And it is so again after a power loss at that moment, in the middle of an
  operation included: whatever is left of the file opens, and the engine is then consistent,
  clean and settled.
\<close>

theorem always_consistent:
  assumes "safely_reachable D e" and "reads_ok os"
  shows "consistent D os e \<and>
    (\<forall>img. crash_image (se_file e) img \<longrightarrow>
      (\<exists>e'. engine_open D os path (Some (disk_file img)) = (Inr e', disk_file img) \<and>
        consistent D os e' \<and> \<not> is_dirty e' \<and> settled D e'))"
proof (intro conjI allI impI)
  show "consistent D os e" using engine_inv_consistent [OF reach_inv [OF assms(1)] assms(2)] .
  fix img assume img: "crash_image (se_file e) img"
  obtain e0 evs where "engine_init D e0" "trace (safe_event D) e0 evs e" using assms(1) by (auto simp: safely_reachable_def)
  then obtain b where "store_rel D e b" using engine_store.implements by blast
  then have "outcomes D e (possible b)" by (simp add: store_rel_def)
  then obtain e' where "engine_open D os path (Some (disk_file img)) = (Inr e', disk_file img)"
    "engine_inv D e'" "\<not> se_dirty e'" "settled D e'"
    by (rule crash_open [OF reach_inv [OF assms(1)] _ img assms(2)])
  then show "\<exists>e'. engine_open D os path (Some (disk_file img)) = (Inr e', disk_file img) \<and>
      consistent D os e' \<and> \<not> is_dirty e' \<and> settled D e'"
    using engine_inv_consistent assms(2) by (auto simp: is_dirty_def)
qed

theorem always_consistent_witness:
  "consistent sample_D os_ok sample_put \<and>
   (\<exists>e'. engine_open sample_D os_ok ''sample.cndb'' (Some (disk_file (content (se_file sample_put)))) =
     (Inr e', disk_file (content (se_file sample_put))) \<and> consistent sample_D os_ok e' \<and> \<not> is_dirty e' \<and> settled sample_D e')"
  using always_consistent [OF sample_reachable(2) os_ok_reads_ok, of "''sample.cndb''"] crash_image_content by blast

text \<open>What a restart finds after a commit that returned \<open>Ok\<close>.\<close>

lemma commit_settled:
  assumes "engine_inv D e" and "bincode_ok D" and "is_dirty e \<or> settled D e"
    and "commit D os e = (Inr u, e')"
  shows "settled D e'"
  using commit_Inr_cases [OF assms(1,2,4)] assms(3) by (auto simp: is_dirty_def)

lemma commit_docs:
  assumes "safely_reachable D e" and "bincode_ok D" and "r = Inr () \<or> commit_tear_safe D e" and "commit D os e = (r, e')"
  shows "engine_docs D e' = engine_docs D e"
proof -
  obtain b where "outcomes D e b"
    using assms(1) engine_store.implements unfolding safely_reachable_def store_rel_def by blast
  then show ?thesis using commit_outcomes [OF reach_inv [OF assms(1)] assms(2,3) _ assms(4)] by blast
qed

lemma commit_crash_docs:
  assumes "safely_reachable D e" and "bincode_ok D" and "is_dirty e \<or> settled D e"
    and "commit D os e = (Inr (), e')" and "crash_image (se_file e') img" and "reads_ok os'"
    and "engine_open D os' path (Some (disk_file img)) = (Inr e2, f)"
  shows "engine_inv D e2 \<and> engine_docs D e2 = engine_docs D e"
proof -
  note inv = reach_inv [OF assms(1)]
  note c = commit_Inr_cases [OF inv assms(2,4)] and st = commit_settled [OF inv assms(2-4)]
  have inv': "engine_inv D e'" and core': "core_inv D e'" and d: "\<not> se_dirty e'"
    using c by (simp_all add: engine_inv_def)
  have "outcomes D e' {engine_docs D e'}" using clean_store_rel [OF inv' d st] by (simp add: store_rel_def)
  note oc = outcomes_crash [OF core' this assms(5-7)]
  show ?thesis using oc commit_docs [OF assms(1,2) disjI1 [OF refl] assms(4)] by simp
qed

text \<open>
  C3: in a safe run a commit that returned \<open>Ok\<close> is durable, provided it had something to write or nothing was
  in flight before it: after a power loss at any later moment before the next write, the
  database opens with exactly the committed index and generation, and every document reads as
  it did before the commit.
\<close>

theorem commit_durable:
  assumes "safely_reachable D e" and "bincode_ok D" and "is_dirty e \<or> settled D e"
    and "commit D os e = (Inr (), e')" and "crash_image (se_file e') img" and "reads_ok os'"
  shows "settled D e' \<and> (\<exists>e2. engine_open D os' path (Some (disk_file img)) = (Inr e2, disk_file img) \<and>
    se_index e2 = se_index e \<and> engine_generation e2 = engine_generation e' \<and>
    (\<forall>i. read_record D os' e2 i = read_record D os' e i))"
proof -
  note inv = reach_inv [OF assms(1)]
  note c = commit_Inr_cases [OF inv assms(2,4)] and st = commit_settled [OF inv assms(2-4)]
  have inv': "engine_inv D e'" and core': "core_inv D e'" and d: "\<not> se_dirty e'"
    using c by (simp_all add: engine_inv_def)
  obtain e2 where e2: "engine_open D os' path (Some (disk_file img)) = (Inr e2, disk_file img)"
    "engine_inv D e2" "se_header e2 = se_header e'" "se_index e2 = se_index e'"
    by (rule recover_committed [OF core' clean_committed [OF inv' d st] assms(5,6)]) blast
  have "engine_docs D e2 = engine_docs D e" using commit_crash_docs [OF assms e2(1)] by blast
  then show ?thesis
    using e2 c st inv_read [OF inv assms(6)] inv_read [OF e2(2) assms(6)] by (auto simp: engine_generation_def)
qed

theorem commit_durable_witness:
  "settled sample_D sample_done \<and>
   (\<exists>e2. engine_open sample_D os_ok ''sample.cndb'' (Some (disk_file (content (se_file sample_done)))) =
       (Inr e2, disk_file (content (se_file sample_done))) \<and>
     se_index e2 = se_index sample_put \<and> engine_generation e2 = engine_generation sample_done \<and>
     (\<forall>i. read_record sample_D os_ok e2 i = read_record sample_D os_ok sample_put i))"
  by (rule commit_durable [OF sample_reachable(2) sample_D_ok(1) _ sample_done_eq
      crash_image_content os_ok_reads_ok]) (simp add: is_dirty_def sample_put_sel)

text \<open>
  C2: commits are atomic: from a committed and settled state of a safe run, after any appends and
  deletions, a commit under any failures of the operating system, and a power loss during or
  after it, every document reads as before the first of those operations or every document
  reads as before the commit; the latter when the commit returned \<open>Ok\<close>. A commit that failed
  may have torn its header, which is then detected by its checksum (\<open>commit_tear_safe\<close>).
\<close>

theorem commit_atomic:
  assumes "safely_reachable D e" and "\<not> is_dirty e" and "settled D e"
    and "trace (safe_event D) e evs e1" and "\<forall>ev\<in>set evs. uncommitted ev"
    and "bincode_ok D" and "r = Inr () \<or> commit_tear_safe D e1" and "commit D os e1 = (r, e2)"
    and "crash_image (se_file e2) img" and "reads_ok os'"
  shows "\<exists>e3. engine_open D os' path (Some (disk_file img)) = (Inr e3, disk_file img) \<and>
    ((\<forall>i. read_record D os' e3 i = read_record D os' e1 i) \<or>
     (r \<noteq> Inr () \<and> (\<forall>i. read_record D os' e3 i = read_record D os' e i)))"
proof -
  note inv = reach_inv [OF assms(1)]
  have r1: "safely_reachable D e1" using assms(1,4) by (rule reachable_step)
  then have inv1: "engine_inv D e1" by (rule reach_inv)
  have "\<not> se_dirty e" using assms(2) by (simp add: is_dirty_def)
  note u = uncommitted_store_rel [OF inv this assms(3-5)]
  let ?P = "case r of Inr _ \<Rightarrow> {engine_docs D e1} | Inl _ \<Rightarrow> insert (engine_docs D e1) {engine_docs D e}"
  have out: "outcomes D e2 ?P"
    using commit_outcomes [OF inv1 assms(6,7) u(1) assms(8)] u(2) by (cases r) (auto split: if_splits)
  have inv2: "engine_inv D e2" using commit_inv [OF inv1 assms(6,7,8)] .
  obtain e3 where e3: "engine_open D os' path (Some (disk_file img)) = (Inr e3, disk_file img)"
    "engine_inv D e3" "engine_docs D e3 \<in> ?P" by (rule crash_open [OF inv2 out assms(9,10)])
  then have "engine_docs D e3 = engine_docs D e1 \<or> (r \<noteq> Inr () \<and> engine_docs D e3 = engine_docs D e)"
    by (cases r) auto
  then show ?thesis
    using e3(1) inv_read [OF e3(2) assms(10)] inv_read [OF inv assms(10)] inv_read [OF inv1 assms(10)] by auto
qed

theorem commit_atomic_witness:
  "(\<exists>e3. engine_open sample_D os_ok ''sample.cndb'' (Some (disk_file (content (se_file sample_done)))) =
       (Inr e3, disk_file (content (se_file sample_done))) \<and>
     (\<forall>i. read_record sample_D os_ok e3 i = read_record sample_D os_ok sample_put i)) \<and>
   (\<exists>e2 e3. commit sample_D failing_sync sample_put = (Inl (Io (OsError 5)), e2) \<and>
     engine_open sample_D os_ok ''sample.cndb'' (Some (disk_file (content (se_file e2)))) =
       (Inr e3, disk_file (content (se_file e2))) \<and>
     ((\<forall>i. read_record sample_D os_ok e3 i = read_record sample_D os_ok sample_put i) \<or>
      (\<forall>i. read_record sample_D os_ok e3 i = read_record sample_D os_ok sample_new i)))"
proof -
  obtain e2 where e2: "commit sample_D failing_sync sample_put = (Inl (Io (OsError 5)), e2)" using failing_commit by blast
  have start: "\<not> is_dirty sample_new" by (simp add: is_dirty_def sample_new_sel)
  show ?thesis
    using e2 sample_put_tear
      commit_atomic [OF sample_reachable(1) start sample_new_settled trace_one [OF sample_put_event] _ sample_D_ok(1)
        disjI1 [OF refl] sample_done_eq crash_image_content os_ok_reads_ok, of "''sample.cndb''"]
      commit_atomic [OF sample_reachable(1) start sample_new_settled trace_one [OF sample_put_event] _ sample_D_ok(1)
        disjI2 [OF sample_put_tear] e2 crash_image_content os_ok_reads_ok, of "''sample.cndb''"] by auto
qed

text \<open>
  C6: what was not committed is discarded as a whole: from a committed and settled state of a
  safe run, after any appends, deletions and reads, successful or not, a power loss or a process
  that ends brings back exactly the committed state.
\<close>

theorem uncommitted_discarded:
  assumes "safely_reachable D e" and "\<not> is_dirty e" and "settled D e"
    and "trace (safe_event D) e evs e1" and "\<forall>ev\<in>set evs. uncommitted ev"
    and "crash_image (se_file e1) img" and "reads_ok os"
  shows "\<exists>e2. engine_open D os path (Some (disk_file img)) = (Inr e2, disk_file img) \<and>
    (\<forall>i. read_record D os e2 i = read_record D os e i) \<and> \<not> is_dirty e2"
proof -
  note inv = reach_inv [OF assms(1)]
  have inv1: "engine_inv D e1" by (rule reach_inv [OF reachable_step [OF assms(1,4)]])
  have "\<not> se_dirty e" using assms(2) by (simp add: is_dirty_def)
  then have "outcomes D e1 {engine_docs D e}" using uncommitted_store_rel(1) [OF inv _ assms(3-5)] by blast
  then obtain e2 where "engine_open D os path (Some (disk_file img)) = (Inr e2, disk_file img)"
    "engine_inv D e2" "engine_docs D e2 \<in> {engine_docs D e}" "\<not> se_dirty e2"
    by (rule crash_open [OF inv1 _ assms(6,7)])
  then show ?thesis using inv_read [OF inv assms(7)] inv_read [of D e2 os] assms(7) by (auto simp: is_dirty_def)
qed

theorem uncommitted_discarded_witness:
  "\<exists>e2. engine_open sample_D os_ok ''sample.cndb'' (Some (disk_file (content (se_file sample_put)))) =
       (Inr e2, disk_file (content (se_file sample_put))) \<and>
     (\<forall>i. read_record sample_D os_ok e2 i = read_record sample_D os_ok sample_new i) \<and> \<not> is_dirty e2"
  by (rule uncommitted_discarded [OF sample_reachable(1) _ sample_new_settled trace_one [OF sample_put_event] _
      crash_image_content os_ok_reads_ok])
    (simp_all add: is_dirty_def sample_new_sel)

end
