(* ===== verification/Header_Tests.thy ===== *)
theory Header_Tests
  imports Header
begin

text \<open>
  The unit tests of \<open>src/src/storage/header.rs\<close>, one definition per test function, over an
  arbitrary checksum function. A test is the conjunction of its assertions; \<open>unwrap\<close> of an error
  fails it. \<open>header_tests\<close> shows that they pass, for every checksum that detects the change of
  a single byte.
\<close>

section \<open>Assertions on results\<close>

text \<open>\<open>r.unwrap()\<close>, with the rest of the test as a function of the value.\<close>

fun unwrap :: "'e + 'a \<Rightarrow> ('a \<Rightarrow> bool) \<Rightarrow> bool" where
  "unwrap (Inr x) k = k x"
| "unwrap (Inl _) k = False"

fun is_err :: "'e + 'a \<Rightarrow> bool" where
  "is_err (Inl _) = True"
| "is_err (Inr _) = False"

text \<open>\<open>assert!(matches!(r, Err(CndbError::V { .. })))\<close> for a variant \<open>V\<close> with a discriminator.\<close>

fun fails_with :: "(CndbError \<Rightarrow> bool) \<Rightarrow> CndbError + 'a \<Rightarrow> bool" where
  "fails_with v (Inl e) = v e"
| "fails_with v (Inr _) = False"

lemma unwrap_iff: "unwrap r k \<longleftrightarrow> (\<exists>x. r = Inr x \<and> k x)"
  by (cases r) auto

lemma fails_with_iff: "fails_with v r \<longleftrightarrow> (\<exists>e. r = Inl e \<and> v e)"
  by (cases r) auto

lemma is_err_iff: "is_err r \<longleftrightarrow> (\<exists>e. r = Inl e)"
  by (cases r) auto

section \<open>The tests\<close>

definition sample_header :: Header where
  "sample_header = \<lparr>generation = 7, master_ptr = 4096, master_len = 512, log_end = 4608\<rparr>"

definition layout_is_exactly_one_slot :: "(bytes \<Rightarrow> u32) \<Rightarrow> bool" where
  "layout_is_exactly_one_slot crc \<longleftrightarrow>
     length (Header_encode crc sample_header) = HEADER_SIZE \<and> LOG_START = 128"

definition header_roundtrips :: "(bytes \<Rightarrow> u32) \<Rightarrow> bool" where
  "header_roundtrips crc =
     (let h = sample_header in unwrap (Header_decode crc (Header_encode crc h) 0) (\<lambda>x. x = h))"

definition initial_header_points_past_the_header_region :: "(bytes \<Rightarrow> u32) \<Rightarrow> bool" where
  "initial_header_points_past_the_header_region crc =
     (let h = Header_initial in
      log_end h = LOG_START \<and> master_len h = 0 \<and>
      unwrap (Header_decode crc (Header_encode crc h) 0) (\<lambda>x. x = h))"

definition rejects_bad_magic :: "(bytes \<Rightarrow> u32) \<Rightarrow> bool" where
  "rejects_bad_magic crc =
     (let buf = (Header_encode crc sample_header)[0 := 88] in
      fails_with is_BadMagic (Header_decode crc buf 0))"

definition rejects_wrong_version :: "(bytes \<Rightarrow> u32) \<Rightarrow> bool" where
  "rejects_wrong_version crc =
     (let h = Header_encode crc sample_header;
          h = put_at h 4 (le_bytes 4 (0x00020000 :: u32));
          h = put_at h 40 (replicate 4 0);
          c = crc h;
          h = put_at h 40 (le_bytes 4 c)
      in fails_with is_UnsupportedVersion (Header_decode crc h 0))"

definition detects_corruption_in_every_field :: "(bytes \<Rightarrow> u32) \<Rightarrow> bool" where
  "detects_corruption_in_every_field crc =
     list_all (\<lambda>i.
       let buf = Header_encode crc sample_header; buf = buf[i := buf ! i XOR 0xFF];
           decoded = Header_decode crc buf 0
       in is_err decoded) [0..<HEADER_SIZE]"

definition live_slot_is_the_highest_generation :: bool where
  "live_slot_is_the_highest_generation =
     (let old = sample_header\<lparr>generation := 3\<rparr>; new = sample_header\<lparr>generation := 4\<rparr> in
      unwrap (select_live [Some old, Some new]) (\<lambda>(live, slot). (generation live, slot) = (4, 1)) \<and>
      unwrap (select_live [Some new, Some old]) (\<lambda>(live, slot). (generation live, slot) = (4, 0)))"

definition live_slot_ignores_a_damaged_partner :: bool where
  "live_slot_ignores_a_damaged_partner =
     (let h = sample_header in
      unwrap (select_live [None, Some h]) (\<lambda>x. snd x = 1) \<and>
      unwrap (select_live [Some h, None]) (\<lambda>x. snd x = 0) \<and>
      fails_with (\<lambda>e. e = NoValidHeader) (select_live [None, None]))"

definition victim_is_never_the_live_slot :: bool where
  "victim_is_never_the_live_slot =
     (let old = sample_header\<lparr>generation := 3\<rparr>; new = sample_header\<lparr>generation := 4\<rparr> in
      victim_slot [Some old, Some new] = 0 \<and> victim_slot [Some new, Some old] = 1 \<and>
      victim_slot [None, Some new] = 0 \<and> victim_slot [Some new, None] = 1)"

section \<open>They pass\<close>

lemma xor_ff_neq: "(b :: u8) XOR 0xFF \<noteq> b"
proof
  assume "b XOR 0xFF = b"
  then have "b XOR b = b XOR (b XOR 0xFF)" by simp
  then have "(0 :: u8) = 0xFF" unfolding xor.assoc [symmetric] by simp
  then show False by simp
qed

lemma passes_rejects_bad_magic: "rejects_bad_magic crc"
proof -
  let ?buf = "(Header_encode crc sample_header)[0 := 88]"
  have "bslice ?buf 0 4 ! 0 = 88" by (simp add: nth_bslice)
  then have "bslice ?buf 0 4 \<noteq> MAGIC" by (auto simp: MAGIC_def)
  then show ?thesis by (simp add: rejects_bad_magic_def Header_decode_BadMagic)
qed

lemma passes_rejects_wrong_version: "rejects_wrong_version crc"
proof -
  let ?v = "le_bytes 4 (0x00020000 :: u32)"
  define img where "img c = MAGIC @ ?v @ le_bytes 8 (generation sample_header) @
     le_bytes 8 (master_ptr sample_header) @ le_bytes 8 (master_len sample_header) @
     le_bytes 8 (log_end sample_header) @ le_bytes 4 (c :: u32) @ replicate 20 (0 :: u8)" for c
  have put: "put_at (slot_image sample_header c) 4 ?v = img c" for c
    by (simp add: put_at_def slot_image_def img_def)
  have img: "put_at (img c) 40 (replicate 4 0) = img 0" "put_at (img 0) 40 (le_bytes 4 c) = img c"
    "bslice (img c) 0 4 = MAGIC" "bslice (img c) 4 8 = ?v" "bslice (img c) 40 44 = le_bytes 4 c" for c
    by (simp_all add: put_at_def bslice_def img_def)
  have "Header_decode crc (img (crc (img 0))) 0 = Inl (UnsupportedVersion 0x00020000 FORMAT_VERSION)"
    by (simp add: Header_decode_def img Let_def FORMAT_VERSION_def)
  then show ?thesis by (simp add: rejects_wrong_version_def Header_encode_image put img Let_def)
qed

lemma passes_detects_corruption: "detects_one_byte crc \<Longrightarrow> detects_corruption_in_every_field crc"
  using Header_damaged [OF _ _ xor_ff_neq]
  by (auto simp: detects_corruption_in_every_field_def list_all_iff is_err_iff Let_def)

lemma header_tests:
  "layout_is_exactly_one_slot crc" "header_roundtrips crc" "initial_header_points_past_the_header_region crc"
  "rejects_bad_magic crc" "rejects_wrong_version crc"
  "detects_one_byte crc \<Longrightarrow> detects_corruption_in_every_field crc"
  "live_slot_is_the_highest_generation" "live_slot_ignores_a_damaged_partner" "victim_is_never_the_live_slot"
  using passes_rejects_bad_magic passes_rejects_wrong_version passes_detects_corruption
  by (simp_all add: layout_is_exactly_one_slot_def LOG_START_eq header_roundtrips_def header_codec.dec_enc
      initial_header_points_past_the_header_region_def live_slot_is_the_highest_generation_def
      live_slot_ignores_a_damaged_partner_def victim_is_never_the_live_slot_def)
    (simp_all add: Header_initial_def LOG_START_eq)

end
