(* ===== verification/Scenario.thy ===== *)
theory Scenario
  imports Durability Header_Tests
begin

text \<open>
  Scenarios on an undisturbed system: what the client of an engine can rely on after a
  sequence of operations none of which failed. The state of an engine is summed up by a
  \<open>view\<close>, each operation has a rule from one view to the next, and the unit tests of the engine
  and of the handle are run by these rules.
\<close>

section \<open>Views\<close>

text \<open>
  The documents a reader sees, the committed ones, whether there is something to commit, the
  generation, the live slot, the number of records in the log and in its committed part, and how
  many more small operations fit within the bounds of a test.
\<close>

record view =
  v_now :: docs
  v_saved :: docs
  v_dirty :: bool
  v_gen :: nat
  v_slot :: nat
  v_count :: nat
  v_kept :: nat
  v_room :: nat

definition roomy :: "StorageEngine \<Rightarrow> view \<Rightarrow> bool" where
  "roomy e v \<longleftrightarrow> unat (se_end e) + 4096 * v_room v \<le> 2 ^ 24 \<and>
     unat (st_next (v_now v)) + v_room v \<le> 100 \<and> unat (st_next (v_saved v)) + v_room v \<le> 100"

definition logged :: "deps \<Rightarrow> StorageEngine \<Rightarrow> view \<Rightarrow> bool" where
  "logged D e v \<longleftrightarrow>
     (\<exists>rs. log_is D (content (se_file e)) (unat (se_end e)) rs \<and> length rs = v_count v) \<and>
     (\<exists>rs. log_is D (content (se_file e)) (unat (log_end (se_header e))) rs \<and> length rs = v_kept v)"

definition shows_view :: "deps \<Rightarrow> StorageEngine \<Rightarrow> view \<Rightarrow> bool" where
  "shows_view D e v \<longleftrightarrow> engine_inv D e \<and> settled D e \<and> roomy e v \<and> logged D e v \<and>
     store_rel D e \<lparr>cur = v_now v, possible = {v_saved v}, pending = v_dirty v\<rparr> \<and>
     unat (generation (se_header e)) = v_gen v \<and> se_live_slot e = v_slot v"

lemma shows_viewD:
  assumes "shows_view D e v"
  shows "engine_inv D e" and "core_inv D e" and "settled D e" and "roomy e v"
    and "store_rel D e \<lparr>cur = v_now v, possible = {v_saved v}, pending = v_dirty v\<rparr>"
    and "engine_docs D e = v_now v" and "se_dirty e = v_dirty v" and "outcomes D e {v_saved v}"
    and "unat (generation (se_header e)) = v_gen v" and "se_live_slot e = v_slot v" and "logged D e v"
  using assms by (simp_all add: shows_view_def engine_inv_def store_rel_def)

definition view_new :: view where
  "view_new = \<lparr>v_now = no_docs, v_saved = no_docs, v_dirty = False, v_gen = 0, v_slot = 0,
     v_count = 0, v_kept = 0, v_room = 99\<rparr>"

definition view_put :: "RecordKind \<Rightarrow> bytes \<Rightarrow> view \<Rightarrow> view" where
  "view_put k p v = v\<lparr>v_now := docs_put (v_now v) \<lparr>rec_kind = k, payload = p\<rparr>, v_dirty := True,
     v_count := v_count v + 1, v_room := v_room v - 1\<rparr>"

definition view_del :: "DocId \<Rightarrow> view \<Rightarrow> view" where
  "view_del i v = v\<lparr>v_now := docs_del (v_now v) i, v_dirty := True,
     v_count := v_count v + 1, v_room := v_room v - 1\<rparr>"

definition view_commit :: "view \<Rightarrow> view" where
  "view_commit v = v\<lparr>v_saved := v_now v, v_dirty := False, v_gen := v_gen v + 1,
     v_slot := 1 - v_slot v, v_count := v_count v + 1, v_kept := v_count v + 1, v_room := v_room v - 1\<rparr>"

definition view_reopen :: "view \<Rightarrow> view" where
  "view_reopen v = v\<lparr>v_now := v_saved v, v_dirty := False, v_count := v_kept v\<rparr>"

lemma view_new_sel [simp]:
  "v_now view_new = no_docs" "v_saved view_new = no_docs" "\<not> v_dirty view_new" "v_gen view_new = 0"
  "v_slot view_new = 0" "v_count view_new = 0" "v_kept view_new = 0" "v_room view_new = 99"
  by (simp_all add: view_new_def)

lemma view_put_sel [simp]:
  "v_now (view_put k p v) = docs_put (v_now v) \<lparr>rec_kind = k, payload = p\<rparr>"
  "v_saved (view_put k p v) = v_saved v" "v_dirty (view_put k p v)" "v_gen (view_put k p v) = v_gen v"
  "v_slot (view_put k p v) = v_slot v" "v_count (view_put k p v) = v_count v + 1" "v_kept (view_put k p v) = v_kept v" "v_room (view_put k p v) = v_room v - 1"
  by (simp_all add: view_put_def)

lemma view_del_sel [simp]:
  "v_now (view_del i v) = docs_del (v_now v) i" "v_saved (view_del i v) = v_saved v" "v_dirty (view_del i v)"
  "v_gen (view_del i v) = v_gen v" "v_slot (view_del i v) = v_slot v" "v_count (view_del i v) = v_count v + 1" "v_kept (view_del i v) = v_kept v" "v_room (view_del i v) = v_room v - 1"
  by (simp_all add: view_del_def)

lemma view_commit_sel [simp]:
  "v_now (view_commit v) = v_now v" "v_saved (view_commit v) = v_now v" "\<not> v_dirty (view_commit v)"
  "v_gen (view_commit v) = v_gen v + 1" "v_slot (view_commit v) = 1 - v_slot v"
  "v_count (view_commit v) = v_count v + 1" "v_kept (view_commit v) = v_count v + 1"
  "v_room (view_commit v) = v_room v - 1"
  by (simp_all add: view_commit_def)

lemma view_reopen_sel [simp]:
  "v_now (view_reopen v) = v_saved v" "v_saved (view_reopen v) = v_saved v" "\<not> v_dirty (view_reopen v)"
  "v_gen (view_reopen v) = v_gen v" "v_slot (view_reopen v) = v_slot v"
  "v_count (view_reopen v) = v_kept v" "v_kept (view_reopen v) = v_kept v" "v_room (view_reopen v) = v_room v"
  by (simp_all add: view_reopen_def)

section \<open>What a view says about queries\<close>

lemma no_docs_sel [simp]: "st_docs no_docs i = None" "st_gone no_docs = {}" "st_next no_docs = 1"
  by (simp_all add: no_docs_def)

lemma docs_put_sel [simp]:
  "st_docs (docs_put d r) = (st_docs d)(DocId (st_next d) := Some r)" "st_gone (docs_put d r) = st_gone d"
  "st_next (docs_put d r) = st_next d + 1"
  by (simp_all add: docs_put_def)

lemma docs_del_sel [simp]:
  "st_docs (docs_del d i) = (st_docs d)(i := None)" "st_gone (docs_del d i) = insert i (st_gone d)"
  "st_next (docs_del d i) = st_next d"
  by (simp_all add: docs_del_def)

lemma engine_live_docs:
  assumes "engine_inv D e"
  shows "fset (live_ids (se_index e)) = dom (st_docs (engine_docs D e))"
proof -
  have core: "core_inv D e" using assms by (simp add: engine_inv_def)
  have ix: "index_ok D (content (se_file e)) (unat (se_end e)) (se_index e)" using core by (simp add: core_inv_def)
  note b = core_inv_bounds(3) [OF core]
  have "i |\<in>| live_ids (se_index e) \<longleftrightarrow> st_docs (engine_docs D e) i \<noteq> None" for i
  proof (cases "i |\<in>| dead (se_index e) \<or> fmlookup (offsets (se_index e)) i = None")
    case True
    then show ?thesis by (auto simp: live_ids_def engine_docs_def docs_of_none dest: fmdom_notI fmdomE)
  next
    case False
    then obtain off q where o: "fmlookup (offsets (se_index e)) i = Some off" "i |\<notin>| dead (se_index e)"
      and q: "rec_in D (content (se_file e)) (unat (se_end e)) (unat off) q" by (rule index_ok_entry [OF ix])
    have "docs_get (engine_docs D e) i = Inr q"
      using inv_read [OF assms os_ok_reads_ok, of i] o read_record_rec_in [OF q b os_ok_reads_ok]
      by (simp add: read_record_def)
    then have "st_docs (engine_docs D e) i \<noteq> None" by (auto simp: docs_get_def split: if_splits option.splits)
    moreover have "i |\<in>| live_ids (se_index e)" using o by (simp add: live_ids_def fmdomI)
    ultimately show ?thesis by simp
  qed
  then show ?thesis by blast
qed

lemma shows_next: "shows_view D e v \<Longrightarrow> next_doc_id (se_index e) = st_next (v_now v)"
  using docs_of_sel(2) shows_viewD(6) unfolding engine_docs_def by metis

lemma inv_index_wf: "engine_inv D e \<Longrightarrow> idx_wf (se_index e)"
  by (simp add: engine_inv_def core_inv_def index_ok_def)

lemma shows_queries:
  assumes "shows_view D e v" and "reads_ok os"
  shows "read_record D os e i = docs_get (v_now v) i"
    and "read_doc D os e i = res_bind (docs_get (v_now v) i) (\<lambda>r. Inr (payload r))"
    and "is_dirty e = v_dirty v" and "unat (engine_generation e) = v_gen v" and "live_slot e = v_slot v"
    and "fset (engine_live_ids e) = dom (st_docs (v_now v))" and "unat (engine_len e) = card (dom (st_docs (v_now v)))"
    and "verify D os e = Inr (v_kept v)"
proof -
  note d = shows_viewD [OF assms(1)]
  show r: "read_record D os e i = docs_get (v_now v) i" for i using inv_read [OF d(1) assms(2)] d(6) by simp
  show "read_doc D os e i = res_bind (docs_get (v_now v) i) (\<lambda>r. Inr (payload r))" using r by (simp add: read_doc_def)
  show "is_dirty e = v_dirty v" "unat (engine_generation e) = v_gen v" "live_slot e = v_slot v"
    using d by (simp_all add: is_dirty_def engine_generation_def live_slot_def)
  have live: "fset (live_ids (se_index e)) = dom (st_docs (v_now v))" using engine_live_docs [OF d(1)] d(6) by simp
  then show "fset (engine_live_ids e) = dom (st_docs (v_now v))" by (simp add: engine_live_ids_def)
  show "unat (engine_len e) = card (dom (st_docs (v_now v)))"
    using counts_eq(1) [OF inv_index_wf [OF d(1)]] live by (simp add: engine_len_def fcard.rep_eq)
  show "verify D os e = Inr (v_kept v)"
    using d(11) verify_log [OF _ core_inv_bounds(3) [OF d(2)] assms(2)] by (auto simp: logged_def)
qed

section \<open>Rules for the operations\<close>

text \<open>
  \<open>unwrap_st\<close> is \<open>unwrap\<close> of the result of a method on \<open>&mut self\<close>, \<open>opened\<close> that of \<open>open\<close>;
  both go on with the rest of the scenario.
\<close>

fun unwrap_st :: "(CndbError + 'a) \<times> 's \<Rightarrow> ('a \<Rightarrow> 's \<Rightarrow> bool) \<Rightarrow> bool" where
  "unwrap_st (Inr x, s) k = k x s"
| "unwrap_st (Inl _, s) k = False"

fun opened :: "(CndbError + 's) \<times> dbfile \<Rightarrow> ('s \<Rightarrow> bool) \<Rightarrow> bool" where
  "opened (Inr s, f) k = k s"
| "opened (Inl _, f) k = False"

lemma unwrap_st_iff: "unwrap_st m k \<longleftrightarrow> (\<exists>x s. m = (Inr x, s) \<and> k x s)"
  by (cases "(m, k)" rule: unwrap_st.cases) auto

lemma opened_iff: "opened m k \<longleftrightarrow> (\<exists>s f. m = (Inr s, f) \<and> k s)"
  by (cases "(m, k)" rule: opened.cases) auto

lemma fresh_shows: "shows_view D (fresh D path) view_new"
proof -
  have "roomy (fresh D path) view_new" by (simp add: roomy_def fresh_def)
  moreover have "store_rel D (fresh D path) \<lparr>cur = no_docs, possible = {no_docs}, pending = False\<rparr>"
    using fresh_simulates [of D path] by (simp add: new_store_def)
  moreover have "log_is D (content (se_file (fresh D path))) 128 []"
    by (rule log_is_empty) (simp add: fresh_def)
  then have "logged D (fresh D path) view_new" by (simp add: logged_def fresh_def Header_initial_def)
  ultimately show ?thesis
    using fresh_inv fresh_settled by (simp add: shows_view_def) (simp add: fresh_def Header_initial_def)
qed

lemma wp_new:
  assumes "all_ok os" and "\<And>e. shows_view D e view_new \<Longrightarrow> k e"
  shows "opened (engine_open D os path None) k"
  using assms(2) [OF fresh_shows] by (simp add: open_fresh_eq [OF assms(1)])

text \<open>Appends and deletions.\<close>

lemma logged_appended:
  assumes "core_inv D e" and "logged D e v" and a: "appended D e r e1"
    and e': "se_file e' = se_file e1" "se_end e' = se_end e1" "se_header e' = se_header e"
    and v': "v_count v' = v_count v + 1" "v_kept v' = v_kept v"
  shows "logged D e' v'"
proof -
  obtain rs qs where rs: "log_is D (content (se_file e)) (unat (se_end e)) rs" "length rs = v_count v"
    and qs: "log_is D (content (se_file e)) (unat (log_end (se_header e))) qs" "length qs = v_kept v"
    using assms(2) by (auto simp: logged_def)
  have le: "unat (log_end (se_header e)) \<le> unat (se_end e)"
    using core_inv_header_ok [OF assms(1)] by (simp add: header_ok_def)
  note t = tail_writeD [OF appended_tail [OF a]]
  have "log_is D (content (se_file e1)) (unat (log_end (se_header e))) qs"
    using qs(1) bslice_take [OF le t(2)] by (rule log_is_stable) (use t(1) qs(1) in \<open>simp add: log_is_def\<close>)
  then show ?thesis using appended_log [OF rs(1) a] rs(2) qs(2) e' v' by (auto simp: logged_def)
qed

lemma tail_keeps:
  assumes "engine_inv D e" and "settled D e" and "tail_write (unat (se_end e)) (se_file e) (se_file e')"
    and "se_header e' = se_header e"
  shows "settled D e'"
  using assms settled_tail core_inv_bounds(1) [of D e] by (simp add: engine_inv_def)

lemma shows_put:
  assumes "shows_view D e v" and os: "all_ok os" and "0 < v_room v" and len: "length p \<le> unat MAX_RECORD_LEN"
    and "unat (se_end e) + 9 + length p + 4096 * (v_room v - 1) \<le> 2 ^ 24"
  shows "\<exists>e'. append D os e knd p = (Inr (DocId (st_next (v_now v))), e') \<and> shows_view D e' (view_put knd p v)"
proof -
  note d = shows_viewD [OF assms(1)]
  have "fits e p" using len assms(5) by (simp add: fits_def max_off_def)
  then obtain e' where e': "append D os e knd p = (Inr (DocId (next_doc_id (se_index e))), e')"
    using append_ok [OF os] by blast
  have nx: "next_doc_id (se_index e) = st_next (v_now v)" by (rule shows_next [OF assms(1)])
  obtain e1 where a: "appended D e \<lparr>rec_kind = knd, payload = p\<rparr> e1"
    and e1: "e' = e1\<lparr>se_index := idx_append (se_index e) (se_end e)\<rparr>" using append_effect [OF d(2) e'] by auto
  obtain b where b: "store_event \<lparr>cur = v_now v, possible = {v_saved v}, pending = v_dirty v\<rparr>
      (EPut knd p (Inr (DocId (next_doc_id (se_index e))))) b" "store_rel D e' b"
    using put_simulates [OF d(1,5) e'] by blast
  have "b = \<lparr>cur = v_now (view_put knd p v), possible = {v_saved v}, pending = True\<rparr>"
    using b(1) by (auto elim!: store_putE)
  moreover have "settled D e'"
    using tail_keeps [OF d(1,3)] appended_tail [OF a] appended_sel(2) [OF a] e1 by simp
  moreover have "roomy e' (view_put knd p v)"
  proof -
    have "unat (se_end e') = unat (se_end e) + 9 + length p" using appended_rec(2) [OF a] e1 by simp
    moreover have "unat (st_next (v_now v) + 1) = unat (st_next (v_now v)) + 1"
      using d(4) by (intro unat_succ) (simp add: roomy_def)
    ultimately show ?thesis using assms(3,5) d(4) by (cases "v_room v") (simp_all add: roomy_def)
  qed
  ultimately have "shows_view D e' (view_put knd p v)"
    using append_inv [OF d(1) e'] b(2) d(9,10) appended_sel [OF a] e1
      logged_appended [OF d(2,11) a, of e' "view_put knd p v"] by (simp add: shows_view_def)
  then show ?thesis using e' nx by simp
qed

lemma wp_put:
  assumes "shows_view D e v" and "all_ok os" and "0 < v_room v" and "length p \<le> 4000"
    and "\<And>e'. shows_view D e' (view_put knd p v) \<Longrightarrow> k (DocId (st_next (v_now v))) e'"
  shows "unwrap_st (append D os e knd p) k"
proof -
  have "unat (se_end e) + 4096 * v_room v \<le> 2 ^ 24" using shows_viewD(4) [OF assms(1)] by (simp add: roomy_def)
  then have "unat (se_end e) + 9 + length p + 4096 * (v_room v - 1) \<le> 2 ^ 24" using assms(3,4) by (cases "v_room v") auto
  then show ?thesis using shows_put [OF assms(1-3), of p knd] assms(4,5) by (auto simp: unwrap_st_iff)
qed

lemma wp_del:
  assumes "shows_view D e v" and os: "all_ok os" and "0 < v_room v" and live: "docs_get (v_now v) i = Inr r"
    and k: "\<And>e'. shows_view D e' (view_del i v) \<Longrightarrow> k () e'"
  shows "unwrap_st (tombstone D os e i) k"
proof -
  note d = shows_viewD [OF assms(1)]
  have rd: "read_record D os e i = Inr r" using shows_queries(1) [OF assms(1) all_ok_reads_ok [OF os]] live by simp
  then have "is_live (se_index e) i"
    by (auto simp: read_record_def is_live_def split: if_splits option.splits intro: fmdomI)
  moreover have se: "unat (se_end e) + 4096 * v_room v \<le> 2 ^ 24" using d(4) by (simp add: roomy_def)
  ultimately obtain e' where e': "tombstone D os e i = (Inr (), e')"
    using tombstone_ok [OF os, of e i D] by (auto simp: max_off_def)
  obtain e1 where a: "appended D e \<lparr>rec_kind = Tombstone, payload = le_bytes 8 (raw_id i)\<rparr> e1"
    and e1: "e' = e1\<lparr>se_index := mark_dead (se_index e) i\<rparr>" using tombstone_effect [OF d(2) e'] by auto
  obtain b where b: "store_event \<lparr>cur = v_now v, possible = {v_saved v}, pending = v_dirty v\<rparr> (EDel i (Inr ())) b"
    "store_rel D e' b" using del_simulates [OF d(1,5) e'] by blast
  have "b = \<lparr>cur = v_now (view_del i v), possible = {v_saved v}, pending = True\<rparr>"
    using b(1) by (auto elim!: store_delE)
  moreover have "settled D e'"
    using tail_keeps [OF d(1,3)] appended_tail [OF a] appended_sel(2) [OF a] e1 by simp
  moreover have "roomy e' (view_del i v)"
  proof -
    have "unat (se_end e') = unat (se_end e) + 17" using appended_rec(2) [OF a] e1 by simp
    then show ?thesis using assms(3) d(4) by (cases "v_room v") (simp_all add: roomy_def)
  qed
  ultimately have "shows_view D e' (view_del i v)"
    using tombstone_inv [OF d(1) e'] b(2) d(9,10) appended_sel [OF a] e1
      logged_appended [OF d(2,11) a, of e' "view_del i v"] by (simp add: shows_view_def)
  then show ?thesis using e' k by simp
qed

text \<open>Commits.\<close>

lemma wp_commit:
  assumes "shows_view D e v" and os: "all_ok os" and bin: "bincode_ok D" "bincode_total D"
    and "v_dirty v" and "0 < v_room v" and k: "\<And>e'. shows_view D e' (view_commit v) \<Longrightarrow> k () e'"
  shows "unwrap_st (commit D os e) k"
proof -
  note d = shows_viewD [OF assms(1)]
  have wf: "idx_wf (se_index e)" by (rule inv_index_wf [OF d(1)])
  obtain p where p: "idx_encode D (se_index e) = Inr p"
    "length p = 8 * (2 * fcard (fmdom (offsets (se_index e))) + fcard (dead (se_index e)) + 3)"
    by (rule bincode_totalD [OF bin(2) wf])
  have "fcard (fmdom (offsets (se_index e))) < unat (next_doc_id (se_index e))" by (rule stored_count_less [OF wf])
  moreover have "fcard (dead (se_index e)) \<le> fcard (fmdom (offsets (se_index e)))"
    using wf by (simp add: idx_wf_def fcard_mono)
  moreover have "unat (next_doc_id (se_index e)) < 100"
    using d(4) assms(6) shows_next [OF assms(1)] by (simp add: roomy_def)
  ultimately have plen: "length p \<le> 2400" unfolding p(2) by (simp add: algebra_simps)
  have se: "unat (se_end e) + 4096 * v_room v \<le> 2 ^ 24" using d(4) by (simp add: roomy_def)
  have "fits e p" using plen se by (simp add: fits_def max_off_def)
  then obtain e' where e': "commit D os e = (Inr (), e')" using commit_ok [OF d(1) os p(1)] by blast
  note c = commit_Inr_cases [OF d(1) bin(1) e']
  have dirty: "se_dirty e" using d(7) assms(5) by simp
  have inv': "engine_inv D e'" and st': "settled D e'" and cl: "\<not> se_dirty e'"
    and gen: "unat (generation (se_header e')) = unat (generation (se_header e)) + 1"
    and slot: "se_live_slot e' = victim_slot (se_slots e)" and ix: "se_index e' = se_index e"
    and le: "unat (log_end (se_header e')) = unat (se_end e) + 9 + length p"
    using c dirty p(1) by auto
  have docs: "engine_docs D e' = v_now v"
    using commit_outcomes [OF d(1) bin(1) disjI1 [OF refl] d(8) e'] d(6) by simp
  have "victim_slot (se_slots e) \<noteq> se_live_slot e \<and> victim_slot (se_slots e) < 2 \<and> se_live_slot e < 2"
    using d(2) victim_slotD core_inv_live [OF d(2)] unfolding core_inv_def by blast
  then have sl: "se_live_slot e' = 1 - v_slot v" using slot d(10) by linarith
  have end': "log_end (se_header e') = se_end e'" using inv' cl by (simp add: engine_inv_def clean_ok_def)
  obtain rs where rs: "log_is D (content (se_file e)) (unat (se_end e)) rs" "length rs = v_count v"
    using d(11) by (auto simp: logged_def)
  obtain r where "log_is D (content (se_file e')) (unat (log_end (se_header e'))) (rs @ [r])"
    using commit_log [OF d(1) bin(1) e' dirty rs(1)] by blast
  then have "\<exists>rs. log_is D (content (se_file e')) (unat (log_end (se_header e'))) rs \<and> length rs = v_count v + 1"
    using rs(2) by (intro exI [of _ "rs @ [r]"]) simp
  then have lg: "logged D e' (view_commit v)" using end' by (simp add: logged_def)
  have "roomy e' (view_commit v)" using le end' plen d(4) assms(6) by (cases "v_room v") (simp_all add: roomy_def)
  then have "shows_view D e' (view_commit v)"
    using clean_store_rel [OF inv' cl st'] docs inv' st' gen d(9) sl lg by (simp add: shows_view_def)
  then show ?thesis using e' k by simp
qed

lemma commit_clean: "shows_view D e v \<Longrightarrow> \<not> v_dirty v \<Longrightarrow> commit D os e = (Inr (), e)"
  using shows_viewD(7) by (simp add: commit_def)

text \<open>Dropping the engine and opening the file again.\<close>

lemma shows_reopen:
  assumes "shows_view D e v" and os: "reads_ok os"
  shows "\<exists>e'. engine_open D os path (Some (se_file e)) = (Inr e', se_file e) \<and> se_file e' = se_file e \<and>
    se_header e' = se_header e \<and> shows_view D e' (view_reopen v)"
proof -
  note d = shows_viewD [OF assms(1)]
  have st: "stable (se_file e) i" if "i < 2" for i using d(3) that by (simp add: settled_def)
  have safe: "reopen_safe D (se_file e)" using st by (intro stable_reopen_safe) simp
  obtain e' where e': "engine_open D os path (Some (se_file e)) = (Inr e', se_file e)" "engine_inv D e'"
    "se_file e' = se_file e" "se_live_slot e' < 2" "cand D (se_file e) (se_live_slot e') (se_header e')"
    "\<And>i k. i < 2 \<Longrightarrow> slot_header D (slot_bytes (content (se_file e)) i) = Some k \<Longrightarrow>
      generation k \<le> generation (se_header e')" "\<not> se_dirty e'"
    by (rule reopen_inv [OF d(1) safe os, of path]) blast
  note oc = outcomes_reopen [OF d(1,8) safe os e'(1)]
  have h': "slot_header D (slot_bytes (content (se_file e)) (se_live_slot e')) = Some (se_header e')"
    using e'(5) stable_cand [OF st [OF e'(4)]] by simp
  have h: "slot_header D (slot_bytes (content (se_file e)) (se_live_slot e)) = Some (se_header e)" "se_live_slot e < 2"
    using d(2) core_inv_live [OF d(2)] by (simp_all add: core_inv_def)
  have g: "generation (se_header e') = generation (se_header e)"
    using e'(6) [OF h(2,1)] d(3) h' e'(4) by (auto simp: settled_def)
  have slot: "se_live_slot e' = se_live_slot e"
  proof (rule ccontr)
    assume "se_live_slot e' \<noteq> se_live_slot e"
    moreover have "disk_ok D (se_file e) (unat (se_end e))" using d(2) by (simp add: core_inv_def)
    ultimately have "apart (se_header e') (se_header e)"
      using disk_ok_apart [OF _ e'(4) h(2)] cand_now [OF h'] cand_now [OF h(1)] by blast
    then show False using g by (simp add: apart_def)
  qed
  then have hd: "se_header e' = se_header e" using h' h(1) by simp
  have st': "settled D e'" using d(3) e'(3) hd by (simp add: settled_def)
  have docs: "engine_docs D e' = v_saved v" using oc(1) by simp
  have end': "log_end (se_header e) = se_end e'" using e'(2,7) hd by (simp add: engine_inv_def clean_ok_def)
  have lg: "logged D e' (view_reopen v)" using d(11) e'(3) hd end' by (simp add: logged_def)
  have "unat (log_end (se_header e)) \<le> unat (se_end e)"
    using core_inv_header_ok [OF d(2)] by (simp add: header_ok_def)
  then have "roomy e' (view_reopen v)" using d(4) end' by (simp add: roomy_def)
  then have "shows_view D e' (view_reopen v)"
    using clean_store_rel [OF e'(2,7) st'] docs e'(2) st' d(9,10) hd slot lg by (simp add: shows_view_def)
  then show ?thesis using e'(1,3) hd by blast
qed

lemma wp_reopen:
  assumes "shows_view D e v" and "all_ok os" and "\<And>e'. shows_view D e' (view_reopen v) \<Longrightarrow> k e'"
  shows "opened (engine_open D os path (Some (se_file e))) k"
  using shows_reopen [OF assms(1) all_ok_reads_ok [OF assms(2)], of path] assms(3) by (auto simp: opened_iff)

end
