(* ===== verification/Record_Tests.thy ===== *)
theory Record_Tests
  imports Record_Log Header_Tests
begin

text \<open>
  The unit tests of \<open>src/src/storage/record.rs\<close>, one definition per test function, over an
  arbitrary checksum function; \<open>record_tests\<close> shows that they pass.
\<close>

text \<open>The bytes of a string of ASCII characters: \<open>b"..."\<close> and \<open>as_bytes()\<close>.\<close>

definition ascii :: "string \<Rightarrow> bytes" where
  "ascii s = map (\<lambda>c. of_nat (of_char c)) s"

lemma length_ascii [simp]: "length (ascii s) = length s"
  by (simp add: ascii_def)

section \<open>The tests\<close>

definition frame_roundtrips :: "(bytes \<Rightarrow> u32) \<Rightarrow> bool" where
  "frame_roundtrips crc =
     (let p = ascii ''the quick brown fox''; frame = encode_frame crc Blob p in
      unwrap (decode_frame frame 128) (\<lambda>decoded.
        frame_len decoded = of_nat (length p) \<and> frame_kind decoded = Blob \<and>
        total_len decoded = RECORD_HEADER_SIZE + of_nat (length p) \<and>
        unwrap (verify_payload crc decoded p 128) (\<lambda>_. True)))"

definition empty_payload_is_legal :: "(bytes \<Rightarrow> u32) \<Rightarrow> bool" where
  "empty_payload_is_legal crc =
     (let frame = encode_frame crc Tombstone [] in
      unwrap (decode_frame frame 0) (\<lambda>decoded.
        frame_len decoded = 0 \<and> unwrap (verify_payload crc decoded [] 0) (\<lambda>_. True)))"

definition detects_a_single_flipped_bit_in_the_payload :: "(bytes \<Rightarrow> u32) \<Rightarrow> bool" where
  "detects_a_single_flipped_bit_in_the_payload crc =
     (let p = ascii ''cndb storage core'' in
      unwrap (decode_frame (encode_frame crc Blob p) 0) (\<lambda>frame.
        list_all (\<lambda>i.
          let corrupt = p[i := p ! i XOR 0x01]
          in fails_with is_RecordChecksum (verify_payload crc frame corrupt 0)) [0..<length p]))"

definition every_kind_survives_its_tag :: "(bytes \<Rightarrow> u32) \<Rightarrow> bool" where
  "every_kind_survives_its_tag crc =
     list_all (\<lambda>kind. unwrap (decode_frame (encode_frame crc kind (ascii ''x'')) 0)
         (\<lambda>frame. frame_kind frame = kind))
       [Node, Edge, Blob, Tombstone, MasterIndexKind]"

definition rejects_unknown_kinds :: "(bytes \<Rightarrow> u32) \<Rightarrow> bool" where
  "rejects_unknown_kinds crc =
     (let frame = encode_frame crc Blob (ascii ''x''); frame = frame[4 := 5] in
      fails_with (\<lambda>e. e = UnknownRecordKind 5 64) (decode_frame frame 64))"

definition rejects_absurd_lengths_before_allocating :: "(bytes \<Rightarrow> u32) \<Rightarrow> bool" where
  "rejects_absurd_lengths_before_allocating crc =
     (let frame = encode_frame crc Blob (ascii ''x'');
          frame = put_at frame 0 (le_bytes 4 (0xFFFFFFFF :: u32))
      in fails_with is_RecordTooLarge (decode_frame frame 0))"

definition only_user_data_counts_as_a_document :: bool where
  "only_user_data_counts_as_a_document \<longleftrightarrow>
     is_document Node \<and> is_document Edge \<and> is_document Blob \<and>
     \<not> is_document Tombstone \<and> \<not> is_document MasterIndexKind"

section \<open>They pass\<close>

lemma decode_small_frame:
  "length p \<le> 1000 \<Longrightarrow> decode_frame (encode_frame crc k p) off =
     Inr \<lparr>frame_len = of_nat (length p), frame_kind = k, frame_crc = crc p\<rparr>"
  by (rule decode_encode_frame) simp

lemma xor_one_neq: "(b :: u8) XOR 0x01 \<noteq> b"
proof
  assume "b XOR 0x01 = b"
  then have "b XOR b = b XOR (b XOR 0x01)" by simp
  then have "(0 :: u8) = 0x01" unfolding xor.assoc [symmetric] by simp
  then show False by simp
qed

lemma flipped_bit: "detects_one_byte crc \<Longrightarrow> i < length p \<Longrightarrow> crc (p[i := p ! i XOR 0x01]) \<noteq> crc p"
  using xor_one_neq [of "p ! i"] unfolding detects_one_byte_def by metis

lemma passes_flipped_bit: "detects_one_byte crc \<Longrightarrow> detects_a_single_flipped_bit_in_the_payload crc"
  using flipped_bit [of crc _ "ascii ''cndb storage core''"]
  by (simp add: detects_a_single_flipped_bit_in_the_payload_def Let_def decode_small_frame
      list_all_iff verify_payload_def)

lemma passes_unknown_kinds: "rejects_unknown_kinds crc"
proof -
  let ?f = "encode_frame crc Blob (ascii ''x'')"
  have "bslice (?f[4 := 5]) 0 4 = le_bytes 4 (1 :: u32)"
    by (simp add: encode_frame_image bslice_def list_update_append)
  moreover have "?f[4 := 5] ! 4 = 5" by simp
  ultimately have "decode_frame (?f[4 := 5]) 64 = Inl (UnknownRecordKind 5 64)"
    by (simp add: decode_frame_def from_tag_def MAX_RECORD_LEN_eq)
  then show ?thesis by (simp add: rejects_unknown_kinds_def)
qed

lemma passes_absurd_lengths: "rejects_absurd_lengths_before_allocating crc"
proof -
  let ?f = "put_at (encode_frame crc Blob (ascii ''x'')) 0 (le_bytes 4 (0xFFFFFFFF :: u32))"
  have "bslice ?f 0 4 = le_bytes 4 (0xFFFFFFFF :: u32)" by (simp add: put_at_def bslice_def)
  then have "\<exists>len. decode_frame ?f 0 = Inl (RecordTooLarge 0 len MAX_RECORD_LEN)"
    by (simp add: decode_frame_def MAX_RECORD_LEN_eq)
  then show ?thesis by (auto simp: rejects_absurd_lengths_before_allocating_def)
qed

lemma record_tests:
  "frame_roundtrips crc" "empty_payload_is_legal crc" "every_kind_survives_its_tag crc"
  "detects_one_byte crc \<Longrightarrow> detects_a_single_flipped_bit_in_the_payload crc"
  "rejects_unknown_kinds crc" "rejects_absurd_lengths_before_allocating crc"
  "only_user_data_counts_as_a_document"
  using passes_flipped_bit passes_unknown_kinds passes_absurd_lengths
  by (simp_all add: frame_roundtrips_def empty_payload_is_legal_def every_kind_survives_its_tag_def
      only_user_data_counts_as_a_document_def decode_small_frame total_len_def verify_payload_def)

end
