(* ===== verification/Engine_Tests.thy ===== *)
theory Engine_Tests
  imports Scenario Record_Tests
begin

text \<open>
  The unit tests of \<open>src/src/storage/engine.rs\<close>, one definition per test function. A test runs
  on an operating system \<open>os\<close> with the third-party functions \<open>D\<close>, on a path where there is no file
  yet; its value says that no \<open>unwrap\<close> met an error and that every assertion held. Dropping an
  engine and opening the path again hands the file of the one to the other.
\<close>

section \<open>Helpers of the tests\<close>

definition blob :: "deps \<Rightarrow> os \<Rightarrow> StorageEngine \<Rightarrow> string \<Rightarrow> DocId engine_result" where
  "blob D os engine body = append D os engine Blob (ascii body)"

text \<open>Overwriting bytes of the file behind the engine's back, and flushing them.\<close>

definition damage :: "os \<Rightarrow> dbfile \<Rightarrow> u64 \<Rightarrow> bytes \<Rightarrow> (dbfile \<Rightarrow> bool) \<Rightarrow> bool" where
  "damage os file offset bytes k =
     (case write_all_at os file bytes offset of
        (Inl _, _) \<Rightarrow> False
      | (Inr _, file) \<Rightarrow> (case sync_file os file of (Inl _, _) \<Rightarrow> False | (Inr _, file) \<Rightarrow> k file))"

text \<open>\<open>File::set_len\<close> to a smaller length: a change like a write, not flushed.\<close>

definition shrink :: "dbfile \<Rightarrow> nat \<Rightarrow> dbfile" where
  "shrink file n = file\<lparr>content := take n (content file), older := versions file\<rparr>"

text \<open>A loop whose body makes assertions and yields a value, collected in a list.\<close>

fun for_each :: "'x list \<Rightarrow> ('x \<Rightarrow> 's \<Rightarrow> ('y \<Rightarrow> 's \<Rightarrow> bool) \<Rightarrow> bool) \<Rightarrow> 's \<Rightarrow> ('y list \<Rightarrow> 's \<Rightarrow> bool) \<Rightarrow> bool" where
  "for_each [] body s k = k [] s"
| "for_each (x # xs) body s k = body x s (\<lambda>y s. for_each xs body s (\<lambda>ys s. k (y # ys) s))"

text \<open>\<open>assert_eq!(engine.read(id).unwrap(), body)\<close>.\<close>

definition reads :: "deps \<Rightarrow> os \<Rightarrow> StorageEngine \<Rightarrow> DocId \<Rightarrow> bytes \<Rightarrow> bool" where
  "reads D os engine i body = unwrap (read_doc D os engine i) (\<lambda>b. b = body)"

section \<open>The tests\<close>

definition a_new_database_starts_empty_and_valid :: "deps \<Rightarrow> os \<Rightarrow> string \<Rightarrow> bool" where
  "a_new_database_starts_empty_and_valid D os path =
     opened (engine_open D os path None) (\<lambda>engine.
       engine_generation engine = 0 \<and> engine_is_empty engine \<and> \<not> is_dirty engine \<and>
       unwrap (verify D os engine) (\<lambda>n. n = 0) \<and>
       length (content (se_file engine)) = unat LOG_START)"

definition appends_are_readable_before_they_are_committed :: "deps \<Rightarrow> os \<Rightarrow> string \<Rightarrow> bool" where
  "appends_are_readable_before_they_are_committed D os path =
     opened (engine_open D os path None) (\<lambda>engine.
     unwrap_st (blob D os engine ''hello'') (\<lambda>i engine.
       is_dirty engine \<and> reads D os engine i (ascii ''hello'') \<and> engine_len engine = 1))"

definition ids_are_unique_and_documents_do_not_collide :: "deps \<Rightarrow> os \<Rightarrow> string \<Rightarrow> bool" where
  "ids_are_unique_and_documents_do_not_collide D os path =
     opened (engine_open D os path None) (\<lambda>engine.
     for_each [0..<64] (\<lambda>i engine k. unwrap_st (blob D os engine (''doc-'' @ show_nat i)) k) engine (\<lambda>ids engine.
     unwrap_st (commit D os engine) (\<lambda>_ engine.
       card (set ids) = length ids \<and>
       list_all (\<lambda>(i, x). reads D os engine x (ascii (''doc-'' @ show_nat i))) (enumerate 0 ids))))"

definition data_survives_a_reopen :: "deps \<Rightarrow> os \<Rightarrow> string \<Rightarrow> bool" where
  "data_survives_a_reopen D os path =
     opened (engine_open D os path None) (\<lambda>engine.
     unwrap_st (blob D os engine ''durable'') (\<lambda>i engine.
     unwrap_st (commit D os engine) (\<lambda>_ engine.
     opened (engine_open D os path (Some (se_file engine))) (\<lambda>engine.
       engine_generation engine = 1 \<and> reads D os engine i (ascii ''durable'') \<and> engine_len engine = 1))))"

definition uncommitted_appends_are_lost_on_reopen :: "deps \<Rightarrow> os \<Rightarrow> string \<Rightarrow> bool" where
  "uncommitted_appends_are_lost_on_reopen D os path =
     opened (engine_open D os path None) (\<lambda>engine.
     unwrap_st (blob D os engine ''committed'') (\<lambda>kept engine.
     unwrap_st (commit D os engine) (\<lambda>_ engine.
     unwrap_st (blob D os engine ''in flight'') (\<lambda>dropped engine.
     opened (engine_open D os path (Some (se_file engine))) (\<lambda>engine.
       reads D os engine kept (ascii ''committed'') \<and>
       fails_with is_NotFound (read_doc D os engine dropped) \<and> engine_len engine = 1)))))"

definition an_uncommitted_append_is_overwritten_not_orphaned :: "deps \<Rightarrow> os \<Rightarrow> string \<Rightarrow> bool" where
  "an_uncommitted_append_is_overwritten_not_orphaned D os path =
     opened (engine_open D os path None) (\<lambda>engine.
     unwrap_st (blob D os engine ''committed'') (\<lambda>_ engine.
     unwrap_st (commit D os engine) (\<lambda>_ engine.
     unwrap_st (blob D os engine ''this text must not survive'') (\<lambda>_ engine.
     opened (engine_open D os path (Some (se_file engine))) (\<lambda>engine.
     unwrap_st (blob D os engine ''second'') (\<lambda>replacement engine.
     unwrap_st (commit D os engine) (\<lambda>_ engine.
       reads D os engine replacement (ascii ''second'') \<and>
       unwrap (verify D os engine) (\<lambda>_. True))))))))"

definition ids_do_not_restart_after_a_reopen :: "deps \<Rightarrow> os \<Rightarrow> string \<Rightarrow> bool" where
  "ids_do_not_restart_after_a_reopen D os path =
     opened (engine_open D os path None) (\<lambda>engine.
     unwrap_st (blob D os engine ''a'') (\<lambda>first engine.
     unwrap_st (commit D os engine) (\<lambda>_ engine.
     opened (engine_open D os path (Some (se_file engine))) (\<lambda>engine.
     unwrap_st (blob D os engine ''b'') (\<lambda>second engine.
       second > first \<and> reads D os engine first (ascii ''a''))))))"

definition commits_alternate_header_slots :: "deps \<Rightarrow> os \<Rightarrow> string \<Rightarrow> bool" where
  "commits_alternate_header_slots D os path =
     opened (engine_open D os path None) (\<lambda>engine. live_slot engine = 0 \<and>
     for_each [0..<6] (\<lambda>i engine k.
         unwrap_st (blob D os engine (''v'' @ show_nat i)) (\<lambda>_ engine.
         unwrap_st (commit D os engine) (\<lambda>_ engine.
           engine_generation engine = of_nat i + 1 \<and> k (live_slot engine) engine))) engine
       (\<lambda>seen engine. seen = [1, 0, 1, 0, 1, 0]))"

definition committing_nothing_does_nothing :: "deps \<Rightarrow> os \<Rightarrow> string \<Rightarrow> bool" where
  "committing_nothing_does_nothing D os path =
     opened (engine_open D os path None) (\<lambda>engine.
     unwrap_st (blob D os engine ''x'') (\<lambda>_ engine.
     unwrap_st (commit D os engine) (\<lambda>_ engine.
     let before = stats engine in
     unwrap_st (commit D os engine) (\<lambda>_ engine.
     unwrap_st (commit D os engine) (\<lambda>_ engine. stats engine = before)))))"

definition a_torn_header_falls_back_to_the_previous_generation :: "deps \<Rightarrow> os \<Rightarrow> string \<Rightarrow> bool" where
  "a_torn_header_falls_back_to_the_previous_generation D os path =
     opened (engine_open D os path None) (\<lambda>engine.
     unwrap_st (blob D os engine ''generation one'') (\<lambda>first engine.
     unwrap_st (commit D os engine) (\<lambda>_ engine.
     unwrap_st (blob D os engine ''generation two'') (\<lambda>second engine.
     unwrap_st (commit D os engine) (\<lambda>_ engine. engine_generation engine = 2 \<and>
     opened (engine_open D os path (Some (se_file engine))) (\<lambda>engine.
     let live = live_slot engine in
     damage os (se_file engine) (slot_offset live) (replicate HEADER_SIZE 0xAB) (\<lambda>file.
     opened (engine_open D os path (Some file)) (\<lambda>engine.
       engine_generation engine = 1 \<and> reads D os engine first (ascii ''generation one'') \<and>
       fails_with is_NotFound (read_doc D os engine second) \<and>
       unwrap (verify D os engine) (\<lambda>_. True)))))))))"

definition recovery_still_works_after_writing_over_the_torn_slot :: "deps \<Rightarrow> os \<Rightarrow> string \<Rightarrow> bool" where
  "recovery_still_works_after_writing_over_the_torn_slot D os path =
     opened (engine_open D os path None) (\<lambda>engine.
     unwrap_st (blob D os engine ''one'') (\<lambda>_ engine.
     unwrap_st (commit D os engine) (\<lambda>_ engine.
     unwrap_st (blob D os engine ''two'') (\<lambda>_ engine.
     unwrap_st (commit D os engine) (\<lambda>_ engine.
     opened (engine_open D os path (Some (se_file engine))) (\<lambda>engine.
     let live = live_slot engine in
     damage os (se_file engine) (slot_offset live) (replicate HEADER_SIZE 0) (\<lambda>file.
     opened (engine_open D os path (Some file)) (\<lambda>engine. engine_generation engine = 1 \<and>
     unwrap_st (blob D os engine ''three'') (\<lambda>i engine.
     unwrap_st (commit D os engine) (\<lambda>_ engine.
       engine_generation engine = 2 \<and> live_slot engine = live \<and>
     opened (engine_open D os path (Some (se_file engine))) (\<lambda>engine.
       reads D os engine i (ascii ''three''))))))))))))"

definition both_headers_destroyed_is_reported_clearly :: "deps \<Rightarrow> os \<Rightarrow> string \<Rightarrow> bool" where
  "both_headers_destroyed_is_reported_clearly D os path =
     opened (engine_open D os path None) (\<lambda>engine.
     unwrap_st (blob D os engine ''x'') (\<lambda>_ engine.
     unwrap_st (commit D os engine) (\<lambda>_ engine.
     damage os (se_file engine) 0 (replicate (HEADER_SIZE * HEADER_SLOTS) 0x7F) (\<lambda>file.
       fails_with is_BadMagic (fst (engine_open D os path (Some file)))))))"

definition a_foreign_file_is_rejected_as_not_a_database :: "deps \<Rightarrow> os \<Rightarrow> string \<Rightarrow> bool" where
  "a_foreign_file_is_rejected_as_not_a_database D os path =
     fails_with is_BadMagic (fst (engine_open D os path (Some (disk_file (replicate 4096 122)))))"

definition a_file_too_short_to_hold_headers_is_rejected :: "deps \<Rightarrow> os \<Rightarrow> string \<Rightarrow> bool" where
  "a_file_too_short_to_hold_headers_is_rejected D os path =
     fails_with is_UnexpectedEof (fst (engine_open D os path (Some (disk_file (ascii ''CNDB'')))))"

definition a_truncated_file_is_rejected_rather_than_half_read :: "deps \<Rightarrow> os \<Rightarrow> string \<Rightarrow> bool" where
  "a_truncated_file_is_rejected_rather_than_half_read D os path =
     opened (engine_open D os path None) (\<lambda>engine.
     unwrap_st (blob D os engine ''a document long enough to matter'') (\<lambda>_ engine.
     unwrap_st (commit D os engine) (\<lambda>_ engine.
     let len = length (content (se_file engine)); file = shrink (se_file engine) (len - 16) in
       fails_with is_UnexpectedEof (fst (engine_open D os path (Some file))))))"

definition corruption_in_the_payload_is_caught_on_read :: "deps \<Rightarrow> os \<Rightarrow> string \<Rightarrow> bool" where
  "corruption_in_the_payload_is_caught_on_read D os path =
     opened (engine_open D os path None) (\<lambda>engine.
     unwrap_st (blob D os engine ''the payload we will damage'') (\<lambda>i engine.
     unwrap_st (commit D os engine) (\<lambda>_ engine.
     case offset_of (engine_index engine) i of
       None \<Rightarrow> False
     | Some offset \<Rightarrow>
         damage os (se_file engine) (offset + RECORD_HEADER_SIZE + 4) (ascii ''X'') (\<lambda>file.
         opened (engine_open D os path (Some file)) (\<lambda>engine.
           fails_with is_RecordChecksum (read_doc D os engine i) \<and>
           fails_with is_RecordChecksum (verify D os engine))))))"

definition tombstones_hide_documents_and_survive_a_reopen :: "deps \<Rightarrow> os \<Rightarrow> string \<Rightarrow> bool" where
  "tombstones_hide_documents_and_survive_a_reopen D os path =
     opened (engine_open D os path None) (\<lambda>engine.
     unwrap_st (blob D os engine ''keep me'') (\<lambda>kept engine.
     unwrap_st (blob D os engine ''delete me'') (\<lambda>gone engine.
     unwrap_st (tombstone D os engine gone) (\<lambda>_ engine.
     unwrap_st (commit D os engine) (\<lambda>_ engine.
       engine_len engine = 1 \<and> fails_with is_Deleted (read_doc D os engine gone) \<and>
     opened (engine_open D os path (Some (se_file engine))) (\<lambda>engine.
       engine_len engine = 1 \<and> reads D os engine kept (ascii ''keep me'') \<and>
       fails_with is_Deleted (read_doc D os engine gone)))))))"

definition deleting_twice_or_deleting_nothing_is_an_error :: "deps \<Rightarrow> os \<Rightarrow> string \<Rightarrow> bool" where
  "deleting_twice_or_deleting_nothing_is_an_error D os path =
     opened (engine_open D os path None) (\<lambda>engine.
     unwrap_st (blob D os engine ''x'') (\<lambda>i engine.
     unwrap_st (tombstone D os engine i) (\<lambda>_ engine.
       (let (r, engine) = tombstone D os engine i in fails_with is_Deleted r \<and>
       (let (r, engine) = tombstone D os engine (DocId 9999) in fails_with is_NotFound r)))))"

definition the_master_index_does_not_disturb_the_record_stream :: "deps \<Rightarrow> os \<Rightarrow> string \<Rightarrow> bool" where
  "the_master_index_does_not_disturb_the_record_stream D os path =
     opened (engine_open D os path None) (\<lambda>engine.
     for_each [0..<5] (\<lambda>i engine k.
         unwrap_st (blob D os engine (''round-'' @ show_nat i)) (\<lambda>x engine.
         unwrap_st (commit D os engine) (\<lambda>_ engine. k x engine))) engine
       (\<lambda>ids engine.
          unwrap (verify D os engine) (\<lambda>n. n = 10) \<and>
          list_all (\<lambda>(i, x). reads D os engine x (ascii (''round-'' @ show_nat i))) (enumerate 0 ids) \<and>
          opened (engine_open D os path (Some (se_file engine))) (\<lambda>engine.
            engine_generation engine = 5 \<and> engine_len engine = 5)))"

definition every_record_kind_roundtrips :: "deps \<Rightarrow> os \<Rightarrow> string \<Rightarrow> bool" where
  "every_record_kind_roundtrips D os path =
     opened (engine_open D os path None) (\<lambda>engine.
     unwrap_st (append D os engine Node (ascii ''a node'')) (\<lambda>node engine.
     unwrap_st (append D os engine Edge (ascii ''an edge'')) (\<lambda>edge engine.
     unwrap_st (append D os engine Blob (ascii '''')) (\<lambda>empty engine.
     unwrap_st (commit D os engine) (\<lambda>_ engine.
     opened (engine_open D os path (Some (se_file engine))) (\<lambda>engine.
       unwrap (read_record D os engine node) (\<lambda>r. rec_kind r = Node) \<and>
       unwrap (read_record D os engine edge) (\<lambda>r. rec_kind r = Edge) \<and>
       reads D os engine empty (ascii '''')))))))"

definition large_payloads_roundtrip :: "deps \<Rightarrow> os \<Rightarrow> string \<Rightarrow> bool" where
  "large_payloads_roundtrip D os path =
     (let big = map (\<lambda>i. of_nat (i mod 251)) [0..<4 * 1024 * 1024] in
     opened (engine_open D os path None) (\<lambda>engine.
     unwrap_st (append D os engine Blob big) (\<lambda>i engine.
     unwrap_st (commit D os engine) (\<lambda>_ engine.
     opened (engine_open D os path (Some (se_file engine))) (\<lambda>engine. reads D os engine i big)))))"

definition oversized_payloads_are_refused :: "deps \<Rightarrow> os \<Rightarrow> string \<Rightarrow> bool" where
  "oversized_payloads_are_refused D os path =
     opened (engine_open D os path None) (\<lambda>engine.
       let too_big = replicate (unat (MAX_RECORD_LEN + 1)) 0 in
       fails_with is_RecordTooLarge (fst (append D os engine Blob too_big)))"

text \<open>One round of the last test; the result of the deletion is ignored.\<close>

definition commit_round :: "deps \<Rightarrow> os \<Rightarrow> string \<Rightarrow> nat \<Rightarrow> dbfile option \<times> DocId list \<Rightarrow>
    (unit \<Rightarrow> dbfile option \<times> DocId list \<Rightarrow> bool) \<Rightarrow> bool" where
  "commit_round D os path n = (\<lambda>(file, ids) k.
     opened (engine_open D os path file) (\<lambda>engine.
     unwrap_st (blob D os engine (''round-'' @ show_nat n)) (\<lambda>i engine.
     let ids = ids @ [i];
         engine = (if n mod 4 = 0 then snd (tombstone D os engine (ids ! 0)) else engine) in
     unwrap_st (commit D os engine) (\<lambda>_ engine.
     unwrap (verify D os engine) (\<lambda>_. k () (Some (se_file engine), ids))))))"

definition many_commits_keep_the_database_consistent :: "deps \<Rightarrow> os \<Rightarrow> string \<Rightarrow> bool" where
  "many_commits_keep_the_database_consistent D os path =
     for_each [0..<25] (commit_round D os path) (None, []) (\<lambda>_ (file, ids).
     opened (engine_open D os path file) (\<lambda>engine.
       engine_generation engine = 25 \<and> engine_len engine = 24 \<and> fcard (engine_live_ids engine) = 24))"

end
