(* ===== verification/Engine_Tests_Pass.thy ===== *)
theory Engine_Tests_Pass
  imports Engine_Tests
begin

text \<open>
  The unit tests of the storage engine pass, on every operating system that reports no failure
  and with every checksum and serializer that keep their contracts.
\<close>

section \<open>Undisturbed scenarios\<close>

lemma wp_blob:
  assumes "shows_view D e v" and "all_ok os" and "0 < v_room v" and "length body \<le> 4000"
    and "\<And>e'. shows_view D e' (view_put Blob (ascii body) v) \<Longrightarrow> k (DocId (st_next (v_now v))) e'"
  shows "unwrap_st (blob D os e body) k"
  unfolding blob_def using assms by (intro wp_put) simp_all

lemma docs_get_simps [simp]:
  "docs_get no_docs i = Inl (NotFound i)"
  "docs_get (docs_put d r) i = (if i \<in> st_gone d then Inl (Deleted i)
     else if i = DocId (st_next d) then Inr r else docs_get d i)"
  "docs_get (docs_del d i) j = (if j = i then Inl (Deleted i) else docs_get d j)"
  by (auto simp: docs_get_def)

lemma is_empty_iff: "engine_is_empty e \<longleftrightarrow> unat (engine_len e) = 0"
  by (auto simp: engine_is_empty_def word_unat_eq_iff)

lemma reads_iff: "reads D os e i b \<longleftrightarrow> read_doc D os e i = Inr b"
  by (auto simp: reads_def unwrap_iff)

lemma u64_eq_iff: "(w :: u64) = numeral n \<longleftrightarrow> unat w = unat (numeral n :: u64)" "(w :: u64) = 1 \<longleftrightarrow> unat w = 1"
  "(w :: u64) = 0 \<longleftrightarrow> unat w = 0"
  by (simp_all add: word_unat_eq_iff)

lemma dom_no_docs [simp]: "dom (st_docs no_docs) = {}"
  by auto

lemma view_state:
  assumes "shows_view D e v"
  shows "is_dirty e = v_dirty v" and "unat (engine_generation e) = v_gen v" and "live_slot e = v_slot v"
    and "fset (engine_live_ids e) = dom (st_docs (v_now v))" and "unat (engine_len e) = card (dom (st_docs (v_now v)))"
  using shows_queries [OF assms os_ok_reads_ok] by simp_all

text \<open>The contracts under which the tests run.\<close>

definition test_bed :: "deps \<Rightarrow> os \<Rightarrow> bool" where
  "test_bed D os \<longleftrightarrow> bincode_ok D \<and> bincode_total D \<and> all_ok os"

lemma bed_new: "test_bed D os \<Longrightarrow> (\<And>e. shows_view D e view_new \<Longrightarrow> k e) \<Longrightarrow> opened (engine_open D os path None) k"
  unfolding test_bed_def using wp_new by blast

lemma bed_blob:
  "shows_view D e v \<Longrightarrow> test_bed D os \<Longrightarrow> 0 < v_room v \<Longrightarrow> length body \<le> 4000 \<Longrightarrow>
   (\<And>e'. shows_view D e' (view_put Blob (ascii body) v) \<Longrightarrow> k (DocId (st_next (v_now v))) e') \<Longrightarrow>
   unwrap_st (blob D os e body) k"
  unfolding test_bed_def using wp_blob by blast

lemma bed_commit:
  "shows_view D e v \<Longrightarrow> test_bed D os \<Longrightarrow> v_dirty v \<Longrightarrow> 0 < v_room v \<Longrightarrow>
   (\<And>e'. shows_view D e' (view_commit v) \<Longrightarrow> k () e') \<Longrightarrow> unwrap_st (commit D os e) k"
  unfolding test_bed_def using wp_commit by blast

lemma bed_reopen:
  "shows_view D e v \<Longrightarrow> test_bed D os \<Longrightarrow> (\<And>e'. shows_view D e' (view_reopen v) \<Longrightarrow> k e') \<Longrightarrow>
   opened (engine_open D os path (Some (se_file e))) k"
  unfolding test_bed_def using wp_reopen by blast

lemma bed_queries:
  assumes "shows_view D e v" and "test_bed D os"
  shows "read_record D os e i = docs_get (v_now v) i"
    and "reads D os e i b \<longleftrightarrow> (\<exists>r. docs_get (v_now v) i = Inr r \<and> payload r = b)"
    and "fails_with t (read_doc D os e i) \<longleftrightarrow> (\<exists>x. docs_get (v_now v) i = Inl x \<and> t x)"
    and "verify D os e = Inr (v_kept v)"
proof -
  have "reads_ok os" using assms(2) all_ok_reads_ok by (simp add: test_bed_def)
  note q = shows_queries [OF assms(1) this]
  show "read_record D os e i = docs_get (v_now v) i" "verify D os e = Inr (v_kept v)"
    "reads D os e i b \<longleftrightarrow> (\<exists>r. docs_get (v_now v) i = Inr r \<and> payload r = b)"
    "fails_with t (read_doc D os e i) \<longleftrightarrow> (\<exists>x. docs_get (v_now v) i = Inl x \<and> t x)"
    using q by (auto simp: reads_iff res_bind_Inr_iff fails_with_iff res_bind_Inl_iff)
qed

lemmas bed_simps = bed_queries view_state u64_eq_iff

section \<open>Short scenarios\<close>

lemma passes_new_database: "all_ok os \<Longrightarrow> a_new_database_starts_empty_and_valid D os path"
  using shows_queries [OF fresh_shows all_ok_reads_ok, of os D path]
  by (simp add: a_new_database_starts_empty_and_valid_def open_fresh_eq is_empty_iff)
    (simp add: fresh_def u64_eq_iff)

lemma bed_append:
  "shows_view D e v \<Longrightarrow> test_bed D os \<Longrightarrow> 0 < v_room v \<Longrightarrow> length p \<le> 4000 \<Longrightarrow>
   (\<And>e'. shows_view D e' (view_put knd p v) \<Longrightarrow> k (DocId (st_next (v_now v))) e') \<Longrightarrow>
   unwrap_st (append D os e knd p) k"
  unfolding test_bed_def using wp_put by blast

lemma bed_del:
  "shows_view D e v \<Longrightarrow> test_bed D os \<Longrightarrow> 0 < v_room v \<Longrightarrow> \<not> isl (docs_get (v_now v) i) \<Longrightarrow>
   (\<And>e'. shows_view D e' (view_del i v) \<Longrightarrow> k () e') \<Longrightarrow> unwrap_st (tombstone D os e i) k"
  unfolding test_bed_def using wp_del by (metis sum.collapse(2))

lemma bed_del_refused:
  assumes "shows_view D e v" and "isl (docs_get (v_now v) i)"
  shows "tombstone D os e i = (map_sum id (\<lambda>_. ()) (docs_get (v_now v) i), e)"
proof -
  have "\<exists>x. read_record D os_ok e i = Inl x"
    using shows_queries(1) [OF assms(1) os_ok_reads_ok] assms(2) by (auto simp: isl_def)
  moreover have "docs_get (v_now v) i = read_record D os_ok e i"
    using shows_queries(1) [OF assms(1) os_ok_reads_ok] by simp
  moreover have "isl (read_record D os_ok e i) \<Longrightarrow> i |\<in>| dead (se_index e) \<or> fmlookup (offsets (se_index e)) i = None"
  proof (rule ccontr)
    note d = shows_viewD [OF assms(1)]
    assume l: "isl (read_record D os_ok e i)" and n: "\<not> (i |\<in>| dead (se_index e) \<or> fmlookup (offsets (se_index e)) i = None)"
    have "index_ok D (content (se_file e)) (unat (se_end e)) (se_index e)" using d(2) by (simp add: core_inv_def)
    then obtain off q where "fmlookup (offsets (se_index e)) i = Some off" "i |\<notin>| dead (se_index e)"
      "rec_in D (content (se_file e)) (unat (se_end e)) (unat off) q" using n by (rule index_ok_entry)
    then show False
      using l read_record_rec_in [OF _ core_inv_bounds(3) [OF d(2)] os_ok_reads_ok] by (auto simp: read_record_def)
  qed
  ultimately show ?thesis
    by (auto simp: tombstone_refused read_record_def read_err_def split: if_splits option.splits)
qed

lemma bed_commit_clean: "shows_view D e v \<Longrightarrow> \<not> v_dirty v \<Longrightarrow> k () e \<Longrightarrow> unwrap_st (commit D os e) k"
  by (simp add: commit_clean)

lemmas bed_steps = bed_new bed_blob bed_commit bed_reopen bed_append

lemma passes_readable: "test_bed D os \<Longrightarrow> appends_are_readable_before_they_are_committed D os path"
  unfolding appends_are_readable_before_they_are_committed_def
  by (intro bed_steps) (assumption | simp add: bed_simps)+

lemma passes_reopen: "test_bed D os \<Longrightarrow> data_survives_a_reopen D os path"
  unfolding data_survives_a_reopen_def by (intro bed_steps) (assumption | simp add: bed_simps)+

lemma passes_lost: "test_bed D os \<Longrightarrow> uncommitted_appends_are_lost_on_reopen D os path"
  unfolding uncommitted_appends_are_lost_on_reopen_def by (intro bed_steps) (assumption | simp add: bed_simps)+

lemma passes_overwritten: "test_bed D os \<Longrightarrow> an_uncommitted_append_is_overwritten_not_orphaned D os path"
  unfolding an_uncommitted_append_is_overwritten_not_orphaned_def
  by (intro bed_steps) (assumption | simp add: bed_simps)+

lemma passes_ids_continue: "test_bed D os \<Longrightarrow> ids_do_not_restart_after_a_reopen D os path"
  unfolding ids_do_not_restart_after_a_reopen_def by (intro bed_steps) (assumption | simp add: bed_simps)+

lemma passes_commit_nothing: "test_bed D os \<Longrightarrow> committing_nothing_does_nothing D os path"
  unfolding committing_nothing_does_nothing_def Let_def
  apply (intro bed_new bed_blob)
        apply (assumption | simp)+
  apply (rule bed_commit, assumption+, simp, simp)
  apply (rule bed_commit_clean, assumption, simp)
  apply (rule bed_commit_clean, assumption, simp)
  apply simp
  done

lemma passes_tombstones: "test_bed D os \<Longrightarrow> tombstones_hide_documents_and_survive_a_reopen D os path"
  unfolding tombstones_hide_documents_and_survive_a_reopen_def
  apply (intro bed_steps bed_del conjI)
  apply (assumption | simp add: bed_simps)+
  done

lemma passes_deleting_twice: "test_bed D os \<Longrightarrow> deleting_twice_or_deleting_nothing_is_an_error D os path"
  unfolding deleting_twice_or_deleting_nothing_is_an_error_def
  by (intro bed_steps bed_del) (assumption | simp add: bed_del_refused)+

lemma passes_kinds: "test_bed D os \<Longrightarrow> every_record_kind_roundtrips D os path"
  unfolding every_record_kind_roundtrips_def by (intro bed_steps) (assumption | simp add: bed_simps)+

lemma passes_oversized: "test_bed D os \<Longrightarrow> oversized_payloads_are_refused D os path"
  unfolding oversized_payloads_are_refused_def
  by (rule bed_new, assumption) (simp add: append_def append_raw_def MAX_RECORD_LEN_eq)

section \<open>Loops\<close>

lemma wp_for_each:
  assumes "I 0 [] s"
    and "\<And>i ys s k. i < length xs \<Longrightarrow> I i ys s \<Longrightarrow> (\<And>y s'. I (Suc i) (ys @ [y]) s' \<Longrightarrow> k y s') \<Longrightarrow> body (xs ! i) s k"
    and "\<And>ys s. I (length xs) ys s \<Longrightarrow> k ys s"
  shows "for_each xs body s k"
proof -
  have "for_each zs body s (\<lambda>ys' s. k (ys @ ys') s)" if "xs = ws @ zs" "I (length ws) ys s" for zs ws ys s
    using that
  proof (induction zs arbitrary: ws ys s)
    case Nil
    then show ?case using assms(3) by simp
  next
    case (Cons z zs)
    have "body (xs ! length ws) s (\<lambda>y s. for_each zs body s (\<lambda>ys' s. k (ys @ y # ys') s))"
    proof (rule assms(2) [OF _ Cons.prems(2)])
      show "length ws < length xs" using Cons.prems(1) by simp
      fix y s' assume "I (Suc (length ws)) (ys @ [y]) s'"
      then show "for_each zs body s' (\<lambda>ys' s. k (ys @ y # ys') s)"
        using Cons.IH [of "ws @ [z]" "ys @ [y]" s'] Cons.prems(1) by simp
    qed
    then show ?case using Cons.prems(1) by simp
  qed
  from this [of "[]" xs "[]" s] show ?thesis using assms(1) by simp
qed

lemma show_nat_length: "length (show_nat n) \<le> n + 1"
proof (induction n rule: show_nat.induct)
  case (1 n)
  then show ?case by (subst show_nat.simps) auto
qed

text \<open>The documents of a loop that appends \<open>f 0\<close>, \<open>f 1\<close> and so on to an empty database.\<close>

definition num :: "nat \<Rightarrow> DocId" where
  "num n = DocId (of_nat (n + 1))"

fun numbered :: "(nat \<Rightarrow> string) \<Rightarrow> nat \<Rightarrow> docs" where
  "numbered f 0 = no_docs"
| "numbered f (Suc n) = docs_put (numbered f n) \<lparr>rec_kind = Blob, payload = ascii (f n)\<rparr>"

lemma num_eq_iff: "m < 1000 \<Longrightarrow> n < 1000 \<Longrightarrow> num m = num n \<longleftrightarrow> m = n"
  by (simp add: num_def word_unat_eq_iff word_nat)

lemma numbered_next: "st_next (numbered f n) = of_nat (n + 1)"
  by (induction n) (simp_all add: add.commute)

lemma numbered_id: "DocId (st_next (numbered f n)) = num n"
  by (simp add: numbered_next num_def)

lemma numbered_gone [simp]: "st_gone (numbered f n) = {}"
  by (induction n) simp_all

lemma numbered_get: "n \<le> 1000 \<Longrightarrow> k < n \<Longrightarrow> docs_get (numbered f n) (num k) = Inr \<lparr>rec_kind = Blob, payload = ascii (f k)\<rparr>"
  by (induction n) (auto simp: numbered_id num_eq_iff less_Suc_eq)

lemma numbered_dom: "dom (st_docs (numbered f n)) = num ` {..<n}"
proof (induction n)
  case (Suc n)
  then show ?case unfolding numbered.simps docs_put_sel numbered_id dom_fun_upd by (simp add: lessThan_Suc)
qed simp

lemma num_inj: "n \<le> 1000 \<Longrightarrow> inj_on num {..<n}"
  by (auto simp: inj_on_def num_eq_iff)

lemma numbered_card: "n \<le> 1000 \<Longrightarrow> card (dom (st_docs (numbered f n))) = n"
  using card_image [OF num_inj] by (simp add: numbered_dom)

lemma enumerate_map: "enumerate m (map g [a..<b]) = zip [m..<m + (b - a)] (map g [a..<b])"
  by (simp add: enumerate_eq_zip)

lemma all_numbered:
  assumes "\<And>k. k < n \<Longrightarrow> P (k, num k)"
  shows "list_all P (enumerate 0 (map num [0..<n]))"
  using assms by (auto simp: enumerate_eq_zip list_all_iff set_zip)

lemma format_length: "n < 100 \<Longrightarrow> length s \<le> 100 \<Longrightarrow> length (s @ show_nat n) \<le> 4000"
  using show_nat_length [of n] by simp

lemma passes_ids_unique: "test_bed D os \<Longrightarrow> ids_are_unique_and_documents_do_not_collide D os path"
  unfolding ids_are_unique_and_documents_do_not_collide_def
proof (rule bed_new, assumption)
  fix e0 assume bed: "test_bed D os" and new: "shows_view D e0 view_new"
  let ?f = "\<lambda>i. ''doc-'' @ show_nat i"
  show "for_each [0..<64] (\<lambda>i engine k. unwrap_st (blob D os engine (?f i)) k) e0 (\<lambda>ids engine.
     unwrap_st (commit D os engine) (\<lambda>_ engine. card (set ids) = length ids \<and>
       list_all (\<lambda>(i, x). reads D os engine x (ascii (?f i))) (enumerate 0 ids)))"
  proof (rule wp_for_each [where I = "\<lambda>i ys e. ys = map num [0..<i] \<and> (\<exists>v. shows_view D e v \<and>
      v_now v = numbered ?f i \<and> v_room v = 99 - i \<and> (0 < i \<longrightarrow> v_dirty v))"], goal_cases)
    case 1
    show ?case using new by (intro conjI exI [of _ view_new]) simp_all
  next
    case (2 i ys e k)
    then obtain v where v: "shows_view D e v" "v_now v = numbered ?f i" "v_room v = 99 - i" "ys = map num [0..<i]" by blast
    have len: "length (?f i) \<le> 4000" using 2(1) by (intro format_length) simp_all
    have i: "[0..<64] ! i = i" using 2(1) by simp
    show ?case unfolding i
    proof (rule bed_blob [OF v(1) bed _ len])
      fix e' assume "shows_view D e' (view_put Blob (ascii (?f i)) v)"
      then show "k (DocId (st_next (v_now v))) e'"
        using v by (intro 2(3) conjI exI [of _ "view_put Blob (ascii (?f i)) v"]) (simp_all add: numbered_id)
    qed (use v(3) 2(1) in simp)
  next
    case (3 ys e)
    then obtain v where v: "shows_view D e v" "v_now v = numbered ?f 64" "v_room v = 35" "v_dirty v" "ys = map num [0..<64]"
      by auto
    have "distinct ys" using num_inj [of 64] by (simp add: v(5) distinct_map atLeast0LessThan)
    then have c: "card (set ys) = length ys" by (rule distinct_card)
    show ?case
    proof (rule bed_commit [OF v(1) bed v(4)])
      fix e' assume e': "shows_view D e' (view_commit v)"
      have "list_all (\<lambda>(i, x). reads D os e' x (ascii (?f i))) (enumerate 0 ys)"
        unfolding v(5) by (rule all_numbered) (use v(2) numbered_get [of 64] in \<open>simp add: bed_queries [OF e' bed]\<close>)
      then show "card (set ys) = length ys \<and> list_all (\<lambda>(i, x). reads D os e' x (ascii (?f i))) (enumerate 0 ys)"
        using c by simp
    qed (use v(3) in simp)
  qed
qed

lemma passes_alternate: "test_bed D os \<Longrightarrow> commits_alternate_header_slots D os path"
  unfolding commits_alternate_header_slots_def
proof (rule bed_new, assumption)
  fix e0 assume bed: "test_bed D os" and new: "shows_view D e0 view_new"
  have "for_each [0..<6] (\<lambda>i engine k.
         unwrap_st (blob D os engine (''v'' @ show_nat i)) (\<lambda>_ engine.
         unwrap_st (commit D os engine) (\<lambda>_ engine.
           engine_generation engine = of_nat i + 1 \<and> k (live_slot engine) engine))) e0
       (\<lambda>seen engine. seen = [1, 0, 1, 0, 1, 0])"
  proof (rule wp_for_each [where I = "\<lambda>i ys e. ys = map (\<lambda>k. (k + 1) mod 2) [0..<i] \<and> (\<exists>v. shows_view D e v \<and>
      v_gen v = i \<and> v_slot v = i mod 2 \<and> v_room v = 99 - 2 * i)"], goal_cases)
    case 1
    show ?case using new by (intro conjI exI [of _ view_new]) simp_all
  next
    case (2 i ys e k)
    then obtain v where v: "shows_view D e v" "v_gen v = i" "v_slot v = i mod 2" "v_room v = 99 - 2 * i"
      "ys = map (\<lambda>k. (k + 1) mod 2) [0..<i]" by blast
    have i: "[0..<6] ! i = i" "i < 6" using 2(1) by simp_all
    show ?case unfolding i(1)
    proof (rule bed_blob [OF v(1) bed])
      fix e1 assume "shows_view D e1 (view_put Blob (ascii (''v'' @ show_nat i)) v)"
      then show "unwrap_st (commit D os e1) (\<lambda>_ e. engine_generation e = of_nat i + 1 \<and> k (live_slot e) e)"
      proof (rule bed_commit [OF _ bed], goal_cases)
        case (3 e2)
        have "1 - i mod 2 = (i + 1) mod 2" by presburger
        moreover have "engine_generation e2 = of_nat i + 1"
          using view_state(2) [OF 3] v(2) i(2) by (simp add: word_unat_eq_iff word_nat)
        moreover have "live_slot e2 = (i + 1) mod 2" using view_state(3) [OF 3] v(3) calculation(1) by simp
        moreover from this have "k (live_slot e2) e2"
          using 3 v calculation(1)
          by (intro 2(3) conjI exI [of _ "view_commit (view_put Blob (ascii (''v'' @ show_nat i)) v)"]) simp_all
        ultimately show ?case by simp
      qed (use v(4) i(2) in simp_all)
    qed (use v(4) i(2) format_length [of i "''v''"] in simp_all)
  next
    case (3 ys e)
    have "[0..<6] = [0, 1, 2, 3, 4, 5]" by (simp add: upt_rec)
    then show ?case using 3 by simp
  qed
  then show "live_slot e0 = 0 \<and> for_each [0..<6] (\<lambda>i engine k.
         unwrap_st (blob D os engine (''v'' @ show_nat i)) (\<lambda>_ engine.
         unwrap_st (commit D os engine) (\<lambda>_ engine.
           engine_generation engine = of_nat i + 1 \<and> k (live_slot engine) engine))) e0
       (\<lambda>seen engine. seen = [1, 0, 1, 0, 1, 0])"
    using view_state(3) [OF new] by simp
qed

lemma passes_master_index: "test_bed D os \<Longrightarrow> the_master_index_does_not_disturb_the_record_stream D os path"
  unfolding the_master_index_does_not_disturb_the_record_stream_def
proof (rule bed_new, assumption)
  fix e0 assume bed: "test_bed D os" and new: "shows_view D e0 view_new"
  let ?f = "\<lambda>i. ''round-'' @ show_nat i"
  show "for_each [0..<5] (\<lambda>i engine k. unwrap_st (blob D os engine (?f i)) (\<lambda>x engine.
         unwrap_st (commit D os engine) (\<lambda>_ engine. k x engine))) e0
       (\<lambda>ids engine. unwrap (verify D os engine) (\<lambda>n. n = 10) \<and>
          list_all (\<lambda>(i, x). reads D os engine x (ascii (?f i))) (enumerate 0 ids) \<and>
          opened (engine_open D os path (Some (se_file engine))) (\<lambda>engine.
            engine_generation engine = 5 \<and> engine_len engine = 5))"
  proof (rule wp_for_each [where I = "\<lambda>i ys e. ys = map num [0..<i] \<and> (\<exists>v. shows_view D e v \<and>
      v_now v = numbered ?f i \<and> v_saved v = numbered ?f i \<and> v_gen v = i \<and> v_kept v = 2 * i \<and> v_count v = 2 * i \<and>
      v_room v = 99 - 2 * i)"], goal_cases)
    case 1
    show ?case using new by (intro conjI exI [of _ view_new]) simp_all
  next
    case (2 i ys e k)
    then obtain v where v: "shows_view D e v" "v_now v = numbered ?f i" "v_gen v = i" "v_count v = 2 * i"
      "v_room v = 99 - 2 * i" "ys = map num [0..<i]" by blast
    have i: "[0..<5] ! i = i" "i < 5" using 2(1) by simp_all
    show ?case unfolding i(1)
    proof (rule bed_blob [OF v(1) bed])
      fix e1 assume "shows_view D e1 (view_put Blob (ascii (?f i)) v)"
      then show "unwrap_st (commit D os e1) (\<lambda>_ engine. k (DocId (st_next (v_now v))) engine)"
      proof (rule bed_commit [OF _ bed], goal_cases)
        case (3 e2)
        then show ?case
          using v by (intro 2(3) conjI exI [of _ "view_commit (view_put Blob (ascii (?f i)) v)"]) (simp_all add: numbered_id)
      qed (use v(5) i(2) in simp_all)
    qed (use v(5) i(2) format_length [of i "''round-''"] in simp_all)
  next
    case (3 ys e)
    then obtain v where v: "shows_view D e v" "v_now v = numbered ?f 5" "v_saved v = numbered ?f 5" "v_gen v = 5"
      "v_kept v = 10" "ys = map num [0..<5]" by auto
    have "list_all (\<lambda>(i, x). reads D os e x (ascii (?f i))) (enumerate 0 ys)"
      unfolding v(6) by (rule all_numbered) (use v(2) numbered_get [of 5] in \<open>simp add: bed_queries [OF v(1) bed]\<close>)
    moreover have "opened (engine_open D os path (Some (se_file e))) (\<lambda>engine.
        engine_generation engine = 5 \<and> engine_len engine = 5)"
      by (rule bed_reopen [OF v(1) bed]) (use v(3,4) in \<open>simp add: bed_simps numbered_card del: numbered.simps\<close>)
    ultimately show ?case using v(5) by (simp add: bed_queries [OF v(1) bed])
  qed
qed

lemma large_payload:
  assumes bed: "test_bed D os" and len: "length big \<le> 4194304"
  shows "opened (engine_open D os path None) (\<lambda>engine.
     unwrap_st (append D os engine Blob big) (\<lambda>i engine.
     unwrap_st (commit D os engine) (\<lambda>_ engine.
     opened (engine_open D os path (Some (se_file engine))) (\<lambda>engine. reads D os engine i big))))"
proof -
  have os: "all_ok os" using bed by (simp add: test_bed_def)
  have "unat (se_end (fresh D path)) + 9 + length big + 4096 * (v_room view_new - 1) \<le> 2 ^ 24"
    using len by (simp add: fresh_def)
  then obtain e where e: "append D os (fresh D path) Blob big = (Inr (DocId (st_next (v_now view_new))), e)"
    and v: "shows_view D e (view_put Blob big view_new)"
    using shows_put [OF fresh_shows [of D path] os, of big Blob] len by auto
  have "unwrap_st (commit D os e) (\<lambda>_ engine.
     opened (engine_open D os path (Some (se_file engine))) (\<lambda>engine. reads D os engine (DocId 1) big))"
    using v by (intro bed_commit bed_reopen) (assumption | simp add: bed_simps bed)+
  then show ?thesis using e by (simp add: open_fresh_eq [OF os])
qed

lemma passes_large: "test_bed D os \<Longrightarrow> large_payloads_roundtrip D os path"
  unfolding large_payloads_roundtrip_def Let_def by (rule large_payload) simp_all

section \<open>Reopening in every round\<close>

text \<open>The state between two rounds: the first document is gone, the later ones are there.\<close>

definition after_rounds :: "nat \<Rightarrow> docs \<Rightarrow> bool" where
  "after_rounds i d \<longleftrightarrow> st_next d = of_nat (i + 1) \<and>
     (if i = 0 then d = no_docs else st_gone d = {num 0} \<and> dom (st_docs d) = num ` {1..<i})"

definition round_state :: "deps \<Rightarrow> nat \<Rightarrow> dbfile option \<times> DocId list \<Rightarrow> bool" where
  "round_state D i s \<longleftrightarrow> snd s = map num [0..<i] \<and>
     (if i = 0 then fst s = None
      else \<exists>e v. fst s = Some (se_file e) \<and> shows_view D e v \<and> after_rounds i (v_saved v) \<and> v_gen v = i \<and>
        99 - 3 * i \<le> v_room v)"

lemma round_open:
  assumes "round_state D i s" and bed: "test_bed D os"
    and k: "\<And>e v. shows_view D e v \<Longrightarrow> after_rounds i (v_now v) \<Longrightarrow> v_gen v = i \<Longrightarrow> 99 - 3 * i \<le> v_room v \<Longrightarrow> k e"
  shows "opened (engine_open D os path (fst s)) k"
proof (cases "i = 0")
  case True
  then have "fst s = None" using assms(1) by (simp add: round_state_def)
  then show ?thesis using bed_new [OF bed] k [of _ view_new] True by (simp add: after_rounds_def)
next
  case False
  then obtain e v where e: "fst s = Some (se_file e)" "shows_view D e v" "after_rounds i (v_saved v)" "v_gen v = i"
    "99 - 3 * i \<le> v_room v" using assms(1) by (auto simp: round_state_def)
  have "opened (engine_open D os path (Some (se_file e))) k"
    by (rule bed_reopen [OF e(2) bed]) (use k [of _ "view_reopen v"] e in simp)
  then show ?thesis using e(1) by simp
qed

lemma after_rounds_Suc:
  assumes "after_rounds i d" and "i < 100"
  shows "after_rounds (Suc i) (if i = 0 then docs_del (docs_put d r) (num 0) else docs_put d r)"
proof (cases "i = 0")
  case True
  then show ?thesis using assms by (auto simp: after_rounds_def num_def)
next
  case False
  have n: "DocId (st_next d) = num i" "st_next d = of_nat (i + 1)" using assms(1) by (simp_all add: after_rounds_def num_def)
  have "{1..<Suc i} = insert i {1..<i}" using False by auto
  then have "dom (st_docs (docs_put d r)) = num ` {1..<Suc i}"
    unfolding docs_put_sel n(1) dom_fun_upd using False assms(1) by (simp add: after_rounds_def)
  then show ?thesis using False n(2) assms(1) by (simp add: after_rounds_def)
qed

lemma round_tombstone:
  assumes "shows_view D e v" and bed: "test_bed D os" and "after_rounds i d" and "v_now v = docs_put d r" and "0 < v_room v"
  defines "e' \<equiv> if i mod 4 = 0 then snd (tombstone D os e (num 0)) else e"
  shows "\<exists>v'. shows_view D e' v' \<and> v_now v' = (if i = 0 then docs_del (docs_put d r) (num 0) else docs_put d r) \<and>
    v_gen v' = v_gen v \<and> v_room v - 1 \<le> v_room v' \<and> (v_dirty v \<longrightarrow> v_dirty v')"
proof (cases "i = 0")
  case True
  have "DocId (st_next d) = num 0" "st_gone d = {}" using assms(3) True by (simp_all add: after_rounds_def num_def)
  then have "\<not> isl (docs_get (v_now v) (num 0))" using assms(4) by simp
  then have "unwrap_st (tombstone D os e (num 0)) (\<lambda>_ e'. shows_view D e' (view_del (num 0) v))"
    by (rule bed_del [OF assms(1) bed assms(5)])
  then have "shows_view D e' (view_del (num 0) v)" using True by (auto simp: e'_def unwrap_st_iff)
  then show ?thesis using True assms(4) by (intro exI [of _ "view_del (num 0) v"]) simp
next
  case False
  then have "isl (docs_get (v_now v) (num 0))" using assms(3,4) by (simp add: after_rounds_def)
  then have "tombstone D os e (num 0) = (map_sum id (\<lambda>_. ()) (docs_get (v_now v) (num 0)), e)"
    by (rule bed_del_refused [OF assms(1)])
  then have "e' = e" by (simp add: e'_def)
  then show ?thesis using False assms(1,4) by auto
qed

lemma round_step:
  assumes "i < 25" and st: "round_state D i s" and bed: "test_bed D os"
    and k: "\<And>s'. round_state D (Suc i) s' \<Longrightarrow> k () s'"
  shows "commit_round D os path i s k"
proof -
  obtain f ids where s: "s = (f, ids)" by (cases s)
  have ids: "ids = map num [0..<i]" using st s by (simp add: round_state_def)
  have len: "length (''round-'' @ show_nat i) \<le> 4000" using assms(1) by (intro format_length) simp_all
  show ?thesis unfolding commit_round_def s Let_def prod.case
  proof (rule round_open [OF st [unfolded s] bed, unfolded fst_conv])
    fix e v assume e: "shows_view D e v" "after_rounds i (v_now v)" "v_gen v = i" "99 - 3 * i \<le> v_room v"
    then have x: "DocId (st_next (v_now v)) = num i" by (simp add: after_rounds_def num_def)
    have i0: "(ids @ [num i]) ! 0 = num 0" using ids by (cases i) (simp_all del: upt_Suc add: nth_append)
    have ys: "ids @ [num i] = map num [0..<Suc i]" using ids by simp
    show "unwrap_st (blob D os e (''round-'' @ show_nat i)) (\<lambda>x engine. unwrap_st
       (commit D os (if i mod 4 = 0 then snd (tombstone D os engine ((ids @ [x]) ! 0)) else engine))
       (\<lambda>_ engine. unwrap (verify D os engine) (\<lambda>_. k () (Some (se_file engine), ids @ [x]))))"
    proof (rule bed_blob [OF e(1) bed _ len], unfold x i0)
      let ?r = "\<lparr>rec_kind = Blob, payload = ascii (''round-'' @ show_nat i)\<rparr>"
      let ?v = "view_put Blob (ascii (''round-'' @ show_nat i)) v"
      fix e1 assume e1: "shows_view D e1 ?v"
      have "0 < v_room ?v" using e(4) assms(1) by simp
      then obtain v' where v': "shows_view D (if i mod 4 = 0 then snd (tombstone D os e1 (num 0)) else e1) v'"
        "after_rounds (Suc i) (v_now v')" "v_gen v' = i" "v_room ?v - 1 \<le> v_room v'" "v_dirty v'"
        using round_tombstone [OF e1 bed e(2), of ?r] after_rounds_Suc [OF e(2), of ?r] assms(1) e(3) by auto
      show "unwrap_st (commit D os (if i mod 4 = 0 then snd (tombstone D os e1 (num 0)) else e1))
         (\<lambda>_ engine. unwrap (verify D os engine) (\<lambda>_. k () (Some (se_file engine), ids @ [num i])))"
      proof (rule bed_commit [OF v'(1) bed v'(5)])
        fix e2 assume e2: "shows_view D e2 (view_commit v')"
        have "round_state D (Suc i) (Some (se_file e2), ids @ [num i])"
          using e2 v' e(4) ys by (auto simp: round_state_def simp del: upt_Suc intro!: exI [of _ e2] exI [of _ "view_commit v'"])
        then show "unwrap (verify D os e2) (\<lambda>_. k () (Some (se_file e2), ids @ [num i]))"
          using k by (simp add: bed_queries [OF e2 bed])
      qed (use v'(4) e(4) assms(1) in simp)
    qed (use e(4) assms(1) in simp)
  qed
qed

lemma passes_many_commits: "test_bed D os \<Longrightarrow> many_commits_keep_the_database_consistent D os path"
  unfolding many_commits_keep_the_database_consistent_def
proof (rule wp_for_each [where I = "\<lambda>i _ s. round_state D i s"], goal_cases)
  case 1
  show ?case by (simp add: round_state_def)
next
  case (2 i ys s k)
  then show ?case using round_step [of i D s os k path] by simp
next
  case (3 ys s)
  have "card (num ` {1..<25}) = 24"
    using card_image [OF inj_on_subset [OF num_inj [of 25]], of "{1..<25}"] by (simp add: subset_iff)
  moreover have "opened (engine_open D os path (fst s)) (\<lambda>engine.
      engine_generation engine = 25 \<and> engine_len engine = 24 \<and> fcard (engine_live_ids engine) = 24)"
    by (rule round_open [OF 3(2) 3(1)])
      (use calculation in \<open>simp add: after_rounds_def bed_simps fcard.rep_eq\<close>)
  ultimately show ?case by (cases s) simp
qed

end
