(* ===== verification/Operations.thy ===== *)
theory Operations
  imports Durability
begin

text \<open>
  What each operation of the engine does to the documents, on success and on failure, along
  whole runs, and within the bounds of its counters.
\<close>

section \<open>Documents under the operations\<close>

lemma docs_get_put:
  assumes "safely_reachable D e" and "append D os e k p = (Inr i, e')"
  shows "i = DocId (next_doc_id (se_index e))"
    and "engine_docs D e' = docs_put (engine_docs D e) \<lparr>rec_kind = k, payload = p\<rparr>"
    and "se_index e' = idx_append (se_index e) (se_end e)" and "is_dirty e'"
proof -
  note core = reachable_core [OF assms(1)]
  obtain e1 where a: "appended D e \<lparr>rec_kind = k, payload = p\<rparr> e1" and i: "i = DocId (next_doc_id (se_index e))"
    and e': "e' = e1\<lparr>se_index := idx_append (se_index e) (se_end e)\<rparr>"
    using append_effect [OF core assms(2)] by auto
  show "i = DocId (next_doc_id (se_index e))" by (rule i)
  show "se_index e' = idx_append (se_index e) (se_end e)" by (simp add: e')
  show "is_dirty e'" using appended_sel(5) [OF a] by (simp add: is_dirty_def e')
  show "engine_docs D e' = docs_put (engine_docs D e) \<lparr>rec_kind = k, payload = p\<rparr>"
    using appended_docs(1) [OF core a] by (simp add: engine_docs_def e')
qed

lemma docs_get_del:
  assumes "safely_reachable D e" and "tombstone D os e i = (Inr (), e')"
  shows "engine_docs D e' = docs_del (engine_docs D e) i" and "is_live (se_index e) i"
    and "se_index e' = mark_dead (se_index e) i"
proof -
  note core = reachable_core [OF assms(1)]
  obtain e1 where a: "appended D e \<lparr>rec_kind = Tombstone, payload = le_bytes 8 (raw_id i)\<rparr> e1"
    and l: "i |\<in>| fmdom (offsets (se_index e))" "i |\<notin>| dead (se_index e)"
    and e': "e' = e1\<lparr>se_index := mark_dead (se_index e) i\<rparr>"
    using tombstone_effect [OF core assms(2)] by auto
  show "is_live (se_index e) i" using l by (simp add: is_live_def)
  show "se_index e' = mark_dead (se_index e) i" by (simp add: e')
  show "engine_docs D e' = docs_del (engine_docs D e) i"
    using appended_docs(2) [OF core a] by (simp add: engine_docs_def docs_of_mark_dead e')
qed

lemma engine_docs_wf: "safely_reachable D e \<Longrightarrow> docs_wf (engine_docs D e) \<and> docs_room (engine_docs D e)"
proof -
  assume r: "safely_reachable D e"
  have wf: "idx_wf (se_index e)" using reachable_index_ok [OF r] by (simp add: index_ok_def)
  have b: "unat (se_end e) \<le> max_off" using core_inv_bounds [OF reachable_core [OF r]] by simp
  have "idx_room (se_index e)" by (rule index_ok_room [OF reachable_index_ok [OF r] b])
  moreover have "st_docs (engine_docs D e) i = None \<and> i \<notin> st_gone (engine_docs D e)"
    if "DocId (next_doc_id (se_index e)) \<le> i" for i
    using next_id_not_stored [OF wf that] by (auto simp: engine_docs_def intro!: docs_of_none fmdom_notD)
  ultimately show ?thesis by (simp add: docs_wf_def docs_room_def idx_room_def engine_docs_def)
qed

lemma reachable_put: "safely_reachable D e \<Longrightarrow> append D os e k p = (r, e') \<Longrightarrow> safely_reachable D e'"
  using reachable_step trace_one ev_put by metis

lemma reachable_del: "safely_reachable D e \<Longrightarrow> tombstone D os e i = (r, e') \<Longrightarrow> safely_reachable D e'"
  using reachable_step trace_one ev_del by metis

lemma reachable_wf: "safely_reachable D e \<Longrightarrow> idx_wf (se_index e)"
  using reachable_index_ok by (simp add: index_ok_def)

lemma fcard_finsert_new: "x |\<notin>| A \<Longrightarrow> fcard (finsert x A) = fcard A + 1"
  by (simp add: fcard_finsert_disjoint)

lemma live_ids_append: "idx_wf idx \<Longrightarrow>
   live_ids (idx_append idx off) = finsert (DocId (next_doc_id idx)) (live_ids idx) \<and>
   DocId (next_doc_id idx) |\<notin>| live_ids idx"
  using next_id_not_stored [of idx "DocId (next_doc_id idx)"] by (auto simp: live_ids_def idx_append_eq)

lemma live_ids_mark_dead: "is_live idx i \<Longrightarrow>
   finsert i (live_ids (mark_dead idx i)) = live_ids idx \<and> i |\<notin>| live_ids (mark_dead idx i)"
  by (auto simp: live_ids_def mark_dead_def is_live_def)

lemma engine_len_ids: "safely_reachable D e \<Longrightarrow> unat (engine_len e) = fcard (live_ids (se_index e))"
  unfolding engine_len_def by (rule counts_eq(1) [OF reachable_wf])

lemma append_reads:
  assumes "safely_reachable D e" and "append D os e k p = (Inr i, e')" and "reads_ok os'"
  shows "read_record D os' e i = Inl (NotFound i)"
    and "read_record D os' e' j =
      (if j = i then Inr \<lparr>rec_kind = k, payload = p\<rparr> else read_record D os' e j)"
proof -
  note r' = reachable_put [OF assms(1,2)] and d = docs_get_put [OF assms(1,2)] and wf = engine_docs_wf [OF assms(1)]
  have i: "i = DocId (st_next (engine_docs D e))" using d(1) by (simp add: engine_docs_def)
  note rd = inv_read [OF reach_inv [OF assms(1)] assms(3)] inv_read [OF reach_inv [OF r'] assms(3)]
  show "read_record D os' e i = Inl (NotFound i)" unfolding rd using wf i by (simp add: docs_dir.look_beyond)
  show "read_record D os' e' j = (if j = i then Inr \<lparr>rec_kind = k, payload = p\<rparr> else read_record D os' e j)"
    unfolding rd d(2) i using wf by (simp add: docs_dir.look_add)
qed

text \<open>
  C7: in a safe run an append that returned \<open>Ok\<close> hands out an id that was unknown before, under which the
  record now reads back, kind and payload; every other id reads as before, and the count of
  live documents grows by one.
\<close>

theorem append_reads_back:
  assumes "safely_reachable D e" and "append D os e k p = (Inr i, e')" and "reads_ok os'"
  shows "read_record D os' e i = Inl (NotFound i) \<and>
    (\<forall>j. read_record D os' e' j =
      (if j = i then Inr \<lparr>rec_kind = k, payload = p\<rparr> else read_record D os' e j)) \<and>
    unat (engine_len e') = unat (engine_len e) + 1"
proof -
  note r' = reachable_put [OF assms(1,2)]
  have "fcard (live_ids (se_index e')) = fcard (live_ids (se_index e)) + 1"
    using live_ids_append [OF reachable_wf [OF assms(1)], of "se_end e"]
    unfolding docs_get_put(3) [OF assms(1,2)] by (simp add: fcard_finsert_new)
  then show ?thesis
    using append_reads [OF assms] by (simp add: engine_len_ids [OF assms(1)] engine_len_ids [OF r'])
qed

theorem append_reads_back_witness:
  "read_record sample_D os_ok sample_new (DocId 1) = Inl (NotFound (DocId 1)) \<and>
    (\<forall>j. read_record sample_D os_ok sample_put j =
      (if j = DocId 1 then Inr \<lparr>rec_kind = Blob, payload = sample_doc\<rparr> else read_record sample_D os_ok sample_new j)) \<and>
    unat (engine_len sample_put) = unat (engine_len sample_new) + 1"
  using append_reads_back [OF sample_reachable(1) sample_put_eq os_ok_reads_ok] .

text \<open>
  C8: in a safe run a deletion that returned \<open>Ok\<close> hides a document that was live: from then on its id reads
  as deleted and a second deletion is refused, every other id reads as before, and the count
  of live documents shrinks by one.
\<close>

theorem tombstone_hides:
  assumes "safely_reachable D e" and "tombstone D os e i = (Inr (), e')" and "reads_ok os'"
  shows "(\<exists>r. read_record D os' e i = Inr r) \<and>
    (\<forall>j. read_record D os' e' j = (if j = i then Inl (Deleted i) else read_record D os' e j)) \<and>
    tombstone D os2 e' i = (Inl (Deleted i), e') \<and>
    unat (engine_len e) = unat (engine_len e') + 1"
proof -
  note r' = reachable_del [OF assms(1,2)] and d = docs_get_del [OF assms(1,2)]
  note rd = inv_read [OF reach_inv [OF assms(1)] assms(3)] inv_read [OF reach_inv [OF r'] assms(3)]
  obtain r where got: "docs_get (engine_docs D e) i = Inr r"
    using engine_inv_read [OF reach_inv [OF assms(1)] assms(3), of i] d(2) rd(1) by (auto split: sum.splits)
  have "docs_get (engine_docs D e') j = (if j = i then Inl (Deleted i) else docs_get (engine_docs D e) j)" for j
    unfolding d(1) using engine_docs_wf [OF assms(1)] got by (simp add: docs_dir.look_del)
  moreover have "fcard (live_ids (se_index e)) = fcard (live_ids (se_index e')) + 1"
    using live_ids_mark_dead [OF d(2)] fcard_finsert_new unfolding d(3) by metis
  moreover have "tombstone D os2 e' i = (Inl (Deleted i), e')"
    using d(3) by (simp add: tombstone_def mark_dead_def)
  ultimately show ?thesis using got by (simp add: rd engine_len_ids [OF assms(1)] engine_len_ids [OF r'])
qed

definition sample_del :: StorageEngine where
  "sample_del = snd (tombstone sample_D os_ok sample_put (DocId 1))"

lemma sample_del_eq: "tombstone sample_D os_ok sample_put (DocId 1) = (Inr (), sample_del)"
proof -
  have "is_live (se_index sample_put) (DocId 1)"
    by (simp add: sample_put_sel is_live_def idx_append_eq MasterIndex_default_def)
  then obtain e where "tombstone sample_D os_ok sample_put (DocId 1) = (Inr (), e)"
    using tombstone_ok [OF os_ok_all_ok, of sample_put "DocId 1" sample_D] by (auto simp: sample_put_sel max_off_def)
  then show ?thesis by (simp add: sample_del_def)
qed

theorem tombstone_hides_witness:
  "(\<exists>r. read_record sample_D os_ok sample_put (DocId 1) = Inr r) \<and>
    (\<forall>j. read_record sample_D os_ok sample_del j =
       (if j = DocId 1 then Inl (Deleted (DocId 1)) else read_record sample_D os_ok sample_put j)) \<and>
    tombstone sample_D os_ok sample_del (DocId 1) = (Inl (Deleted (DocId 1)), sample_del) \<and>
    unat (engine_len sample_put) = unat (engine_len sample_del) + 1"
  using tombstone_hides [OF sample_reachable(2) sample_del_eq os_ok_reads_ok] .

section \<open>Failures\<close>

lemma trace_store: "safely_reachable D e \<Longrightarrow> \<exists>b. store_rel D e b"
  unfolding safely_reachable_def using engine_store.implements by blast

lemma append_failed_docs:
  assumes "safely_reachable D e" and "append D os e k p = (Inl err, e')"
  shows "engine_docs D e' = engine_docs D e \<and> se_index e' = se_index e \<and> se_header e' = se_header e"
proof -
  obtain b where "outcomes D e b" using trace_store [OF assms(1)] by (auto simp: store_rel_def)
  moreover obtain f where "e' = e\<lparr>se_file := f\<rparr>" "tail_write (unat (se_end e)) (se_file e) f"
    using append_effect [OF reachable_core [OF assms(1)] assms(2)] by auto
  ultimately show ?thesis using outcomes_file(2) [OF reach_inv [OF assms(1)]] by simp
qed

lemma tombstone_failed_docs:
  assumes "safely_reachable D e" and "tombstone D os e i = (Inl err, e')"
  shows "engine_docs D e' = engine_docs D e \<and> se_index e' = se_index e \<and> se_header e' = se_header e"
proof -
  obtain b where "outcomes D e b" using trace_store [OF assms(1)] by (auto simp: store_rel_def)
  moreover obtain f where "e' = e\<lparr>se_file := f\<rparr>" "tail_write (unat (se_end e)) (se_file e) f"
    using tombstone_effect [OF reachable_core [OF assms(1)] assms(2)] by auto
  ultimately show ?thesis using outcomes_file(2) [OF reach_inv [OF assms(1)]] by simp
qed

lemma commit_failed_docs:
  assumes "safely_reachable D e" and "bincode_ok D" and "commit_tear_safe D e" and "commit D os e = (Inl err, e')"
  shows "engine_docs D e' = engine_docs D e \<and> se_index e' = se_index e \<and> se_header e' = se_header e"
proof -
  obtain b where "outcomes D e b" using trace_store [OF assms(1)] by (auto simp: store_rel_def)
  then show ?thesis
    using commit_outcomes [OF reach_inv [OF assms(1)] assms(2) disjI2 [OF assms(3)] _ assms(4)]
      commit_InlD [OF reach_inv [OF assms(1)] assms(2-4)] by blast
qed

text \<open>
  C9: in a safe run an append, a deletion or a commit that returned an error changed no document: every id
  reads as before, the same ids are live, and the committed generation is the same.
\<close>

theorem failure_changes_nothing:
  assumes "safely_reachable D e" and "reads_ok os'"
    and "(\<exists>k p. append D os e k p = (Inl err, e')) \<or> (\<exists>i. tombstone D os e i = (Inl err, e')) \<or>
      (bincode_ok D \<and> commit_tear_safe D e \<and> commit D os e = (Inl err, e'))"
  shows "(\<forall>i. read_record D os' e' i = read_record D os' e i) \<and> se_index e' = se_index e \<and>
    engine_generation e' = engine_generation e"
proof -
  have "engine_inv D e'"
    using assms(3) append_inv [OF reach_inv [OF assms(1)]] tombstone_inv [OF reach_inv [OF assms(1)]]
      commit_inv [OF reach_inv [OF assms(1)]] by (elim disjE exE conjE) simp_all
  moreover have "engine_docs D e' = engine_docs D e \<and> se_index e' = se_index e \<and> se_header e' = se_header e"
    using assms(3) append_failed_docs [OF assms(1)] tombstone_failed_docs [OF assms(1)] commit_failed_docs [OF assms(1)]
    by (elim disjE exE conjE) simp_all
  ultimately show ?thesis
    using inv_read [OF reach_inv [OF assms(1)] assms(2)] inv_read [OF _ assms(2)] by (simp add: engine_generation_def)
qed

theorem failure_changes_nothing_witness:
  "\<exists>e. commit sample_D failing_sync sample_put = (Inl (Io (OsError 5)), e) \<and>
     (\<forall>i. read_record sample_D os_ok e i = read_record sample_D os_ok sample_put i) \<and>
     se_index e = se_index sample_put \<and> engine_generation e = engine_generation sample_put"
proof -
  obtain e where e: "commit sample_D failing_sync sample_put = (Inl (Io (OsError 5)), e)" using failing_commit by blast
  then show ?thesis
    using failure_changes_nothing [OF sample_reachable(2) os_ok_reads_ok disjI2 [OF disjI2]] sample_put_tear by auto
qed

section \<open>Runs without a restart\<close>

fun restart :: "event \<Rightarrow> bool" where
  "restart EReopen = True"
| "restart ECrash = True"
| "restart (EPut k p r) = False"
| "restart (EDel i r) = False"
| "restart (EGet i r) = False"
| "restart (ECommit r) = False"

lemma same_docs_run: "engine_docs D e' = engine_docs D e \<Longrightarrow> docs_dir.run (engine_docs D e) (engine_docs D e')"
  using docs_dir.run_refl by metis

lemma event_docs_run:
  assumes r: "safely_reachable D e" and "safe_event D e ev e'" and "\<not> restart ev"
  shows "docs_dir.run (engine_docs D e) (engine_docs D e')"
  using assms(2)
proof (cases rule: engine_event.cases)
  case (ev_put os k p q)
  show ?thesis
  proof (cases q)
    case (Inl err)
    then show ?thesis using append_failed_docs [OF r] ev_put(2) same_docs_run by metis
  next
    case (Inr i)
    then show ?thesis
      using docs_get_put(2) [OF r] ev_put(2) engine_docs_wf [OF r] docs_dir.run_add [OF docs_dir.run_refl] by metis
  qed
next
  case (ev_del os i q)
  show ?thesis
  proof (cases q)
    case (Inl err)
    then show ?thesis using tombstone_failed_docs [OF r] ev_del(2) same_docs_run by metis
  next
    case (Inr u)
    then have t: "tombstone D os e i = (Inr (), e')" using ev_del(2) by simp
    obtain x where "docs_get (engine_docs D e) i = Inr x"
      using engine_inv_read [OF reach_inv [OF r] os_ok_reads_ok, of i] docs_get_del(2) [OF r t]
        inv_read [OF reach_inv [OF r] os_ok_reads_ok, of i] by (auto split: sum.splits)
    then show ?thesis using docs_get_del(1) [OF r t] docs_dir.run_del [OF docs_dir.run_refl] by metis
  qed
next
  case (ev_get os i)
  then show ?thesis using docs_dir.run_refl by metis
next
  case (ev_commit s q os)
  obtain b where "outcomes D e b" using trace_store [OF r] by (auto simp: store_rel_def)
  then have "engine_docs D e' = engine_docs D e"
    using commit_outcomes [of "D\<lparr>bin_ser := s\<rparr>", unfolded format_store format_inv, OF reach_inv [OF r] ev_commit(2) ev_commit(3) [unfolded safe_commit_guard] _ ev_commit(4)]
    by blast
  then show ?thesis by (rule same_docs_run)
qed (use assms(3) in simp_all)

lemma docs_run_trans: "docs_dir.run b c \<Longrightarrow> docs_dir.run a b \<Longrightarrow> docs_dir.run a c"
  by (induction rule: docs_dir.run.induct) (auto intro: docs_dir.run.intros)

lemma trace_docs_run:
  "trace (safe_event D) e evs e' \<Longrightarrow> safely_reachable D e \<Longrightarrow> \<forall>ev\<in>set evs. \<not> restart ev \<Longrightarrow>
   docs_dir.run (engine_docs D e) (engine_docs D e')"
proof (induction rule: trace.induct)
  case (trace_nil e)
  then show ?case by (simp add: docs_dir.run_refl)
next
  case (trace_cons e ev e1 evs e')
  have "docs_dir.run (engine_docs D e1) (engine_docs D e')"
    using trace_cons reachable_step [OF _ trace_one] by auto
  moreover have "docs_dir.run (engine_docs D e) (engine_docs D e1)"
    using trace_cons by (intro event_docs_run) auto
  ultimately show ?case by (rule docs_run_trans)
qed

text \<open>
  C22: a deleted document stays deleted: no sequence of operations of a safe run short of a
  restart makes its id readable again.
\<close>

theorem deleted_stays_deleted:
  assumes "safely_reachable D e" and "trace (safe_event D) e evs e'" and "\<forall>ev\<in>set evs. \<not> restart ev"
    and "reads_ok os" and "read_record D os e i = Inl (Deleted i)"
  shows "read_record D os e' i = Inl (Deleted i)"
proof -
  have r': "safely_reachable D e'" by (rule reachable_step [OF assms(1,2)])
  have "docs_get (engine_docs D e') i = Inl (Deleted i)"
    using docs_dir.run_deleted [OF trace_docs_run [OF assms(2,1,3)]] engine_docs_wf [OF assms(1)] assms(5)
      inv_read [OF reach_inv [OF assms(1)] assms(4)] by simp
  then show ?thesis using inv_read [OF reach_inv [OF r'] assms(4)] by simp
qed

lemma sample_del_reachable: "safely_reachable sample_D sample_del"
  using reachable_del [OF sample_reachable(2) sample_del_eq] .

lemma sample_del_read: "read_record sample_D os_ok sample_del (DocId 1) = Inl (Deleted (DocId 1))"
  using docs_get_del(3) [OF sample_reachable(2) sample_del_eq] by (simp add: read_record_def mark_dead_def)

theorem deleted_stays_deleted_witness:
  "\<exists>q e. append sample_D os_ok sample_del Blob sample_doc = (q, e) \<and>
     read_record sample_D os_ok e (DocId 1) = Inl (Deleted (DocId 1))"
proof -
  obtain q e where e: "append sample_D os_ok sample_del Blob sample_doc = (q, e)" by fastforce
  then show ?thesis
    using deleted_stays_deleted [OF sample_del_reachable trace_one [OF ev_put [OF e]] _ os_ok_reads_ok sample_del_read]
    by auto
qed

text \<open>
  C23: ids are unique in a safe run: between two appends without a restart in between, the second id is
  larger, and all the while the first one reads back its own record or as deleted.
\<close>

theorem ids_never_reused:
  assumes "safely_reachable D e" and "append D os e k p = (Inr i, e1)"
    and "trace (safe_event D) e1 evs e2" and "\<forall>ev\<in>set evs. \<not> restart ev"
    and "append D os2 e2 k2 p2 = (Inr j, e3)" and "reads_ok os'"
  shows "i < j \<and> (read_record D os' e2 i = Inr \<lparr>rec_kind = k, payload = p\<rparr> \<or>
    read_record D os' e2 i = Inl (Deleted i))"
proof -
  have r1: "safely_reachable D e1" by (rule reachable_put [OF assms(1,2)])
  have r2: "safely_reachable D e2" by (rule reachable_step [OF r1 assms(3)])
  note d = docs_get_put [OF assms(1,2)] and wf = engine_docs_wf [OF assms(1)]
  have i: "i = DocId (st_next (engine_docs D e))" and j: "j = DocId (st_next (engine_docs D e2))"
    using d(1) docs_get_put(1) [OF r2 assms(5)] by (simp_all add: engine_docs_def)
  have "docs_dir.run (docs_put (engine_docs D e) \<lparr>rec_kind = k, payload = p\<rparr>) (engine_docs D e2)"
    using trace_docs_run [OF assms(3) r1 assms(4)] d(2) by simp
  from docs_dir.run_found [OF this] show ?thesis
    using wf i j inv_read [OF reach_inv [OF r2] assms(6)] by simp
qed

theorem ids_never_reused_witness:
  "\<exists>j e. append sample_D os_ok sample_del Blob sample_doc = (Inr j, e) \<and> DocId 1 < j \<and>
     (read_record sample_D os_ok sample_del (DocId 1) = Inr \<lparr>rec_kind = Blob, payload = sample_doc\<rparr> \<or>
      read_record sample_D os_ok sample_del (DocId 1) = Inl (Deleted (DocId 1)))"
proof -
  obtain e1 where a: "appended sample_D sample_put \<lparr>rec_kind = Tombstone, payload = le_bytes 8 (raw_id (DocId 1))\<rparr> e1"
    and del: "sample_del = e1\<lparr>se_index := mark_dead (se_index sample_put) (DocId 1)\<rparr>"
    using tombstone_effect [OF reachable_core [OF sample_reachable(2)] sample_del_eq] by auto
  have "unat (se_end e1) = 159" using a unfolding appended_def by (simp add: sample_put_sel)
  then have "unat (se_end sample_del) = 159" unfolding del by simp
  then have "fits sample_del sample_doc" by (simp add: fits_def sample_doc_def max_off_def)
  then obtain j e where e: "append sample_D os_ok sample_del Blob sample_doc = (Inr j, e)"
    using append_ok [OF os_ok_all_ok] by blast
  then show ?thesis
    using ids_never_reused [OF sample_reachable(1) sample_put_eq trace_one [OF ev_del [OF sample_del_eq]] _ e os_ok_reads_ok]
    by auto
qed



section \<open>Bounds\<close>

text \<open>
  C20: no counter of an engine in a safe run wraps around: not the generation, not the id
  allocator, not the end of the log, whatever record a client appends next.
\<close>

theorem counters_never_wrap:
  assumes "safely_reachable D e" and "length p \<le> unat MAX_RECORD_LEN"
  shows "unat (generation (se_header e) + 1) = unat (generation (se_header e)) + 1 \<and>
    unat (next_doc_id (se_index e) + 1) = unat (next_doc_id (se_index e)) + 1 \<and>
    unat (se_end e + RECORD_HEADER_SIZE + of_nat (length p)) = unat (se_end e) + 9 + length p"
proof -
  note core = reachable_core [OF assms(1)]
  note b = core_inv_bounds [OF core]
  obtain idx where "snap D (content (se_file e)) (se_header e) idx"
    and L: "unat (log_end (se_header e)) \<le> unat (se_end e)"
    using header_ok_snap [OF core_inv_header_ok [OF core]] by blast
  then have "9 * unat (generation (se_header e)) \<le> unat (se_end e)" using snap_bounds by fastforce
  then have "unat (generation (se_header e)) < 2 ^ 64 - 1" using b by (simp add: max_off_def)
  then have 1: "unat (generation (se_header e) + 1) = unat (generation (se_header e)) + 1" by (rule unat_succ)
  have "unat (next_doc_id (se_index e)) < 2 ^ 64 - 1"
    using engine_docs_wf [OF assms(1)] by (simp add: docs_room_def engine_docs_def)
  then have 2: "unat (next_doc_id (se_index e) + 1) = unat (next_doc_id (se_index e)) + 1" by (rule unat_succ)
  have "unat (of_nat (length p) :: u64) = length p" using assms(2) by (simp add: word_nat)
  moreover have "unat (se_end e) \<le> max_off" using b by simp
  ultimately have "unat (se_end e + RECORD_HEADER_SIZE + of_nat (length p)) = unat (se_end e) + 9 + length p"
    using assms(2) by (simp add: word_nat max_off_def)
  then show ?thesis using 1 2 by simp
qed

theorem counters_never_wrap_witness:
  "unat (generation (se_header sample_done) + 1) = unat (generation (se_header sample_done)) + 1 \<and>
    unat (next_doc_id (se_index sample_done) + 1) = unat (next_doc_id (se_index sample_done)) + 1 \<and>
    unat (se_end sample_done + RECORD_HEADER_SIZE + of_nat (length sample_doc)) =
      unat (se_end sample_done) + 9 + length sample_doc"
  by (rule counters_never_wrap [OF sample_reachable(3)]) (simp add: sample_doc_def)

text \<open>
  C19: the assertion before the header write of a commit never fails: in every state of a safe
  run the slot a commit overwrites is not the live one, and the live slot holds the live header.
\<close>

theorem commit_spares_live_slot:
  assumes "safely_reachable D e"
  shows "victim_slot (se_slots e) \<noteq> se_live_slot e \<and> victim_slot (se_slots e) < HEADER_SLOTS \<and>
    se_slots e ! se_live_slot e = Some (se_header e) \<and>
    Header_decode (crc32 D) (slot_bytes (content (se_file e)) (se_live_slot e)) (se_live_slot e) = Inr (se_header e)"
proof -
  have c: "length (se_slots e) = HEADER_SLOTS" "select_live (se_slots e) = Inr (se_header e, se_live_slot e)"
    "slot_header D (slot_bytes (content (se_file e)) (se_live_slot e)) = Some (se_header e)"
    using reachable_core [OF assms] by (simp_all add: core_inv_def)
  then show ?thesis
    using victim_slotD [OF c(1,2)] select_live_slotD [OF c(1,2)] slot_header_Some by simp
qed

theorem commit_spares_live_slot_witness:
  "victim_slot (se_slots sample_done) \<noteq> se_live_slot sample_done \<and>
    victim_slot (se_slots sample_done) < HEADER_SLOTS \<and>
    se_slots sample_done ! se_live_slot sample_done = Some (se_header sample_done) \<and>
    Header_decode (crc32 sample_D) (slot_bytes (content (se_file sample_done)) (se_live_slot sample_done))
      (se_live_slot sample_done) = Inr (se_header sample_done)"
  using commit_spares_live_slot [OF sample_reachable(3)] .

section \<open>When a commit succeeds, and when it cannot\<close>

lemma commit_Inr_clean: "commit D os e = (Inr u, e') \<Longrightarrow> \<not> se_dirty e'"
  by (auto simp: commit_split commit_suffix_def Let_def st_bind_Inr_iff split: if_splits)

text \<open>
  C18: in a safe run, with no failing system call, an index that fits a record and room in the file, a commit
  returns \<open>Ok\<close>, and committing again does nothing, whatever the operating system does.
\<close>

theorem commit_succeeds:
  assumes "safely_reachable D e" and "all_ok os" and "idx_encode D (se_index e) = Inr p"
    and "length p \<le> unat MAX_RECORD_LEN" and "unat (se_end e) + 9 + length p \<le> max_off"
  shows "\<exists>e'. commit D os e = (Inr (), e') \<and> \<not> is_dirty e' \<and> commit D os2 e' = (Inr (), e')"
proof -
  have "fits e p" using assms(4,5) by (simp add: fits_def)
  then obtain e' where e': "commit D os e = (Inr (), e')"
    using commit_ok [OF reach_inv [OF assms(1)] assms(2,3)] by blast
  then show ?thesis using commit_Inr_clean [OF e'] by (auto simp: is_dirty_def commit_def)
qed

theorem commit_succeeds_witness:
  "\<exists>e'. commit sample_D os_ok sample_put = (Inr (), e') \<and> \<not> is_dirty e' \<and>
     commit sample_D failing_sync e' = (Inr (), e')"
proof -
  obtain p where "idx_encode sample_D (se_index sample_put) = Inr p" "length p = 40" using sample_put_encode by blast
  then show ?thesis
    by (intro commit_succeeds [OF sample_reachable(2) os_ok_all_ok, of p]) (simp_all add: sample_put_sel max_off_def)
qed

text \<open>
  C25: the master index is one record, so a database whose index serializes to more than 64 MiB
  can never commit again: every commit fails, with every operating system, and leaves the
  content of the file, the index and the header as they were.
\<close>

theorem oversized_index_never_commits:
  assumes "is_dirty e" and "idx_encode D (se_index e) = Inr p" and "64 * 1024 * 1024 < length p"
  shows "\<exists>err f. commit D os e = (Inl err, e\<lparr>se_file := f\<rparr>) \<and> content f = content (se_file e) \<and>
    (err = RecordTooLarge (se_end e) (of_nat (length p)) MAX_RECORD_LEN \<or> (\<exists>x. err = Io x))"
  by (rule commit_oversized) (use assms in \<open>simp_all add: is_dirty_def\<close>)

definition bulky_D :: deps where
  "bulky_D = \<lparr>crc32 = count_crc, bin_ser = (\<lambda>_. Inr (replicate 67108865 1)), bin_de = (\<lambda>_. Inl [])\<rparr>"

theorem oversized_index_never_commits_witness:
  "\<exists>err f. commit bulky_D os_ok sample_put = (Inl err, sample_put\<lparr>se_file := f\<rparr>) \<and>
     content f = content (se_file sample_put) \<and>
     (err = RecordTooLarge (se_end sample_put) (of_nat (length (replicate 67108865 (1 :: u8)))) MAX_RECORD_LEN \<or>
      (\<exists>x. err = Io x))"
  by (rule oversized_index_never_commits) (simp_all add: is_dirty_def sample_put_sel bulky_D_def idx_encode_def)

end
