(* ===== verification/Integrity.thy ===== *)
theory Integrity
  imports Operations
begin

text \<open>
  What verification and opening check: \<open>verify\<close> accepts exactly the files whose committed
  bytes are a log of well-formed records, damage to a payload is reported and never returned
  as data, and \<open>open\<close> refuses files it cannot use with the error that says why.
\<close>

section \<open>Verification is exact\<close>

lemma encode_decode_frame:
  assumes "length buf = 9" and "decode_frame buf off = Inr frame" and "length p = unat (frame_len frame)"
    and "crc p = frame_crc frame"
  shows "buf = encode_frame crc (frame_kind frame) p"
proof -
  note d = decode_frame_InrD [OF assms(2)]
  have w: "bslice buf a (a + 4) = le_bytes 4 (le_word (bslice buf a (a + 4)) :: u32)" if "a + 4 \<le> 9" for a
    using le_bytes_le_word [of "bslice buf a (a + 4)", where 'a = 32] that assms(1) by (simp add: length_bslice)
  have "(of_nat (length p) :: u32) = le_word (bslice buf 0 4)"
    unfolding assms(3) d(3) by (simp add: word_nat)
  then have 1: "bslice buf 0 4 = le_bytes 4 (of_nat (length p) :: u32)" using w [of 0] by simp
  have 3: "bslice buf 5 9 = le_bytes 4 (crc p)" using w [of 5] d(4) assms(4) by simp
  have 2: "bslice buf 4 5 = [kind_tag (frame_kind frame)]"
    using d(2) assms(1) by (intro nth_equalityI) (auto simp: length_bslice nth_bslice)
  have "buf = bslice buf 0 9" using assms(1) by (simp add: bslice_def)
  also have "\<dots> = bslice buf 0 4 @ bslice buf 4 5 @ bslice buf 5 9" by (simp flip: bslice_split)
  finally show ?thesis unfolding encode_frame_image using 1 2 3 by simp
qed

lemma verify_loop_sound:
  assumes "verify_loop D os f limit offset count = Inr (stop, n)"
  shows "\<exists>rs. (\<forall>r\<in>set rs. record_ok r) \<and> n = count + length rs \<and>
    unat stop = unat offset + length (log_image (crc32 D) rs) \<and>
    bslice (content f) (unat offset) (unat stop) = log_image (crc32 D) rs \<and>
    (rs = [] \<or> unat stop \<le> length (content f))"
  using assms
proof (induction D os f limit offset count rule: verify_loop.induct)
  case (1 D os f limit offset count)
  show ?case
  proof (cases "offset < limit")
    case False
    then have "stop = offset" "n = count" using 1(2) by (simp_all add: verify_loop.simps [of D os f limit offset])
    then show ?thesis by (intro exI [of _ "[]"]) (simp add: bslice_empty)
  next
    case True
    then obtain frame p u where fr: "read_frame_at os f offset = Inr frame"
      and p: "map_err Io (read_exact_at os f (unat (frame_len frame)) (offset + RECORD_HEADER_SIZE)) = Inr p"
      and v: "verify_payload (crc32 D) frame p offset = Inr u"
      and rest: "verify_loop D os f limit (offset + total_len frame) (count + 1) = Inr (stop, n)"
      using 1(2) by (subst (asm) verify_loop.simps) (auto simp: res_bind_Inr_iff)
    obtain rs where rs: "\<forall>r\<in>set rs. record_ok r" "n = count + 1 + length rs"
      "unat stop = unat (offset + total_len frame) + length (log_image (crc32 D) rs)"
      "bslice (content f) (unat (offset + total_len frame)) (unat stop) = log_image (crc32 D) rs"
      "rs = [] \<or> unat stop \<le> length (content f)"
      using 1(1) [OF True fr p v rest] by blast
    note st = verify_step [OF fr p]
    obtain buf where buf: "read_exact_at os f 9 offset = Inr buf" "decode_frame buf offset = Inr frame"
      using fr by (auto simp: read_frame_at_def res_bind_Inr_iff map_err_Inr_iff)
    note rb = read_exact_at_Inr [OF buf(1)]
    have o9: "unat (offset + RECORD_HEADER_SIZE) = unat offset + 9" using rb by (simp add: word_nat max_off_def)
    have rp: "read_exact_at os f (unat (frame_len frame)) (offset + RECORD_HEADER_SIZE) = Inr p"
      using p by (simp add: map_err_Inr_iff)
    note rpp = read_exact_at_Inr [OF rp, unfolded o9]
    have crc: "crc32 D p = frame_crc frame" using v by (simp add: verify_payload_def split: if_splits)
    let ?r = "\<lparr>rec_kind = frame_kind frame, payload = p\<rparr>"
    have rb9: "length buf = 9" using rb by blast
    have rbs: "bslice (content f) (unat offset) (unat offset + 9) = buf" using rb by simp
    have lp: "length p = unat (frame_len frame)" using rpp by blast
    have img1: "bslice (content f) (unat offset) (unat offset + 9) = encode_frame (crc32 D) (frame_kind frame) p"
      unfolding rbs using rb9 buf(2) lp crc by (rule encode_decode_frame)
    have img2: "bslice (content f) (unat offset + 9) (unat offset + 9 + length p) = p"
      using rpp by (cases "p = []") (auto simp: bslice_empty)
    have ok: "record_ok ?r"
      using decode_frame_InrD(1) [OF buf(2)] rpp by (simp add: record_ok_def word_le_nat_alt)
    have len: "unat (offset + total_len frame) = unat offset + 9 + length p" using st(1) rpp by simp
    have "bslice (content f) (unat offset) (unat stop) =
        bslice (content f) (unat offset) (unat offset + 9) @
        bslice (content f) (unat offset + 9) (unat offset + 9 + length p) @
        bslice (content f) (unat offset + 9 + length p) (unat stop)"
      using rs(3) len by (simp flip: bslice_split)
    also have "\<dots> = log_image (crc32 D) (?r # rs)"
      using img1 img2 rs(4) len by (simp add: log_image_Cons record_image_def)
    finally show ?thesis
      using rs ok len st(2) rpp
      by (intro exI [of _ "?r # rs"]) (auto simp: log_image_Cons length_record_image)
  qed
qed

lemma verify_InrD:
  assumes "128 \<le> length (content (se_file e))" and "verify D os e = Inr n"
  shows "\<exists>rs. log_is D (content (se_file e)) (unat (log_end (se_header e))) rs \<and> length rs = n"
proof -
  have "verify_loop D os (se_file e) (log_end (se_header e)) LOG_START 0 = Inr (log_end (se_header e), n)"
    using assms(2) by (auto simp: verify_def res_bind_Inr_iff split: if_splits)
  from verify_loop_sound [OF this] show ?thesis using assms(1) by (auto simp: log_is_def)
qed

text \<open>
  C10: verification is exact: on a system without read failures it returns \<open>n\<close> exactly when the
  committed bytes of the file are \<open>n\<close> well-formed records, end to end, each with the checksum
  of its payload; for every file and every header, not only those the engine wrote.
\<close>

theorem verify_exact:
  assumes "128 \<le> length (content (se_file e))" and "length (content (se_file e)) \<le> max_off" and "reads_ok os"
  shows "verify D os e = Inr n \<longleftrightarrow>
    (\<exists>rs. log_is D (content (se_file e)) (unat (log_end (se_header e))) rs \<and> length rs = n)"
  using verify_InrD [OF assms(1)] verify_log [OF _ assms(2,3)] by blast

theorem verify_exact_witness:
  "verify sample_D os_ok sample_new = Inr 0 \<longleftrightarrow>
    (\<exists>rs. log_is sample_D (content (se_file sample_new)) (unat (log_end (se_header sample_new))) rs \<and> length rs = 0)"
  by (rule verify_exact) (simp_all add: sample_new_def fresh_def max_off_def)

text \<open>
  After one append and one commit on a committed database, verification finds two more
  records than before: the document and the new master index.
\<close>

lemma verify_counts_records:
  assumes "safely_reachable D e" and "\<not> is_dirty e" and "verify D os e = Inr n" and "reads_ok os"
    and "append D os1 e k p = (Inr i, e1)" and "bincode_ok D"
    and "commit D os2 e1 = (Inr (), e2)"
  shows "verify D os e2 = Inr (n + 2)"
proof -
  note inv = reach_inv [OF assms(1)] and core = reachable_core [OF assms(1)]
  note b = core_inv_bounds [OF core]
  have dirty: "\<not> se_dirty e" using assms(2) by (simp add: is_dirty_def)
  have "128 \<le> length (content (se_file e))" using b by simp
  from verify_InrD [OF this assms(3)] obtain rs
    where rs: "log_is D (content (se_file e)) (unat (se_end e)) rs" "length rs = n"
    using inv dirty by (auto simp: engine_inv_def clean_ok_def)
  obtain e1' where a: "appended D e \<lparr>rec_kind = k, payload = p\<rparr> e1'"
    and e1: "e1 = e1'\<lparr>se_index := idx_append (se_index e) (se_end e)\<rparr>"
    using append_effect [OF core assms(5)] by auto
  have "se_dirty e1" using appended_sel(5) [OF a] unfolding e1 by simp
  note inv1 = reach_inv [OF reachable_put [OF assms(1,5)]] and c = this
  have "log_is D (content (se_file e1)) (unat (se_end e1)) (rs @ [\<lparr>rec_kind = k, payload = p\<rparr>])"
    using appended_log [OF rs(1) a] unfolding e1 by simp
  from commit_log [OF inv1 assms(6,7) c this] obtain q where
    "log_is D (content (se_file e2)) (unat (log_end (se_header e2))) ((rs @ [\<lparr>rec_kind = k, payload = p\<rparr>]) @ [q])"
    by blast
  moreover have "engine_inv D e2" using commit_Inr_cases [OF inv1 assms(6,7)] by simp
  ultimately show ?thesis
    using verify_log [OF _ core_inv_bounds(3) assms(4)] rs(2) by (fastforce simp: engine_inv_def)
qed

lemma verify_counts_records_witness:
  "verify sample_D os_ok sample_done = Inr (0 + 2)"
proof (rule verify_counts_records [OF sample_reachable(1) _ _ os_ok_reads_ok sample_put_eq _ sample_done_eq])
  have "log_is sample_D (content (se_file sample_new)) (unat (log_end (se_header sample_new))) []"
    using log_is_empty [of "content (se_file sample_new)" sample_D]
    by (simp add: sample_new_def fresh_def Header_initial_def)
  then show "verify sample_D os_ok sample_new = Inr 0"
    using verify_log [OF _ core_inv_bounds(3) [OF reachable_core [OF sample_reachable(1)]] os_ok_reads_ok] by fastforce
qed (simp_all add: is_dirty_def sample_new_sel)

section \<open>Damage\<close>

text \<open>A file in which one byte of the payload of the record at \<open>at\<close> was overwritten.\<close>

definition damage_payload :: "dbfile \<Rightarrow> nat \<Rightarrow> nat \<Rightarrow> u8 \<Rightarrow> dbfile" where
  "damage_payload f at i b = f\<lparr>content := (content f)[at + 9 + i := b]\<rparr>"

lemma bslice_update_within:
  "a \<le> i \<Longrightarrow> i < b \<Longrightarrow> b \<le> length bs \<Longrightarrow> bslice (bs[i := x]) a b = (bslice bs a b)[i - a := x]"
  by (intro nth_equalityI) (auto simp: length_bslice nth_bslice nth_list_update)

lemma read_damaged_record:
  assumes r: "rec_in D (content f) n (unat off) r" and len: "length (content f) \<le> max_off" and os: "reads_ok os"
    and crc: "detects_one_byte (crc32 D)" and i: "i < length (payload r)" "b \<noteq> payload r ! i"
    and g: "content g = (content f)[unat off + 9 + i := b]"
  shows "read_frame_at os g off = Inr \<lparr>frame_len = of_nat (length (payload r)),
      frame_kind = rec_kind r, frame_crc = crc32 D (payload r)\<rparr>"
    and "read_exact_at os g (length (payload r)) (off + RECORD_HEADER_SIZE) = Inr ((payload r)[i := b])"
    and "crc32 D ((payload r)[i := b]) \<noteq> crc32 D (payload r)"
proof -
  have le: "unat off + 9 + length (payload r) \<le> length (content f)" using r by (auto simp: rec_in_def)
  have lg: "length (content g) = length (content f)" by (simp add: g)
  have o9: "unat (off + RECORD_HEADER_SIZE) = unat off + 9"
    using le len by (simp add: word_nat max_off_def)
  have "bslice (content g) (unat off) (unat off + 9) = bslice (content f) (unat off) (unat off + 9)"
    by (simp add: g bslice_update_out)
  then have "read_exact_at os g 9 off = Inr (encode_frame (crc32 D) (rec_kind r) (payload r))"
    using read_exact_at_ok [OF os, of off 9 g] rec_in_parts(1) [OF r] le lg len by simp
  then show "read_frame_at os g off = Inr \<lparr>frame_len = of_nat (length (payload r)),
      frame_kind = rec_kind r, frame_crc = crc32 D (payload r)\<rparr>"
    using r by (simp add: read_frame_at_def decode_encode_frame rec_in_def record_ok_def)
  have "bslice (content g) (unat off + 9) (unat off + 9 + length (payload r)) = (payload r)[i := b]"
    using bslice_update_within [of "unat off + 9" "unat off + 9 + i" "unat off + 9 + length (payload r)" "content f" b]
      i(1) le rec_in_parts(2) [OF r] by (simp add: g)
  then show "read_exact_at os g (length (payload r)) (off + RECORD_HEADER_SIZE) = Inr ((payload r)[i := b])"
    using read_exact_at_ok [OF os, of "off + RECORD_HEADER_SIZE" "length (payload r)" g] o9 le lg len by simp
  show "crc32 D ((payload r)[i := b]) \<noteq> crc32 D (payload r)"
    using crc i by (simp add: detects_one_byte_def)
qed

text \<open>Undamaged records before the damaged one are passed over.\<close>

lemma verify_loop_records:
  assumes "\<forall>r\<in>set rs. record_ok r" and "128 \<le> unat offset"
    and "bslice (content f) (unat offset) (unat offset + length (log_image (crc32 D) rs)) = log_image (crc32 D) rs"
    and "unat offset + length (log_image (crc32 D) rs) \<le> length (content f)" and "length (content f) \<le> max_off"
    and "reads_ok os" and "unat offset + length (log_image (crc32 D) rs) \<le> unat limit"
  shows "verify_loop D os f limit offset count =
    verify_loop D os f limit (of_nat (unat offset + length (log_image (crc32 D) rs))) (count + length rs)"
  using assms
proof (induction rs arbitrary: offset count)
  case Nil
  then show ?case by simp
next
  case (Cons r rs)
  let ?n = "unat offset + 9 + length (payload r)" and ?c = "crc32 D"
  let ?stop = "unat offset + length (log_image ?c (r # rs))"
  have ends: "?stop = ?n + length (log_image ?c rs)" by (simp add: log_image_Cons length_record_image)
  have sp: "bslice (content f) (unat offset) ?n @ bslice (content f) ?n ?stop = record_image ?c r @ log_image ?c rs"
  proof -
    have "bslice (content f) (unat offset) ?stop = bslice (content f) (unat offset) ?n @ bslice (content f) ?n ?stop"
      by (rule bslice_split) (simp_all add: ends)
    moreover have "bslice (content f) (unat offset) ?stop = record_image ?c r @ log_image ?c rs"
      unfolding Cons.prems(3) by (rule log_image_Cons)
    ultimately show ?thesis by metis
  qed
  have "length (bslice (content f) (unat offset) ?n) = length (record_image ?c r)"
    using Cons.prems(4) ends by (simp add: length_bslice length_record_image)
  then have parts: "bslice (content f) (unat offset) ?n = record_image ?c r" "bslice (content f) ?n ?stop = log_image ?c rs"
    using sp append_eq_append_conv by blast+
  have rin: "rec_in D (content f) ?n (unat offset) r"
    using Cons.prems parts(1) ends by (simp add: rec_in_def)
  have ok: "record_ok r" using Cons.prems(1) by simp
  let ?f = "\<lparr>frame_len = of_nat (length (payload r)), frame_kind = rec_kind r, frame_crc = ?c (payload r)\<rparr>"
  note rd = read_frame_rec_in [OF rin Cons.prems(5,6)] read_payload_rec_in [OF rin Cons.prems(5,6)]
  have step: "unat (offset + total_len ?f) = ?n"
    using verify_step(1) [OF rd(1), of "payload r"] rd(2) ok by (simp add: unat_payload_len)
  have "verify_loop D os f limit offset count = verify_loop D os f limit (offset + total_len ?f) (count + 1)"
    using rd ok ends Cons.prems(7)
    by (subst verify_loop.simps) (simp add: unat_payload_len verify_payload_def word_less_nat_alt)
  also have "\<dots> = verify_loop D os f limit (of_nat (?n + length (log_image ?c rs))) (count + 1 + length rs)"
    using Cons.prems parts(2) step ends by (subst Cons.IH) simp_all
  finally show ?case using ends by (simp add: add.assoc)
qed

lemma verify_damaged:
  assumes "log_is D (content f) (unat L) (pre @ r # post)"
    and "length (content f) \<le> max_off" and "reads_ok os" and "detects_one_byte (crc32 D)"
    and "i < length (payload r)" and "b \<noteq> payload r ! i"
    and "at = 128 + length (log_image (crc32 D) pre)" and g: "content g = (content f)[at + 9 + i := b]"
  shows "verify_loop D os g L LOG_START 0 = Inl (RecordChecksum (of_nat at))"
proof -
  have log: "128 \<le> unat L" "unat L \<le> length (content f)" "\<forall>q\<in>set (pre @ r # post). record_ok q"
    "bslice (content f) 128 (unat L) = log_image (crc32 D) (pre @ r # post)"
    using assms(1) by (simp_all add: log_is_def)
  have rin: "rec_in D (content f) (unat L) at r" using log_is_split [OF assms(1)] assms(7) by simp
  then have le: "at + 9 + length (payload r) \<le> unat L" by (simp add: rec_in_def)
  have oat: "unat (of_nat at :: u64) = at" using le log(2) assms(2) by (simp add: word_nat max_off_def)
  have "bslice (content f) 128 at = bslice (bslice (content f) 128 (unat L)) (128 - 128) (at - 128)"
    using assms(7) le by (intro bslice_within) auto
  then have pre: "bslice (content f) 128 at = log_image (crc32 D) pre"
    unfolding log(4) using assms(7) by (simp add: bslice_def)
  have gp: "bslice (content g) 128 at = log_image (crc32 D) pre"
    using pre by (simp add: g bslice_update_out)
  have lg: "length (content g) = length (content f)" by (simp add: g)
  have "verify_loop D os g L LOG_START 0 =
      verify_loop D os g L (of_nat (unat LOG_START + length (log_image (crc32 D) pre))) (0 + length pre)"
    using log assms(2,3,7) gp lg le by (intro verify_loop_records) auto
  also have "\<dots> = verify_loop D os g L (of_nat at) (length pre)" using assms(7) by simp
  also have "\<dots> = Inl (RecordChecksum (of_nat at))"
  proof -
    have "rec_in D (content f) (unat L) (unat (of_nat at :: u64)) r" using rin oat by simp
    note rd = read_damaged_record [OF this assms(2,3,4,5,6), of g, unfolded oat, OF g]
    have "(of_nat at :: u64) < L" using oat le by (simp add: word_less_nat_alt)
    moreover have "record_ok r" using log(3) by simp
    ultimately show ?thesis
      using rd by (subst verify_loop.simps) (simp add: unat_payload_len verify_payload_def)
  qed
  finally show ?thesis .
qed

lemma read_damaged:
  assumes "rec_in D (content f) n (unat off) r" and "length (content f) \<le> max_off" and "reads_ok os"
    and "detects_one_byte (crc32 D)" and "i < length (payload r)" and "b \<noteq> payload r ! i"
    and "content g = (content f)[unat off + 9 + i := b]"
  shows "read_record_at D os g off = Inl (RecordChecksum off)"
proof -
  have "record_ok r" using assms(1) by (simp add: rec_in_def)
  then show ?thesis
    using read_damaged_record [OF assms] by (simp add: read_record_at_def unat_payload_len verify_payload_def)
qed

text \<open>
  C11: verification finds damage: one changed byte in the payload of any committed record makes
  it report a checksum failure at the offset of exactly that record.
\<close>

theorem verify_detects_damage:
  assumes "log_is D (content (se_file e)) (unat (log_end (se_header e))) (pre @ r # post)"
    and "length (content (se_file e)) \<le> max_off" and "reads_ok os" and "detects_one_byte (crc32 D)"
    and "i < length (payload r)" and "b \<noteq> payload r ! i"
    and "at = 128 + length (log_image (crc32 D) pre)"
  shows "verify D os (e\<lparr>se_file := damage_payload (se_file e) at i b\<rparr>) = Inl (RecordChecksum (of_nat at))"
  using verify_damaged [OF assms, of "damage_payload (se_file e) at i b"]
  by (simp add: verify_def damage_payload_def)

definition damage_sample :: Record where
  "damage_sample = \<lparr>rec_kind = Blob, payload = [7]\<rparr>"

definition damage_engine :: StorageEngine where
  "damage_engine = (fresh (sample_deps sum_crc) [])
     \<lparr>se_file := disk_file (replicate 128 0 @ record_image sum_crc damage_sample),
      se_header := Header_initial\<lparr>log_end := 138\<rparr>\<rparr>"

theorem verify_detects_damage_witness:
  "verify (sample_deps sum_crc) os_ok
     (damage_engine\<lparr>se_file := damage_payload (se_file damage_engine) 128 0 8\<rparr>) = Inl (RecordChecksum (of_nat 128))"
proof (rule verify_detects_damage [where pre = "[]" and r = damage_sample and post = "[]", OF _ _ os_ok_reads_ok])
  have "length (record_image sum_crc damage_sample) = 10" by (simp add: length_record_image damage_sample_def)
  then show "log_is (sample_deps sum_crc) (content (se_file damage_engine)) (unat (log_end (se_header damage_engine)))
      ([] @ damage_sample # [])" "length (content (se_file damage_engine)) \<le> max_off"
    by (simp_all add: log_is_def damage_engine_def bslice_def record_ok_def max_off_def) (simp add: damage_sample_def)
qed (simp_all add: damage_sample_def sum_crc_detects)

text \<open>
  C12: in a safe run damage is never handed to a client: with one changed byte in the payload of a live
  document, reading it fails with a checksum error at its offset.
\<close>

theorem read_detects_damage:
  assumes "safely_reachable D e" and "reads_ok os" and "detects_one_byte (crc32 D)"
    and "read_record D os e d = Inr r" and "offset_of (se_index e) d = Some off"
    and "i < length (payload r)" and "b \<noteq> payload r ! i"
  shows "read_record D os (e\<lparr>se_file := damage_payload (se_file e) (unat off) i b\<rparr>) d = Inl (RecordChecksum off)"
proof -
  note core = reachable_core [OF assms(1)]
  note ix = reachable_index_ok [OF assms(1)] and b3 = core_inv_bounds(3) [OF core]
  have o: "fmlookup (offsets (se_index e)) d = Some off" "d |\<notin>| dead (se_index e)"
    using assms(5) by (auto simp: offset_of_def split: if_splits)
  then obtain r' where r': "rec_in D (content (se_file e)) (unat (se_end e)) (unat off) r'"
    using ix unfolding index_ok_def by blast
  have "r' = r" using read_record_rec_in [OF r' b3 assms(2)] assms(4) o by (simp add: read_record_def)
  then have rin: "rec_in D (content (se_file e)) (unat (se_end e)) (unat off) r" using r' by simp
  show ?thesis
    using read_damaged [OF rin b3 assms(2,3,6,7)] o by (simp add: read_record_def damage_payload_def)
qed

definition read_engine :: StorageEngine where
  "read_engine = snd (append (sample_deps sum_crc) os_ok (fresh (sample_deps sum_crc) []) Blob [7])"

lemma read_engine_put:
  "append (sample_deps sum_crc) os_ok (fresh (sample_deps sum_crc) []) Blob [7] = (Inr (DocId 1), read_engine)"
  using append_ok [OF os_ok_all_ok, of "fresh (sample_deps sum_crc) []" "[7]" "sample_deps sum_crc" Blob]
  by (auto simp: fits_def fresh_def max_off_def MasterIndex_default_def read_engine_def)

lemma fresh_reachable: "safely_reachable D (fresh D path)"
  unfolding safely_reachable_def using fresh_init trace_nil by metis

theorem read_detects_damage_witness:
  "read_record (sample_deps sum_crc) os_ok
     (read_engine\<lparr>se_file := damage_payload (se_file read_engine) (unat (128 :: u64)) 0 8\<rparr>) (DocId 1) =
   Inl (RecordChecksum 128)"
proof (rule read_detects_damage [OF reachable_put [OF fresh_reachable read_engine_put] os_ok_reads_ok])
  show "read_record (sample_deps sum_crc) os_ok read_engine (DocId 1) = Inr \<lparr>rec_kind = Blob, payload = [7]\<rparr>"
    using inv_read [OF reach_inv [OF reachable_put [OF fresh_reachable read_engine_put]] os_ok_reads_ok]
      docs_get_put [OF fresh_reachable read_engine_put] engine_docs_wf [OF fresh_reachable, of "sample_deps sum_crc" "[]"]
    by (simp add: docs_dir.look_add) (simp add: engine_docs_def fresh_def MasterIndex_default_def)
  show "offset_of (se_index read_engine) (DocId 1) = Some 128"
    using docs_get_put(3) [OF fresh_reachable read_engine_put]
    by (simp add: fresh_def offset_of_def idx_append_eq MasterIndex_default_def LOG_START_eq)
qed (simp_all add: sum_crc_detects)

section \<open>Opening what cannot be opened\<close>

lemma short_of_nat: "n < 128 \<Longrightarrow> 0 < n \<Longrightarrow> (0 :: u64) < of_nat n \<and> (of_nat n :: u64) < LOG_START"
  by (simp add: word_less_nat_alt word_nat)

text \<open>
  C28: a power loss while a database is being created can leave a file of 1 to 127 bytes; such
  a file never opens again, neither as a database nor as a new one.
\<close>

theorem interrupted_creation:
  assumes "open_fault os = None" and "wr_fault os 0 = Some (n, err)" and "0 < n" and "n < 128"
  shows "\<exists>f. engine_open D os path None = (Inl (Io err), f) \<and> length (content f) = n \<and>
    (\<forall>os' path'. reads_ok os' \<longrightarrow> engine_open D os' path' (Some f) = (Inl (UnexpectedEof 0 LOG_START), f))"
proof -
  let ?r = "header_region D"
  let ?f = "\<lparr>content = take n ?r, older = [[]], ops = 1\<rparr>"
  have r: "put_at (replicate 128 0) 0 (Header_encode (crc32 D) Header_initial) = ?r"
    by (simp add: header_region_def)
  have ne: "?r \<noteq> []" using length_header_region [of D] by fastforce
  have "write_all_at os empty_file ?r 0 = (Inl err, ?f)"
    using ne assms(2,4) by (simp add: write_all_at_def empty_file_def Let_def pwrite_empty max_off_def)
  then have "engine_open D os path None = (Inl (Io err), ?f)"
    using assms(1) r by (simp add: engine_open_def empty_file_def initialize_def engine_write_def on_file_def)
  moreover have len: "length (content ?f) = n" using assms(4) by simp
  moreover have "engine_open D os' path' (Some ?f) = (Inl (UnexpectedEof 0 LOG_START), ?f)" if "reads_ok os'" for os' path'
    using that short_of_nat [OF assms(4,3)] len by (simp add: engine_open_def load_def reads_ok_def)
  ultimately show ?thesis by blast
qed

theorem interrupted_creation_witness:
  "\<exists>f. engine_open sample_D (os_ok\<lparr>wr_fault := \<lambda>_. Some (64, OsError 28)\<rparr>) ''sample.cndb'' None =
      (Inl (Io (OsError 28)), f) \<and> length (content f) = 64 \<and>
    (\<forall>os' path'. reads_ok os' \<longrightarrow> engine_open sample_D os' path' (Some f) = (Inl (UnexpectedEof 0 LOG_START), f))"
  by (rule interrupted_creation) (simp_all add: os_ok_def)

lemma load_region:
  assumes "128 \<le> length (content f)" and "length (content f) \<le> max_off" and "reads_ok os"
  shows "\<not> of_nat (length (content f)) < LOG_START"
    and "read_exact_at os f (HEADER_SIZE * HEADER_SLOTS) 0 = Inr (bslice (content f) 0 128)"
proof -
  have "unat (of_nat (length (content f)) :: u64) = length (content f)"
    using assms(2) by (simp add: word_nat max_off_def)
  then show "\<not> of_nat (length (content f)) < LOG_START" using assms(1) by (simp add: word_less_nat_alt)
  show "read_exact_at os f (HEADER_SIZE * HEADER_SLOTS) 0 = Inr (bslice (content f) 0 128)"
    using read_exact_at_ok [OF assms(3), of 0 128 f] assms(1,2) by simp
qed

lemma open_first_error:
  assumes "128 \<le> length (content f)" and "length (content f) \<le> max_off" and "reads_ok os"
    and "Header_decode (crc32 D) (slot_bytes (content f) 0) 0 = Inl err0"
    and "Header_decode (crc32 D) (slot_bytes (content f) 1) 1 = Inl err1"
  shows "engine_open D os path (Some f) = (Inl err0, f)"
proof -
  have 0: "bslice (bslice (content f) 0 128) 0 64 = slot_bytes (content f) 0" using slot_of_region [of 0] by simp
  have 1: "bslice (bslice (content f) 0 128) 64 128 = slot_bytes (content f) 1" using slot_of_region [of 1] by simp
  have "decode_slots (crc32 D) (bslice (content f) 0 128) [0..<HEADER_SLOTS] None = ([None, None], Some err0)"
    using assms(4,5) by (simp add: numeral_2_eq_2 0 1 Let_def)
  moreover have "0 < length (content f)" using assms(1) by linarith
  ultimately show ?thesis
    using engine_open_existing [OF _ assms(2,3)] load_region [OF assms(1-3)] by (simp add: load_def)
qed

lemma open_truncated:
  assumes "128 \<le> length (content f)" and "length (content f) \<le> max_off" and "reads_ok os"
    and "select_live [slot_header D (slot_bytes (content f) 0), slot_header D (slot_bytes (content f) 1)] = Inr (h, live)"
    and "length (content f) < unat (log_end h)"
  shows "engine_open D os path (Some f) = (Inl (UnexpectedEof (of_nat (length (content f))) (log_end h)), f)"
proof -
  have "unat (of_nat (length (content f)) :: u64) = length (content f)"
    using assms(2) by (simp add: word_nat max_off_def)
  then have "of_nat (length (content f)) < log_end h" using assms(5) by (simp add: word_less_nat_alt)
  moreover obtain err where "decode_slots (crc32 D) (bslice (content f) 0 128) [0..<HEADER_SLOTS] None =
      ([slot_header D (slot_bytes (content f) 0), slot_header D (slot_bytes (content f) 1)], err)"
    using decode_slots_region by (metis prod.collapse)
  moreover have "0 < length (content f)" using assms(1) by linarith
  ultimately show ?thesis
    using engine_open_existing [OF _ assms(2,3)] load_region [OF assms(1-3)] assms(4) by (simp add: load_def)
qed

lemma settled_select:
  assumes "core_inv D e" and "settled D e"
  shows "select_live [slot_header D (slot_bytes (content (se_file e)) 0), slot_header D (slot_bytes (content (se_file e)) 1)] =
    Inr (se_header e, se_live_slot e)"
proof -
  let ?h = "\<lambda>i. slot_header D (slot_bytes (content (se_file e)) i)"
  have live: "se_live_slot e < 2" "?h (se_live_slot e) = Some (se_header e)"
    using assms(1) core_inv_live by (simp_all add: core_inv_def)
  have d: "disk_ok D (se_file e) (unat (se_end e))" using assms(1) by (simp add: core_inv_def)
  have lt: "generation k < generation (se_header e)" if "i < 2" "i \<noteq> se_live_slot e" "?h i = Some k" for i k
  proof -
    have "generation k \<le> generation (se_header e)" using assms(2) that unfolding settled_def by blast
    moreover have "apart k (se_header e)"
      using disk_ok_apart [OF d that(1) live(1) that(2)] cand_now [OF that(3)] cand_now [OF live(2)] by blast
    ultimately show ?thesis by (auto simp: apart_def)
  qed
  show ?thesis
  proof (cases "se_live_slot e = 0")
    case True
    then show ?thesis using live(2) lt [of 1] by (cases "?h 1") (auto simp: not_le)
  next
    case False
    then have "se_live_slot e = 1" using live(1) by linarith
    then show ?thesis using live(2) lt [of 0] by (cases "?h 0") (auto simp: less_imp_le)
  qed
qed

definition long_header :: Header where
  "long_header = \<lparr>generation = 1, master_ptr = 128, master_len = 1, log_end = 1000\<rparr>"

text \<open>
  C29: a file that cannot be a database of what its headers say is refused with what is wrong:
  when the live header claims more bytes than the file has, \<open>open\<close> reports how many are needed
  and where the file ends; when neither slot decodes, it reports what is wrong with the first
  slot, not that there is no valid header. The file is left as it is.
\<close>

theorem open_refuses:
  assumes "128 \<le> length (content f)" and "length (content f) \<le> max_off" and "reads_ok os"
  shows "(\<forall>h live. select_live [slot_header D (slot_bytes (content f) 0), slot_header D (slot_bytes (content f) 1)] = Inr (h, live) \<longrightarrow>
      length (content f) < unat (log_end h) \<longrightarrow>
      engine_open D os path (Some f) = (Inl (UnexpectedEof (of_nat (length (content f))) (log_end h)), f)) \<and>
    (\<forall>err0 err1. Header_decode (crc32 D) (slot_bytes (content f) 0) 0 = Inl err0 \<longrightarrow>
      Header_decode (crc32 D) (slot_bytes (content f) 1) 1 = Inl err1 \<longrightarrow>
      engine_open D os path (Some f) = (Inl err0, f))"
  using open_truncated [OF assms] open_first_error [OF assms] by blast

theorem open_refuses_witness:
  "engine_open sample_D os_ok ''x'' (Some (disk_file (Header_encode count_crc long_header @ replicate 64 0))) =
     (Inl (UnexpectedEof 128 1000), disk_file (Header_encode count_crc long_header @ replicate 64 0)) \<and>
   engine_open sample_D os_ok ''x'' (Some (disk_file (replicate 128 0))) =
     (Inl (BadMagic MAGIC [0, 0, 0, 0]), disk_file (replicate 128 0))"
proof
  let ?c = "Header_encode count_crc long_header @ replicate 64 0"
  have "slot_bytes ?c 0 = Header_encode count_crc long_header" "slot_bytes ?c 1 = replicate 64 0"
    by (simp_all add: slot_bytes_def bslice_def)
  then have "select_live [slot_header sample_D (slot_bytes (content (disk_file ?c)) 0),
      slot_header sample_D (slot_bytes (content (disk_file ?c)) 1)] = Inr (long_header, 0)"
    using slot_header_encode [of sample_D long_header] by simp
  moreover have "length (content (disk_file ?c)) = 128" "unat (log_end long_header) = 1000" "log_end long_header = 1000"
    by (simp_all add: long_header_def)
  ultimately show "engine_open sample_D os_ok ''x'' (Some (disk_file ?c)) = (Inl (UnexpectedEof 128 1000), disk_file ?c)"
    using open_refuses [of "disk_file ?c" os_ok sample_D "''x''"] by (simp add: max_off_def)
next
  let ?f = "disk_file (replicate 128 0)"
  have s: "slot_bytes (replicate 128 0) i = replicate 64 0" if "i < 2" for i
    using that by (auto simp: slot_bytes_def bslice_def less_2_cases_iff)
  have z: "bslice (replicate 64 0) 0 4 = [0, 0, 0, (0 :: u8)]" by (simp add: bslice_def numeral_eq_Suc)
  then have "bslice (replicate 64 0) 0 4 \<noteq> MAGIC" by (simp add: MAGIC_def)
  then have d: "Header_decode (crc32 sample_D) (replicate 64 0) i = Inl (BadMagic MAGIC [0, 0, 0, 0])" for i
    using Header_decode_BadMagic z by metis
  have "Header_decode (crc32 sample_D) (slot_bytes (content ?f) 0) 0 = Inl (BadMagic MAGIC [0, 0, 0, 0])"
    "Header_decode (crc32 sample_D) (slot_bytes (content ?f) 1) 1 = Inl (BadMagic MAGIC [0, 0, 0, 0])"
    using s [of 0] s [of 1] d by simp_all
  moreover have "128 \<le> length (content ?f)" "length (content ?f) \<le> max_off" by (simp_all add: max_off_def)
  ultimately show "engine_open sample_D os_ok ''x'' (Some ?f) = (Inl (BadMagic MAGIC [0, 0, 0, 0]), ?f)"
    using open_refuses [OF _ _ os_ok_reads_ok, of ?f sample_D "''x''"] by blast
qed

end
