(* ===== verification/Engine_Tests_Damage.thy ===== *)
theory Engine_Tests_Damage
  imports Engine_Tests_Pass Integrity
begin

text \<open>
  The unit tests of the storage engine that damage, truncate or replace the file behind its back
  pass as well, on every operating system that reports no failure.
\<close>

section \<open>Damaging a file\<close>

lemma damage_ok:
  assumes "all_ok os" and "unat off + length bs \<le> max_off"
    and k: "\<And>g. content g = pwrite (content f) (unat off) bs \<Longrightarrow> versions g = [content g] \<Longrightarrow> k g"
  shows "damage os f off bs k"
proof -
  obtain g1 where w: "write_all_at os f bs off = (Inr (), g1)"
    using write_all_at_ok [OF assms(1,2), of f] by (cases "write_all_at os f bs off") auto
  obtain g where y: "sync_file os g1 = (Inr (), g)"
    using sync_file_ok [OF assms(1), of g1] by (cases "sync_file os g1") auto
  have "content g = pwrite (content f) (unat off) bs" "versions g = [content g]"
    using write_all_at_Inr(1) [OF w] sync_file_effect [OF y] by simp_all
  then show ?thesis using k w y by (simp add: damage_def)
qed

lemma bad_first_byte:
  assumes "0 < length b" and "b ! 0 \<noteq> 67"
  shows "\<exists>m. Header_decode crc b slot = Inl (BadMagic MAGIC m)"
proof -
  have "bslice b 0 4 ! 0 = b ! 0" using assms(1) by (simp add: nth_bslice)
  then have "bslice b 0 4 \<noteq> MAGIC" using assms(2) by (auto simp: MAGIC_def)
  then show ?thesis using Header_decode_BadMagic by blast
qed

lemma bad_magic_open:
  assumes "128 \<le> length (content f)" and "length (content f) \<le> max_off" and "reads_ok os"
    and "content f ! 0 \<noteq> 67" and "content f ! 64 \<noteq> 67"
  shows "fails_with is_BadMagic (fst (engine_open D os path (Some f)))"
proof -
  have l: "length (slot_bytes (content f) i) = 64" if "i < 2" for i using assms(1) that by (rule length_slot_bytes)
  have "slot_bytes (content f) 0 ! 0 \<noteq> 67" "slot_bytes (content f) 1 ! 0 \<noteq> 67"
    using assms(1,4,5) by (simp_all add: nth_slot_bytes)
  note ne = this
  obtain m where "Header_decode (crc32 D) (slot_bytes (content f) 0) 0 = Inl (BadMagic MAGIC m)"
    using bad_first_byte [OF _ ne(1)] l [of 0] by fastforce
  moreover obtain m' where "Header_decode (crc32 D) (slot_bytes (content f) 1) 1 = Inl (BadMagic MAGIC m')"
    using bad_first_byte [OF _ ne(2)] l [of 1] by fastforce
  ultimately show ?thesis using open_first_error [OF assms(1-3)] by simp
qed

lemma passes_foreign: "test_bed D os \<Longrightarrow> a_foreign_file_is_rejected_as_not_a_database D os path"
  unfolding a_foreign_file_is_rejected_as_not_a_database_def
  by (rule bad_magic_open) (simp_all add: max_off_def test_bed_def all_ok_reads_ok)

lemma passes_too_short: "test_bed D os \<Longrightarrow> a_file_too_short_to_hold_headers_is_rejected D os path"
  using short_of_nat [of 4]
  by (simp add: a_file_too_short_to_hold_headers_is_rejected_def engine_open_def load_def test_bed_def
      all_ok_def reads_ok_def)

lemma passes_both_headers: "test_bed D os \<Longrightarrow> both_headers_destroyed_is_reported_clearly D os path"
  unfolding both_headers_destroyed_is_reported_clearly_def
proof (intro bed_steps)
  fix e0 e1 e assume bed: "test_bed D os" and v: "shows_view D e (view_commit (view_put Blob (ascii ''x'') view_new))"
  have os: "all_ok os" using bed by (simp add: test_bed_def)
  note b = core_inv_bounds [OF shows_viewD(2) [OF v]]
  show "damage os (se_file e) 0 (replicate (HEADER_SIZE * HEADER_SLOTS) 0x7F)
      (\<lambda>file. fails_with is_BadMagic (fst (engine_open D os path (Some file))))"
  proof (rule damage_ok [OF os])
    fix g :: dbfile assume g: "content g = pwrite (content (se_file e)) (unat 0) (replicate (HEADER_SIZE * HEADER_SLOTS) 0x7F)"
    then have "length (content g) = length (content (se_file e))" using b by (simp add: length_pwrite)
    moreover have "content g ! i = 0x7F" if "i < 128" for i using g that by (simp add: pwrite_def nth_append)
    ultimately show "fails_with is_BadMagic (fst (engine_open D os path (Some g)))"
      using b os by (intro bad_magic_open all_ok_reads_ok) simp_all
  qed (simp add: max_off_def)
qed (assumption | simp)+

section \<open>A torn live slot\<close>

text \<open>What the slot that is not live describes.\<close>

definition previous :: "deps \<Rightarrow> StorageEngine \<Rightarrow> docs \<Rightarrow> nat \<Rightarrow> bool" where
  "previous D e d g \<longleftrightarrow> (\<exists>h idx. slot_header D (slot_bytes (content (se_file e)) (1 - se_live_slot e)) = Some h \<and>
     unat (generation h) = g \<and> snap D (content (se_file e)) h idx \<and> docs_of D (content (se_file e)) idx = d)"

lemma wp_commit_previous:
  assumes v: "shows_view D e v" and bed: "test_bed D os" and dirty: "v_dirty v" and room: "0 < v_room v"
    and k: "\<And>e'. shows_view D e' (view_commit v) \<Longrightarrow> previous D e' (v_saved v) (v_gen v) \<Longrightarrow> k () e'"
  shows "unwrap_st (commit D os e) k"
proof -
  have "unwrap_st (commit D os e) (\<lambda>_ e'. shows_view D e' (view_commit v))"
    by (rule bed_commit [OF v bed dirty room])
  then obtain e' where e': "commit D os e = (Inr (), e')" "shows_view D e' (view_commit v)"
    by (auto simp: unwrap_st_iff)
  note d = shows_viewD [OF v] and d' = shows_viewD [OF e'(2)]
  have bin: "bincode_ok D" using bed by (simp add: test_bed_def)
  note c = commit_Inr_cases [OF d(1) bin e'(1)]
  let ?h = "se_header e" and ?bs = "content (se_file e)" and ?bs' = "content (se_file e')"
  have live: "se_live_slot e < 2" by (rule core_inv_live [OF d(2)])
  have sl: "1 - se_live_slot e' = se_live_slot e" using live d'(10) d(10) by auto
  have now: "slot_header D (slot_bytes ?bs (se_live_slot e)) = Some ?h" using d(2) by (simp add: core_inv_def)
  obtain idx where sn: "snap D ?bs ?h idx" and le: "unat (log_end ?h) \<le> unat (se_end e)"
    using core_inv_header_ok [OF d(2)] unfolding header_ok_def by blast
  have "docs_of D ?bs idx = v_saved v"
    using d(8) live cand_now [OF now] sn unfolding outcomes_def by blast
  moreover have same: "bslice ?bs' 128 (unat (log_end ?h)) = bslice ?bs 128 (unat (log_end ?h))"
  proof -
    have "bslice u 128 (unat (log_end ?h)) = bslice (bslice u 128 (unat (se_end e))) 0 (unat (log_end ?h) - 128)" for u :: bytes
      using bslice_within [of 128 128 "unat (log_end ?h)" "unat (se_end e)" u] le snap_bounds [OF sn] by simp
    moreover have "bslice ?bs' 128 (unat (se_end e)) = bslice ?bs 128 (unat (se_end e))" using c by blast
    ultimately show ?thesis by metis
  qed
  moreover have len: "unat (log_end ?h) \<le> length ?bs'" using c le by linarith
  ultimately have "docs_of D ?bs' idx = v_saved v"
    using docs_of_stable [of D ?bs "unat (log_end ?h)" idx ?bs'] snap_bounds [OF sn] core_inv_bounds(3) [OF d(2)]
      core_inv_bounds(3) [OF d'(2)] by simp
  moreover have "snap D ?bs' ?h idx" using sn same len by (rule snap_stable)
  moreover have "slot_header D (slot_bytes ?bs' (1 - se_live_slot e')) = Some ?h"
    using c now sl by (metis (no_types, lifting))
  ultimately have "previous D e' (v_saved v) (v_gen v)" using d(9) unfolding previous_def by blast
  then show ?thesis using e' k by simp
qed

text \<open>Overwriting the live slot with bytes that are no header leaves the previous state.\<close>

lemma torn_heads_ok:
  assumes d: "disk_ok D f n" and st: "\<forall>i<2. stable f i" and s: "s < 2"
    and h: "slot_header D (slot_bytes (content f) (1 - s)) = Some h"
    and g: "content g = pwrite (content f) (s * 64) junk" "versions g = [content g]"
    and junk: "length junk = 64" "slot_header D junk = None"
  shows "disk_ok D g n" and "slot_header D (slot_bytes (content g) s) = None"
    and "slot_bytes (content g) (1 - s) = slot_bytes (content f) (1 - s)"
    and "bslice (content g) 128 b = bslice (content f) 128 b" and "length (content g) = length (content f)"
proof -
  have sz: "128 \<le> length (content f)" "length (content f) \<le> max_off"
    using disk_okD(1) [OF d] versions_content [of f] unfolding sized_def by blast+
  have jne: "junk \<noteq> []" using junk(1) by auto
  show len: "length (content g) = length (content f)"
    using g(1) junk(1) jne sz s by (auto simp: length_pwrite less_2_cases_iff)
  have nth: "content g ! j = (if s * 64 \<le> j \<and> j < s * 64 + 64 then junk ! (j - s * 64) else content f ! j)"
    if "j < length (content f)" for j
    using that len g(1) junk(1) by (simp add: nth_pwrite)
  show bs: "bslice (content g) 128 b = bslice (content f) 128 b" for b
    by (rule nth_equalityI) (use nth s len in \<open>auto simp: length_bslice nth_bslice less_2_cases_iff\<close>)
  have slot_nth: "slot_bytes (content g) i ! j = (if i = s then junk ! j else slot_bytes (content f) i ! j)"
    if "i < 2" "j < 64" for i j
    using that nth [of "i * 64 + j"] s sz len by (auto simp: nth_slot_bytes less_2_cases_iff)
  have lens: "length (slot_bytes (content g) i) = 64" "length (slot_bytes (content f) i) = 64" if "i < 2" for i
    using that sz len by (simp_all add: length_slot_bytes)
  have "slot_bytes (content g) s = junk"
    using slot_nth s lens junk(1) by (intro nth_equalityI) simp_all
  then show none: "slot_header D (slot_bytes (content g) s) = None" using junk(2) by simp
  show other: "slot_bytes (content g) (1 - s) = slot_bytes (content f) (1 - s)"
    using slot_nth [of "1 - s"] lens s by (intro nth_equalityI) (auto simp: less_2_cases_iff)
  have cand: "i = 1 - s \<and> k = h" if "cand D g i k" "i < 2" for i k
  proof -
    have k: "slot_header D (slot_bytes (content g) i) = Some k" using that stable_cand [OF stable_synced [OF g(2)]] by simp
    then have "i \<noteq> s" using none by auto
    then have "i = 1 - s" using that(2) s by linarith
    then show ?thesis using k other h by simp
  qed
  have o: "1 - s < 2" using s by simp
  have "header_ok D f n h" using disk_okD(3) [OF d o cand_now [OF h]] .
  then have L: "unat (log_end h) \<le> n" "unat (log_end h) \<le> length (content f)"
    and "\<exists>idx. snap D (content f) h idx" using versions_content [of f] unfolding header_ok_def by blast+
  then obtain idx where "snap D (content f) h idx" by blast
  then have "snap D (content g) h idx" using bs by (rule snap_stable) (use L len in simp)
  then have hok: "header_ok D g n h" using L len g(2) unfolding header_ok_def by auto
  have "heads_ok D g n"
    unfolding heads_ok_def
  proof (intro conjI allI impI)
    show "sized g" using sz len g(2) by (simp add: sized_def)
    show "header_ok D g n k" if "i < 2" "cand D g i k" for i k using cand [OF that(2,1)] hok by simp
    show "apart k l" if "cand D g 0 k" "cand D g 1 l" for k l using cand [OF that(1)] cand [OF that(2)] by auto
    show "\<exists>p<2. stable g p \<and> slot_header D (slot_bytes (content g) p) \<noteq> None"
      using o stable_synced [OF g(2)] other h by (intro exI [of _ "1 - s"]) simp
  qed
  then show "disk_ok D g n" using g(2) by (rule synced_disk_ok)
qed

lemma torn_reopen:
  assumes v: "shows_view D e v" and prev: "previous D e d n" and bed: "test_bed D os"
    and room: "unat (st_next d) + v_room v \<le> 100" and junk: "length junk = HEADER_SIZE" "slot_header D junk = None"
    and k: "\<And>g e' c. shows_view D e' \<lparr>v_now = d, v_saved = d, v_dirty = False, v_gen = n, v_slot = 1 - v_slot v,
      v_count = c, v_kept = c, v_room = v_room v\<rparr> \<Longrightarrow> k' e'"
  shows "damage os (se_file e) (slot_offset (live_slot e)) junk (\<lambda>g. opened (engine_open D os path (Some g)) k')"
proof -
  have os: "all_ok os" using bed by (simp add: test_bed_def)
  note dd = shows_viewD [OF v]
  have s: "se_live_slot e < 2" by (rule core_inv_live [OF dd(2)])
  obtain h idx where h: "slot_header D (slot_bytes (content (se_file e)) (1 - se_live_slot e)) = Some h"
    "unat (generation h) = n" "snap D (content (se_file e)) h idx" "docs_of D (content (se_file e)) idx = d"
    using prev unfolding previous_def by blast
  have off: "unat (slot_offset (live_slot e)) = se_live_slot e * 64" using unat_slot_offset s by (simp add: live_slot_def)
  show ?thesis
  proof (rule damage_ok [OF os])
    show "unat (slot_offset (live_slot e)) + length junk \<le> max_off" using off s junk by (auto simp: max_off_def)
    fix g :: dbfile
    assume g: "content g = pwrite (content (se_file e)) (unat (slot_offset (live_slot e))) junk" "versions g = [content g]"
    have d0: "disk_ok D (se_file e) (unat (se_end e))" and st0: "\<forall>i<2. stable (se_file e) i"
      using dd(2,3) by (simp_all add: core_inv_def settled_def)
    note t = torn_heads_ok [OF d0 st0 s h(1) g(1) [unfolded off] g(2) junk(1) [unfolded HEADER_SIZE_eq] junk(2)]
    have st: "stable g i" for i using g(2) by (rule stable_synced)
    obtain e' where e': "load D os path g (of_nat (length (content g))) = Inr e'" "engine_inv D e'" "se_file e' = g"
      "se_live_slot e' < 2" "slot_header D (slot_bytes (content g) (se_live_slot e')) = Some (se_header e')"
      "\<And>i k. i < 2 \<Longrightarrow> slot_header D (slot_bytes (content g) i) = Some k \<Longrightarrow> generation k \<le> generation (se_header e')"
      "snap D (content g) (se_header e') (se_index e')" "\<not> se_dirty e'" "se_end e' = log_end (se_header e')"
      by (rule load_disk_ok [OF t(1) stable_reopen_safe all_ok_reads_ok [OF os], of path]) (use st in blast)+
    have sl: "se_live_slot e' = 1 - v_slot v"
    proof -
      have "se_live_slot e' \<noteq> se_live_slot e" using e'(5) t(2) by auto
      then show ?thesis using e'(4) s dd(10) by linarith
    qed
    then have hd: "se_header e' = h" using e'(5) t(3) h(1) dd(10) by simp
    have "1 - se_live_slot e < 2" by simp
    then have "header_ok D (se_file e) (unat (se_end e)) h" using disk_okD(3) [OF d0 _ cand_now [OF h(1)]] by blast
    then have lh: "unat (log_end h) \<le> unat (se_end e)" "unat (log_end h) \<le> length (content g)"
      using snap_bounds [OF e'(7)] hd by (simp_all add: header_ok_def)
    have "snap D (content g) h idx" using h(3) t(4) lh(2) by (rule snap_stable)
    then have ix: "se_index e' = idx"
      using snap_unique e'(7) hd t(5) core_inv_bounds(3) [OF dd(2)] by metis
    have docs: "engine_docs D e' = d"
      using docs_of_stable [of D "content (se_file e)" "unat (log_end h)" idx "content g"] snap_bounds [OF h(3)]
        t(4,5) lh(2) core_inv_bounds(3) [OF dd(2)] h(4) ix e'(3) by (simp add: engine_docs_def)
    have set': "settled D e'" using e'(3,6) st by (simp add: settled_def)
    obtain rs where rs: "log_is D (content g) (unat (log_end h)) rs" using e'(7) hd unfolding snap_def by blast
    let ?v = "\<lparr>v_now = d, v_saved = d, v_dirty = False, v_gen = n, v_slot = 1 - v_slot v,
      v_count = length rs, v_kept = length rs, v_room = v_room v\<rparr>"
    have "roomy e' ?v" using dd(4) room lh(1) e'(9) hd by (simp add: roomy_def)
    moreover have "logged D e' ?v" using rs e'(3,9) hd by (auto simp: logged_def)
    ultimately have "shows_view D e' ?v"
      using clean_store_rel [OF e'(2,8) set'] docs e'(2) set' h(2) hd sl by (simp add: shows_view_def)
    then have "k' e'" by (rule k)
    moreover have "0 < length (content g)" "length (content g) \<le> max_off"
      using t(5) core_inv_bounds [OF dd(2)] by linarith+
    then have "engine_open D os path (Some g) = (Inr e', g)"
      using engine_open_existing [OF _ _ all_ok_reads_ok [OF os]] e'(1) by simp
    ultimately show "opened (engine_open D os path (Some g)) k'" by simp
  qed
qed

lemma previous_reopen:
  assumes v: "shows_view D e v" and prev: "previous D e d n" and bed: "test_bed D os"
    and k: "\<And>e'. shows_view D e' (view_reopen v) \<Longrightarrow> previous D e' d n \<Longrightarrow> k e'"
  shows "opened (engine_open D os path (Some (se_file e))) k"
proof -
  have "reads_ok os" using bed all_ok_reads_ok by (simp add: test_bed_def)
  then obtain e' where e': "engine_open D os path (Some (se_file e)) = (Inr e', se_file e)" "se_file e' = se_file e"
    "shows_view D e' (view_reopen v)" using shows_reopen [OF v] by blast
  have "se_live_slot e' = se_live_slot e" using shows_viewD(10) [OF e'(3)] shows_viewD(10) [OF v] by simp
  then have "previous D e' d n" using prev e'(2) by (simp add: previous_def)
  then show ?thesis using e' k by simp
qed

lemma junk_slot: "b \<noteq> 67 \<Longrightarrow> slot_header D (replicate HEADER_SIZE b) = None"
  using bad_first_byte [of "replicate HEADER_SIZE b" "crc32 D" 0] by (auto simp: slot_header_def)

lemma passes_torn: "test_bed D os \<Longrightarrow> a_torn_header_falls_back_to_the_previous_generation D os path"
  unfolding a_torn_header_falls_back_to_the_previous_generation_def Let_def
  apply (rule bed_new, assumption)
  apply (rule bed_blob, assumption+, simp, simp)
  apply (rule bed_commit, assumption+, simp, simp)
  apply (rule bed_blob, assumption+, simp, simp)
  apply (rule wp_commit_previous, assumption+, simp, simp)
  apply (rule conjI)
   apply (simp add: bed_simps)
  apply (rule previous_reopen, assumption+)
  apply (rule torn_reopen, assumption+)
     apply simp
    apply simp
   apply (rule junk_slot, simp)
  apply (simp add: bed_simps)
  done

lemma passes_recovery: "test_bed D os \<Longrightarrow> recovery_still_works_after_writing_over_the_torn_slot D os path"
  unfolding recovery_still_works_after_writing_over_the_torn_slot_def Let_def
  apply (rule bed_new, assumption)
  apply (rule bed_blob, assumption+, simp, simp)
  apply (rule bed_commit, assumption+, simp, simp)
  apply (rule bed_blob, assumption+, simp, simp)
  apply (rule wp_commit_previous, assumption+, simp, simp)
  apply (rule previous_reopen, assumption+)
  apply (rule torn_reopen, assumption+)
     apply simp
    apply simp
   apply (rule junk_slot, simp)
  apply (rule conjI)
   apply (simp add: bed_simps)
  apply (rule bed_blob, assumption+, simp, simp)
  apply (rule bed_commit, assumption+, simp, simp)
  apply (intro conjI)
    apply (simp add: bed_simps)
   apply (simp add: bed_simps)
  apply (rule bed_reopen, assumption+)
  apply (simp add: bed_simps)
  done

section \<open>A truncated file\<close>

text \<open>The file ends where the log ends, as long as nothing uncommitted was dropped.\<close>

definition exact :: "StorageEngine \<Rightarrow> bool" where
  "exact e \<longleftrightarrow> length (content (se_file e)) = unat (se_end e)"

lemma append_raw_exact:
  assumes core: "core_inv D e" and app: "append_raw D os e k p = (Inr off, e')" and "exact e"
  shows "exact e'"
proof -
  let ?n = "unat (se_end e)" and ?fr = "encode_frame (crc32 D) k p"
  have a: "appended D e \<lparr>rec_kind = k, payload = p\<rparr> e'" using append_raw_effect [OF core app] by simp
  obtain q1 f1 where w1: "write_all_at os (se_file e) ?fr (se_end e) = (q1, f1)" by fastforce
  obtain q2 f2 where w2: "write_all_at os f1 p (se_end e + RECORD_HEADER_SIZE) = (q2, f2)" by fastforce
  have "q1 = Inr () \<and> q2 = Inr () \<and> se_file e' = f2"
    using app w1 w2 by (cases q1; cases q2) (auto simp: append_raw_def Let_def engine_write_def on_file_def split: if_splits)
  note w = w1 [unfolded this [THEN conjunct1]] w2 [unfolded this [THEN conjunct2, THEN conjunct1]]
    this [THEN conjunct2, THEN conjunct2]
  have "unat (se_end e + RECORD_HEADER_SIZE) = ?n + 9"
    using core_inv_bounds [OF core] by (simp add: word_nat max_off_def)
  then have "content f2 = pwrite (pwrite (content (se_file e)) ?n ?fr) (?n + 9) p"
    using write_all_at_Inr(1) [OF w(1)] write_all_at_Inr(1) [OF w(2)] by simp
  then have "length (content f2) = ?n + 9 + length p"
    using assms(3) by (cases "p = []") (simp_all add: exact_def length_pwrite)
  then show ?thesis using appended_rec(2) [OF a] w(3) by (simp add: exact_def)
qed

lemma append_exact:
  "core_inv D e \<Longrightarrow> append D os e k p = (Inr i, e') \<Longrightarrow> exact e \<Longrightarrow> exact e'"
  using append_raw_exact by (fastforce simp: append_def st_bind_Inr_iff allocate_id_def exact_def)

lemma sync_exact: "engine_inv D e \<Longrightarrow> engine_sync os e = (r, e') \<Longrightarrow> exact e \<Longrightarrow> exact e'"
  using engine_inv_sync(2) [of D e os r e'] by (auto simp: exact_def)

lemma commit_exact:
  assumes inv: "engine_inv D e" and bin: "bincode_ok D" and c: "commit D os e = (Inr u, e')" and "se_dirty e" and "exact e"
  shows "exact e'"
proof -
  have core: "core_inv D e" using inv by (simp add: engine_inv_def)
  obtain q e1 where pre: "commit_prefix D os e = (q, e1)" by fastforce
  note eff = commit_prefix_effect [OF inv bin pre]
  obtain ptr p where q: "q = Inr (ptr, p)" using c assms(4) pre by (cases q) (auto simp: commit_split)
  then have ptr: "ptr = se_end e" and fl: "index_flushed D e p e1" using eff by auto
  have suf: "commit_suffix D os (se_end e) p e1 = (Inr u, e')" using c assms(4) pre q ptr by (simp add: commit_split)
  obtain q1 ea where s1: "engine_sync os e = (q1, ea)" by fastforce
  obtain q2 eb where s2: "append_raw D os ea MasterIndexKind p = (q2, eb)" by fastforce
  have ok: "q1 = Inr () \<and> idx_encode D (se_index ea) = Inr p"
    using pre q s1 by (cases q1; cases "idx_encode D (se_index ea)") (auto simp: commit_prefix_def st_bind_Inr_iff)
  have "q2 = Inr ptr \<and> engine_sync os eb = (Inr (), e1)"
    using pre q s1 s2 ok by (cases q2) (auto simp: commit_prefix_def st_bind_Inr_iff)
  then have s: "engine_sync os e = (Inr (), ea)" "append_raw D os ea MasterIndexKind p = (Inr ptr, eb)"
    "engine_sync os eb = (Inr (), e1)" using s1 s2 ok by simp_all
  have ia: "engine_inv D ea" by (rule engine_inv_sync(1) [OF inv s(1)])
  then have ca: "core_inv D ea" by (simp add: engine_inv_def)
  have xb: "exact eb" by (rule append_raw_exact [OF ca s(2) sync_exact [OF inv s(1) assms(5)]])
  have ab: "appended D ea \<lparr>rec_kind = MasterIndexKind, payload = p\<rparr> eb" using append_raw_effect [OF ca s(2)] by simp
  have "engine_inv D eb" using appended_core_inv [OF ca ab] appended_sel(5) [OF ab] by (rule dirty_engine_inv)
  then have x1: "exact e1" using s(3) xb by (rule sync_exact)
  obtain f where f: "header_in_flight D e1 (next_header e p) f"
      "e' = e1\<lparr>se_file := f, se_header := next_header e p,
                 se_slots := (se_slots e)[victim_slot (se_slots e) := Some (next_header e p)],
                 se_live_slot := victim_slot (se_slots e), se_dirty := False\<rparr>"
    using commit_suffix_effect [OF core fl _ suf] by auto
  show ?thesis using header_in_flightD(4) [OF f(1)] x1 f(2) by (simp add: exact_def)
qed

text \<open>The start most of the tests share: one document, committed.\<close>

lemma one_document:
  assumes bed: "test_bed D os" and len: "length body \<le> 4000"
  obtains e1 e where "blob D os (fresh D path) body = (Inr (DocId 1), e1)" and "commit D os e1 = (Inr (), e)"
    and "shows_view D e1 (view_put Blob (ascii body) view_new)"
    and "shows_view D e (view_commit (view_put Blob (ascii body) view_new))"
proof -
  have "unwrap_st (blob D os (fresh D path) body) (\<lambda>i e1. i = DocId 1 \<and> shows_view D e1 (view_put Blob (ascii body) view_new))"
    by (rule bed_blob [OF fresh_shows bed _ len]) simp_all
  then obtain e1 where e1: "blob D os (fresh D path) body = (Inr (DocId 1), e1)"
    "shows_view D e1 (view_put Blob (ascii body) view_new)" by (auto simp: unwrap_st_iff)
  have "unwrap_st (commit D os e1) (\<lambda>_ e. shows_view D e (view_commit (view_put Blob (ascii body) view_new)))"
    by (rule bed_commit [OF e1(2) bed]) simp_all
  then show thesis using that e1 by (auto simp: unwrap_st_iff)
qed

lemma fresh_blob:
  assumes "blob D os (fresh D path) body = (Inr i, e1)"
  shows "appended D (fresh D path) \<lparr>rec_kind = Blob, payload = ascii body\<rparr> (e1\<lparr>se_index := MasterIndex_default\<rparr>)"
    and "se_index e1 = idx_append MasterIndex_default 128" and "unat (se_end e1) = 137 + length body"
proof -
  have core: "core_inv D (fresh D path)" using fresh_inv by (simp add: engine_inv_def)
  obtain e where a: "appended D (fresh D path) \<lparr>rec_kind = Blob, payload = ascii body\<rparr> e"
    and e: "e1 = e\<lparr>se_index := idx_append (se_index (fresh D path)) (se_end (fresh D path))\<rparr>"
    using append_effect [OF core assms [unfolded blob_def]] by auto
  show "se_index e1 = idx_append MasterIndex_default 128" using e by (simp add: fresh_def LOG_START_eq)
  have "se_index e = MasterIndex_default" using appended_sel(4) [OF a] by (simp add: fresh_def)
  then have "e1\<lparr>se_index := MasterIndex_default\<rparr> = e" using e by simp
  then show "appended D (fresh D path) \<lparr>rec_kind = Blob, payload = ascii body\<rparr> (e1\<lparr>se_index := MasterIndex_default\<rparr>)"
    using a by simp
  show "unat (se_end e1) = 137 + length body" using appended_rec(2) [OF a] e by (simp add: fresh_def)
qed

lemma passes_truncated: "test_bed D os \<Longrightarrow> a_truncated_file_is_rejected_rather_than_half_read D os path"
proof -
  assume bed: "test_bed D os"
  then have os: "all_ok os" and bin: "bincode_ok D" by (simp_all add: test_bed_def)
  let ?b = "''a document long enough to matter''"
  obtain e1 e where e: "blob D os (fresh D path) ?b = (Inr (DocId 1), e1)" "commit D os e1 = (Inr (), e)"
    "shows_view D e1 (view_put Blob (ascii ?b) view_new)" "shows_view D e (view_commit (view_put Blob (ascii ?b) view_new))"
    by (rule one_document [OF bed, of ?b path]) simp_all
  note d1 = shows_viewD [OF e(3)] and d = shows_viewD [OF e(4)]
  have core0: "core_inv D (fresh D path)" using fresh_inv by (simp add: engine_inv_def)
  have "exact (fresh D path)" by (simp add: exact_def fresh_def)
  then have "exact e1" using append_exact [OF core0 e(1) [unfolded blob_def]] by simp
  moreover have dirty: "se_dirty e1" using d1(7) by simp
  ultimately have x: "exact e" by (rule commit_exact [OF d1(1) bin e(2), rotated])
  let ?len = "length (content (se_file e))" and ?h = "se_header e"
  let ?g = "shrink (se_file e) (?len - 16)"
  have le: "log_end ?h = se_end e" using d(1,7) by (simp add: engine_inv_def clean_ok_def)
  obtain p where "idx_encode D (se_index e1) = Inr p" "unat (log_end ?h) = unat (se_end e1) + 9 + length p"
    using commit_Inr_cases [OF d1(1) bin e(2)] dirty by auto
  then have big: "144 \<le> ?len" using fresh_blob(3) [OF e(1)] x le by (simp add: exact_def)
  have g: "content ?g = take (?len - 16) (content (se_file e))" by (simp add: shrink_def)
  have sl: "slot_bytes (content ?g) i = slot_bytes (content (se_file e)) i" if "i < 2" for i
    using big that by (intro slot_bytes_take [of 128]) (simp_all add: g)
  have "select_live [slot_header D (slot_bytes (content ?g) 0), slot_header D (slot_bytes (content ?g) 1)] = Inr (?h, se_live_slot e)"
    using settled_select [OF d(2,3)] sl [of 0] sl [of 1] by simp
  moreover have "128 \<le> length (content ?g)" "length (content ?g) \<le> max_off" "length (content ?g) < unat (log_end ?h)"
    using big x le core_inv_bounds(3) [OF d(2)] unfolding g by (simp_all add: exact_def)
  ultimately have "engine_open D os path (Some ?g) = (Inl (UnexpectedEof (of_nat (length (content ?g))) (log_end ?h)), ?g)"
    using all_ok_reads_ok [OF os] by (intro open_truncated)
  then show ?thesis
    by (simp add: a_truncated_file_is_rejected_rather_than_half_read_def open_fresh_eq [OF os] e(1,2) Let_def)
qed

section \<open>A corrupted payload\<close>

lemma offset_default [simp]: "offset_of (idx_append MasterIndex_default 128) (DocId 1) = Some 128"
  by (simp add: offset_of_def idx_append_eq MasterIndex_default_def)

lemma passes_corruption:
  assumes bed: "test_bed D os" and crc: "detects_one_byte (crc32 D)"
  shows "corruption_in_the_payload_is_caught_on_read D os path"
proof -
  have os: "all_ok os" and bin: "bincode_ok D" using bed by (simp_all add: test_bed_def)
  let ?b = "''the payload we will damage''" and ?off = "128 + RECORD_HEADER_SIZE + 4 :: u64"
  let ?r = "\<lparr>rec_kind = Blob, payload = ascii ?b\<rparr>"
  obtain e1 e where e: "blob D os (fresh D path) ?b = (Inr (DocId 1), e1)" "commit D os e1 = (Inr (), e)"
    "shows_view D e1 (view_put Blob (ascii ?b) view_new)" "shows_view D e (view_commit (view_put Blob (ascii ?b) view_new))"
    by (rule one_document [OF bed, of ?b path]) simp_all
  note d1 = shows_viewD [OF e(3)] and d = shows_viewD [OF e(4)] and fb = fresh_blob [OF e(1)]
  have dirty: "se_dirty e1" using d1(7) by simp
  note c = commit_Inr_cases [OF d1(1) bin e(2)]
  have ix: "se_index e = idx_append MasterIndex_default 128" using c fb(2) by simp
  have log0: "log_is D (content (se_file (fresh D path))) (unat (se_end (fresh D path))) []"
    using log_is_empty [of "content (se_file (fresh D path))" D] by (simp add: fresh_def)
  have log1: "log_is D (content (se_file e1)) (unat (se_end e1)) [?r]" using appended_log [OF log0 fb(1)] by simp
  obtain m where log: "log_is D (content (se_file e)) (unat (log_end (se_header e))) ([] @ ?r # [m])"
    using commit_log [OF d1(1) bin e(2) dirty log1] by auto
  have r: "rec_in D (content (se_file e)) (unat (log_end (se_header e))) 128 ?r" using log_is_split [OF log] by simp
  obtain p where p: "idx_encode D (se_index e1) = Inr p" "se_header e = next_header e1 p"
    "rec_in D (content (se_file e)) (unat (log_end (se_header e))) (unat (se_end e1)) \<lparr>rec_kind = MasterIndexKind, payload = p\<rparr>"
    using c dirty by auto
  have bounds: "128 \<le> length (content (se_file e))" "length (content (se_file e)) \<le> max_off"
    "unat (log_end (se_header e)) \<le> length (content (se_file e))"
    using core_inv_bounds [OF d(2)] log by (simp_all add: log_is_def)
  have "137 + length ?b \<le> unat (log_end (se_header e))" using r by (simp add: rec_in_def)
  then have long: "163 \<le> length (content (se_file e))" using bounds(3) by simp
  have off: "unat ?off = 141" by (simp add: RECORD_HEADER_SIZE_def)
  have "damage os (se_file e) ?off (ascii ''X'') (\<lambda>file. opened (engine_open D os path (Some file)) (\<lambda>engine.
      fails_with is_RecordChecksum (read_doc D os engine (DocId 1)) \<and> fails_with is_RecordChecksum (verify D os engine)))"
  proof (rule damage_ok [OF os])
    show "unat ?off + length (ascii ''X'') \<le> max_off" unfolding off by (simp add: max_off_def)
    fix g :: dbfile
    assume "content g = pwrite (content (se_file e)) (unat ?off) (ascii ''X'')"
    then have "content g = pwrite (content (se_file e)) 141 [88]" unfolding off by (simp add: ascii_def)
    then have g: "content g = (content (se_file e))[141 := 88]"
      using long by (simp add: pwrite_def upd_conv_take_nth_drop)
    have lg: "length (content g) = length (content (se_file e))" by (simp add: g)
    have ne: "4 < length (payload ?r)" "88 \<noteq> payload ?r ! 4" by (simp_all add: ascii_def)
    have sl: "slot_bytes (content g) i = slot_bytes (content (se_file e)) i" if "i < 2" for i
      using that by (auto simp: slot_bytes_def g bslice_update_out less_2_cases_iff)
    have sel: "select_live [slot_header D (slot_bytes (content g) 0), slot_header D (slot_bytes (content g) 1)] =
        Inr (se_header e, se_live_slot e)"
      using settled_select [OF d(2,3)] sl [of 0] sl [of 1] by simp
    have "rec_in D (content g) (unat (log_end (se_header e))) (unat (se_end e1)) \<lparr>rec_kind = MasterIndexKind, payload = p\<rparr>"
      using p(3) fb(3) by (simp add: rec_in_def g bslice_update_out)
    note rd = read_record_rec_in [OF this _ all_ok_reads_ok [OF os]]
    have mh: "master_ptr (se_header e) = se_end e1" "master_len (se_header e) = of_nat (length p)"
      using p(2) by (simp_all add: next_header_def)
    have "length p \<le> 67108864" "p \<noteq> []" "idx_decode D p = Inr (se_index e)"
      using p(3) idx_encode_InrD [OF bin p(1)] c by (simp_all add: rec_in_def record_ok_def)
    moreover from this have "master_len (se_header e) \<noteq> 0" unfolding mh by (simp add: word_unat_eq_iff word_nat)
    ultimately have "load_index D os g (se_header e) = Inr (se_index e)"
      using rd lg bounds(2) by (simp add: load_index_def mh(1))
    then have ld: "load D os path g (of_nat (length (content g))) = Inr (loaded D path g (se_header e) (se_live_slot e) (se_index e))"
      using bounds lg sel all_ok_reads_ok [OF os] by (intro load_loaded) simp_all
    let ?e = "loaded D path g (se_header e) (se_live_slot e) (se_index e)"
    have lsel: "se_index ?e = idx_append MasterIndex_default 128" "se_file ?e = g" "se_header ?e = se_header e"
      using ix by (simp_all add: loaded_def)
    have "0 < length (content g)" "length (content g) \<le> max_off" using lg bounds by linarith+
    then have op: "engine_open D os path (Some g) = (Inr ?e, g)"
      using engine_open_existing [OF _ _ all_ok_reads_ok [OF os]] ld by simp
    have "read_record_at D os g 128 = Inl (RecordChecksum 128)"
      by (rule read_damaged [OF _ bounds(2) all_ok_reads_ok [OF os] crc ne, of _ _ g]) (use r g in simp_all)
    then have "read_record D os ?e (DocId 1) = Inl (RecordChecksum 128)"
      by (simp add: read_record_def lsel idx_append_eq MasterIndex_default_def)
    moreover have "verify D os ?e = Inl (RecordChecksum (of_nat 128))"
      using verify_damaged [OF log bounds(2) all_ok_reads_ok [OF os] crc ne, of 128 g] g by (simp add: verify_def lsel)
    ultimately show "opened (engine_open D os path (Some g)) (\<lambda>engine.
      fails_with is_RecordChecksum (read_doc D os engine (DocId 1)) \<and> fails_with is_RecordChecksum (verify D os engine))"
      using op by (simp add: read_doc_def)
  qed
  then show ?thesis
    by (simp add: corruption_in_the_payload_is_caught_on_read_def open_fresh_eq [OF os] e(1,2) engine_index_def ix)
qed

end
