(* ===== verification/Float64.thy ===== *)
theory Float64
  imports Cndb_Prelude "HOL-Library.Log_Nat"
begin

text \<open>
  Non-negative IEEE 754 binary64 numbers, as far as the program uses \<open>f64\<close>: the conversion of
  a \<open>usize\<close> and the division of two converted counts, both rounding to the nearest number and
  ties to the even one. The model has no largest or smallest exponent: quotients of 64-bit
  counts stay between \<open>2 powi - 64\<close> and \<open>2 powi 64\<close>, well inside the normal range.
\<close>

text \<open>
  A finite number is zero, or a significand of 53 bits with the top bit set, times a power of
  two.
\<close>

datatype f64 = FZero | FNormal nat int | FInfinity | FNaN

definition f64_ok :: "f64 \<Rightarrow> bool" where
  "f64_ok x = (case x of FZero \<Rightarrow> True | FNormal m e \<Rightarrow> 2 ^ 52 \<le> m \<and> m < 2 ^ 53 | _ \<Rightarrow> False)"

definition f64_val :: "f64 \<Rightarrow> real" where
  "f64_val x = (case x of FZero \<Rightarrow> 0 | FNormal m e \<Rightarrow> real m * 2 powi e | _ \<Rightarrow> 0)"

lemma f64_val_simps [simp]: "f64_val FZero = 0" "f64_val (FNormal m e) = real m * 2 powi e"
  "f64_val FInfinity = 0" "f64_val FNaN = 0"
  by (simp_all add: f64_val_def)

lemma f64_ok_simps [simp]: "f64_ok FZero" "f64_ok (FNormal m e) \<longleftrightarrow> 2 ^ 52 \<le> m \<and> m < 2 ^ 53"
  "\<not> f64_ok FInfinity" "\<not> f64_ok FNaN"
  by (simp_all add: f64_ok_def)

section \<open>Rounding a quotient\<close>

text \<open>The quotient \<open>a / b\<close> divided by \<open>2 powi e\<close>, as a quotient of naturals.\<close>

definition scaled :: "nat \<Rightarrow> nat \<Rightarrow> int \<Rightarrow> nat \<times> nat" where
  "scaled a b e = (if 0 \<le> e then (a, b * 2 ^ nat e) else (a * 2 ^ nat (- e), b))"

text \<open>The nearest integer to \<open>n / d\<close>, the even one of two.\<close>

definition half_even :: "nat \<Rightarrow> nat \<Rightarrow> nat" where
  "half_even n d =
     (if d < 2 * (n mod d) \<or> (2 * (n mod d) = d \<and> odd (n div d)) then n div d + 1 else n div d)"

text \<open>The exponent at which the quotient has 53 bits before the point.\<close>

definition ratio_exp :: "nat \<Rightarrow> nat \<Rightarrow> int" where
  "ratio_exp a b =
     (let e = int (floorlog 2 a) - int (floorlog 2 b) - 53; (n, d) = scaled a b e in
      if 2 ^ 53 * d \<le> n then e + 1 else e)"

definition f64_ratio :: "nat \<Rightarrow> nat \<Rightarrow> f64" where
  "f64_ratio a b =
     (if a = 0 then FZero
      else let e = ratio_exp a b; (n, d) = scaled a b e; m = half_even n d in
        if m = 2 ^ 53 then FNormal (2 ^ 52) (e + 1) else FNormal m e)"

definition f64_of_nat :: "nat \<Rightarrow> f64" where
  "f64_of_nat n = f64_ratio n 1"

text \<open>Division of non-negative numbers; only positive counts occur as divisors.\<close>

fun f64_div :: "f64 \<Rightarrow> f64 \<Rightarrow> f64" where
  "f64_div (FNormal n k) (FNormal m e) = (let (a, b) = scaled n m (e - k) in f64_ratio a b)"
| "f64_div FZero (FNormal m e) = FZero"
| "f64_div (FNormal n k) FZero = FInfinity"
| "f64_div FInfinity FZero = FInfinity"
| "f64_div FInfinity (FNormal m e) = FInfinity"
| "f64_div FZero FInfinity = FZero"
| "f64_div (FNormal n k) FInfinity = FZero"
| "f64_div _ _ = FNaN"

section \<open>Rounding is correct\<close>

lemma scaled_val:
  assumes "scaled a b e = (n, d)" and "0 < b"
  shows "real n / real d = real a / real b / 2 powi e" and "0 < d"
proof -
  show "0 < d" using assms by (auto simp: scaled_def split: if_splits)
  show "real n / real d = real a / real b / 2 powi e"
  proof (cases "0 \<le> e")
    case True
    then show ?thesis using assms by (auto simp: scaled_def power_int_def)
  next
    case False
    then show ?thesis using assms by (auto simp: scaled_def power_int_def field_simps)
  qed
qed

lemma half_even_close:
  assumes "0 < d"
  shows "\<bar>real (half_even n d) - real n / real d\<bar> \<le> 1 / 2"
    and "real n / real d < real m \<Longrightarrow> half_even n d \<le> m" and "real m \<le> real n / real d \<Longrightarrow> m \<le> half_even n d"
proof -
  let ?q = "n div d" and ?r = "n mod d"
  have r: "?r < d" and x: "real n / real d = real ?q + real ?r / real d"
    using assms by (simp, metis assms of_nat_add of_nat_mult div_mult_mod_eq add_divide_distrib
        nonzero_mult_div_cancel_right of_nat_0_less_iff less_numeral_extra(3))
  show "\<bar>real (half_even n d) - real n / real d\<bar> \<le> 1 / 2"
    unfolding x using assms r by (auto simp: half_even_def field_simps)
  show "half_even n d \<le> m" if "real n / real d < real m"
  proof -
    have "real ?q < real m" using that assms unfolding x by (smt (verit) divide_nonneg_nonneg of_nat_0_le_iff)
    then show ?thesis by (auto simp: half_even_def)
  qed
  show "m \<le> half_even n d" if "real m \<le> real n / real d"
  proof -
    have "real ?r / real d < 1" using r assms by simp
    then have "real m < real ?q + 1" using that unfolding x by linarith
    then have "m \<le> ?q" by linarith
    then show ?thesis by (auto simp: half_even_def)
  qed
qed

text \<open>The binade of a positive real: the exponent at which it has 53 bits before the point.\<close>

definition binade :: "real \<Rightarrow> int \<Rightarrow> bool" where
  "binade x e \<longleftrightarrow> 2 ^ 52 * 2 powi e \<le> x \<and> x < 2 ^ 53 * 2 powi e"

lemma binade_iff: "binade x e \<longleftrightarrow> 2 ^ 52 \<le> x / 2 powi e \<and> x / 2 powi e < 2 ^ 53"
  by (simp add: binade_def pos_le_divide_eq pos_divide_less_eq)

lemma binade_le:
  assumes "binade x e" and "binade y k" and "x \<le> y"
  shows "e \<le> k"
proof (rule ccontr)
  assume "\<not> e \<le> k"
  then have "(2 :: real) powi (k + 1) \<le> 2 powi e" by (intro power_int_increasing) simp_all
  then have "2 ^ 53 * (2 :: real) powi k \<le> 2 ^ 52 * 2 powi e" by (simp add: power_int_add)
  then show False using assms by (simp add: binade_def)
qed

lemma binade_unique: "binade x e \<Longrightarrow> binade x k \<Longrightarrow> e = k"
  using binade_le [of x e x k] binade_le [of x k x e] by simp

lemma binade_val: "f64_ok (FNormal m e) \<Longrightarrow> binade (f64_val (FNormal m e)) e"
proof -
  assume "f64_ok (FNormal m e)"
  then have "(2 ^ 52 :: real) \<le> real m" "real m < 2 ^ 53" by (simp_all add: numeral_power_le_of_nat_cancel_iff)
  then show ?thesis by (simp add: binade_def)
qed

lemma floorlog_real:
  assumes "0 < a"
  shows "2 powi (int (floorlog 2 a) - 1) \<le> real a" and "real a < 2 powi int (floorlog 2 a)"
proof -
  have b: "2 ^ (floorlog 2 a - 1) \<le> a" "a < 2 ^ floorlog 2 a" and k: "0 < floorlog 2 a"
    using floorlog_bounds [of a 2] assms by (simp_all add: floorlog_def)
  have "real (2 ^ (floorlog 2 a - 1)) \<le> real a" using b(1) by linarith
  moreover have "int (floorlog 2 a) - 1 = int (floorlog 2 a - 1)" using k by simp
  ultimately show "2 powi (int (floorlog 2 a) - 1) \<le> real a" by (simp only: power_int_of_nat) simp
  have "real a < real (2 ^ floorlog 2 a)" using b(2) by linarith
  then show "real a < 2 powi int (floorlog 2 a)" by simp
qed

lemma ratio_exp_binade:
  assumes "0 < a" and "0 < b"
  shows "binade (real a / real b) (ratio_exp a b)"
proof -
  define i where "i = int (floorlog 2 a)"
  define j where "j = int (floorlog 2 b)"
  let ?e = "i - j - 53" and ?x = "real a / real b"
  obtain n d where nd: "scaled a b ?e = (n, d)" by fastforce
  note s = scaled_val [OF nd assms(2)]
  have a: "2 powi (i - 1) \<le> real a" "real a < 2 powi i" and b: "2 powi (j - 1) \<le> real b" "real b < 2 powi j"
    using floorlog_real assms unfolding i_def j_def by blast+
  have "2 powi (i - 1) / 2 powi j \<le> ?x" by (rule frac_le) (use a b assms in auto)
  then have lo: "2 ^ 52 * 2 powi ?e \<le> ?x" by (simp add: power_int_diff)
  have "?x < 2 powi i / 2 powi (j - 1)" by (rule frac_less) (use a b assms in auto)
  then have hi: "?x < 2 ^ 54 * 2 powi ?e" by (simp add: power_int_diff mult.commute)
  have "2 ^ 53 * d \<le> n \<longleftrightarrow> real (2 ^ 53 * d) \<le> real n" by (simp only: of_nat_le_iff)
  also have "\<dots> \<longleftrightarrow> 2 ^ 53 \<le> real n / real d" using s(2) by (simp add: pos_le_divide_eq)
  also have "\<dots> \<longleftrightarrow> 2 ^ 53 * 2 powi ?e \<le> ?x" unfolding s(1) by (rule pos_le_divide_eq) simp
  finally have "ratio_exp a b = (if 2 ^ 53 * 2 powi ?e \<le> ?x then ?e + 1 else ?e)"
    using nd by (simp add: ratio_exp_def i_def j_def)
  moreover have "(2 :: real) powi (?e + 1) = 2 * 2 powi ?e" using power_int_add [of "2 :: real" ?e 1] by simp
  ultimately show ?thesis using lo hi by (auto simp: binade_def)
qed

text \<open>Rounding depends on the value of the quotient only.\<close>

lemma half_even_cong:
  assumes "real n / real d = real n' / real d'" and "0 < d" and "0 < d'"
  shows "half_even n d = half_even n' d'"
proof -
  have scale: "half_even (a * k) (b * k) = half_even a b" if "0 < k" for a b k
    using that by (simp add: half_even_def mult_mod_left flip: mult.assoc)
  have "real (n * d') = real (n' * d)" using assms by (simp add: field_simps)
  then have "n * d' = n' * d" by (simp only: of_nat_eq_iff)
  then show ?thesis using scale [of d' n d] scale [of d n' d'] assms by (simp add: mult.commute)
qed

lemma f64_ratio_cases:
  assumes "0 < a" and "0 < b"
  obtains e n d where "binade (real a / real b) e" and "real n / real d = real a / real b / 2 powi e"
    and "0 < d" and "2 ^ 52 \<le> half_even n d" and "half_even n d \<le> 2 ^ 53"
    and "f64_ratio a b = (if half_even n d = 2 ^ 53 then FNormal (2 ^ 52) (e + 1) else FNormal (half_even n d) e)"
    and "f64_val (f64_ratio a b) = real (half_even n d) * 2 powi e"
proof -
  define e where "e = ratio_exp a b"
  obtain n d where nd: "scaled a b e = (n, d)" by fastforce
  note s = scaled_val [OF nd assms(2)]
  have bin: "binade (real a / real b) e" unfolding e_def using assms by (rule ratio_exp_binade)
  then have r: "real (2 ^ 52) \<le> real n / real d" "real n / real d < real (2 ^ 53)"
    unfolding s(1) by (simp_all add: binade_iff)
  have q: "f64_ratio a b = (if half_even n d = 2 ^ 53 then FNormal (2 ^ 52) (e + 1) else FNormal (half_even n d) e)"
    using assms nd by (simp add: f64_ratio_def e_def)
  show thesis
    by (rule that [OF bin s half_even_close(3) [OF s(2) r(1)] half_even_close(2) [OF s(2) r(2)] q])
      (simp add: q power_int_add)
qed

lemma f64_ratio_zero [simp]: "f64_ratio 0 b = FZero"
  by (simp add: f64_ratio_def)

lemma f64_ratio_ok: "0 < b \<Longrightarrow> f64_ok (f64_ratio a b)"
proof (cases "a = 0")
  case False
  assume "0 < b"
  with False obtain e n d where "2 ^ 52 \<le> half_even n d" "half_even n d \<le> 2 ^ 53"
    "f64_ratio a b = (if half_even n d = 2 ^ 53 then FNormal (2 ^ 52) (e + 1) else FNormal (half_even n d) e)"
    using f64_ratio_cases [of a b] by blast
  then show ?thesis by auto
qed simp

text \<open>The relative error is at most half a unit in the last place.\<close>

lemma f64_ratio_close:
  assumes "0 < b"
  shows "\<bar>f64_val (f64_ratio a b) - real a / real b\<bar> \<le> real a / real b / 2 ^ 53"
proof (cases "a = 0")
  case False
  then obtain e n d where x: "binade (real a / real b) e" "real n / real d = real a / real b / 2 powi e" "0 < d"
    "f64_val (f64_ratio a b) = real (half_even n d) * 2 powi e"
    using f64_ratio_cases [of a b] assms by blast
  let ?x = "real a / real b" and ?u = "2 powi e :: real"
  have "\<bar>real (half_even n d) - ?x / ?u\<bar> \<le> 1 / 2" using half_even_close(1) [OF x(3), of n] x(2) by simp
  then have "\<bar>real (half_even n d) - ?x / ?u\<bar> * ?u \<le> 1 / 2 * ?u" by (rule mult_right_mono) simp
  also have "\<bar>real (half_even n d) - ?x / ?u\<bar> * ?u = \<bar>(real (half_even n d) - ?x / ?u) * ?u\<bar>" by (simp add: abs_mult)
  also have "(real (half_even n d) - ?x / ?u) * ?u = f64_val (f64_ratio a b) - ?x" by (simp add: x(4) left_diff_distrib)
  also have "1 / 2 * ?u \<le> ?x / 2 ^ 53" using x(1) by (simp add: binade_def)
  finally show ?thesis .
qed simp

lemma f64_ratio_mono:
  assumes "0 < b" and "0 < d" and "real a / real b \<le> real c / real d"
  shows "f64_val (f64_ratio a b) \<le> f64_val (f64_ratio c d)"
proof (cases "a = 0 \<or> c = 0")
  case True
  have "0 \<le> f64_val x" for x by (cases x) simp_all
  moreover have "a = 0" if "c = 0" using that assms by (simp add: divide_le_0_iff)
  ultimately show ?thesis using True by auto
next
  case False
  then have pos: "0 < a" "0 < c" by simp_all
  obtain e n s where x: "binade (real a / real b) e" "real n / real s = real a / real b / 2 powi e" "0 < s"
    "half_even n s \<le> 2 ^ 53" "f64_val (f64_ratio a b) = real (half_even n s) * 2 powi e"
    by (rule f64_ratio_cases [OF pos(1) assms(1)]) blast
  obtain k m t where y: "binade (real c / real d) k" "real m / real t = real c / real d / 2 powi k" "0 < t"
    "2 ^ 52 \<le> half_even m t" "f64_val (f64_ratio c d) = real (half_even m t) * 2 powi k"
    by (rule f64_ratio_cases [OF pos(2) assms(2)]) blast
  have "e \<le> k" using x(1) y(1) assms(3) by (rule binade_le)
  then consider "e = k" | "e + 1 \<le> k" by linarith
  then show ?thesis
  proof cases
    case 1
    then have le: "real n / real s \<le> real m / real t" 
      unfolding x(2) y(2) using divide_right_mono [OF assms(3), of "2 powi k"] by simp
    have "half_even n s \<le> half_even m t"
    proof (cases "real n / real s = real m / real t")
      case True
      have "half_even n s = half_even m t" using True x(3) y(3) by (rule half_even_cong)
      then show ?thesis by simp
    next
      case False
      then have "real (half_even n s) < real (half_even m t) + 1"
        using le half_even_close(1) [OF x(3), of n] half_even_close(1) [OF y(3), of m] by linarith
      then show ?thesis by linarith
    qed
    then show ?thesis using x(5) y(5) 1 by simp
  next
    case 2
    have "real (half_even n s) \<le> 2 ^ 53" using x(4) by (simp add: numeral_power_le_of_nat_cancel_iff of_nat_le_numeral_power_cancel_iff)
    then have "f64_val (f64_ratio a b) \<le> 2 ^ 53 * 2 powi e" unfolding x(5) by simp
    also have "\<dots> = 2 ^ 52 * 2 powi (e + 1)" by (simp add: power_int_add)
    also have "\<dots> \<le> 2 ^ 52 * 2 powi k" using 2 by (simp add: power_int_increasing)
    also have "\<dots> \<le> f64_val (f64_ratio c d)" unfolding y(5) using y(4) by (simp add: numeral_power_le_of_nat_cancel_iff)
    finally show ?thesis .
  qed
qed

text \<open>A number that has 53 bits is its own rounding.\<close>

lemma f64_ratio_exact:
  assumes "0 < b" and "f64_ok x" and "real a / real b = f64_val x"
  shows "f64_ratio a b = x"
proof (cases x)
  case FZero
  then show ?thesis using assms by simp
next
  case (FNormal m e)
  have pos: "0 < a" using FNormal assms by (cases a) (auto simp: zero_less_power)
  obtain k n d where r: "binade (real a / real b) k" "real n / real d = real a / real b / 2 powi k" "0 < d"
    "f64_ratio a b = (if half_even n d = 2 ^ 53 then FNormal (2 ^ 52) (k + 1) else FNormal (half_even n d) k)"
    by (rule f64_ratio_cases [OF pos assms(1)]) blast
  have "k = e" using binade_unique [OF r(1)] binade_val [of m e] assms(2,3) FNormal by simp
  then have "real n / real d = real m / real 1" using r(2) assms(3) FNormal by simp
  then have "half_even n d = half_even m 1" using r(3) by (rule half_even_cong) simp
  then have "half_even n d = m" by (simp add: half_even_def)
  then show ?thesis using r(4) \<open>k = e\<close> FNormal assms(2) by auto
qed (use assms(2) in simp_all)

section \<open>Conversion and division\<close>

lemma f64_val_pos: "f64_ok (FNormal m e) \<Longrightarrow> 0 < f64_val (FNormal m e)"
  by (simp add: less_le_trans [of 0 "2 ^ 52"])

lemma f64_val_nonneg [simp]: "0 \<le> f64_val x"
  by (cases x) simp_all

lemma f64_of_nat_ok [simp]: "f64_ok (f64_of_nat n)"
  by (simp add: f64_of_nat_def f64_ratio_ok)

lemma f64_of_nat_mono: "m \<le> n \<Longrightarrow> f64_val (f64_of_nat m) \<le> f64_val (f64_of_nat n)"
  unfolding f64_of_nat_def by (rule f64_ratio_mono) simp_all

lemma f64_ratio_zero_iff:
  assumes "0 < b"
  shows "f64_val (f64_ratio a b) = 0 \<longleftrightarrow> a = 0"
proof -
  define x where "x = real a / real b"
  have "\<bar>f64_val (f64_ratio a b) - x\<bar> \<le> x / 2 ^ 53" unfolding x_def using assms by (rule f64_ratio_close)
  then have "f64_val (f64_ratio a b) - x \<ge> - (x / 2 ^ 53)" by (simp only: abs_le_iff) linarith
  then have "x \<le> 0" if "f64_val (f64_ratio a b) = 0" using that by simp
  then show ?thesis using assms by (auto simp: x_def divide_le_0_iff)
qed

lemma f64_of_nat_zero_iff: "f64_val (f64_of_nat n) = 0 \<longleftrightarrow> n = 0"
  by (simp add: f64_of_nat_def f64_ratio_zero_iff)

text \<open>Counts below \<open>2 ^ 53\<close> convert exactly.\<close>

lemma f64_of_nat_exact:
  assumes "n < 2 ^ 53"
  shows "f64_val (f64_of_nat n) = real n"
proof (cases "n = 0")
  case False
  let ?l = "floorlog 2 n"
  have l: "2 ^ (?l - 1) \<le> n" "n < 2 ^ ?l" "0 < ?l"
    using floorlog_bounds [of n 2] False by (simp_all add: floorlog_def)
  have "?l - 1 < 53" using l(1) assms by (meson le_less_trans nat_power_less_imp_less zero_less_numeral)
  then have le: "?l \<le> 53" by linarith
  let ?x = "FNormal (n * 2 ^ (53 - ?l)) (int ?l - 53)"
  have "2 ^ 52 = (2 :: nat) ^ (?l - 1) * 2 ^ (53 - ?l)" using le l(3) by (simp flip: power_add)
  then have "2 ^ 52 \<le> n * 2 ^ (53 - ?l)" using mult_right_mono [OF l(1), of "2 ^ (53 - ?l)"] by simp
  moreover have "(2 :: nat) ^ 53 = 2 ^ ?l * 2 ^ (53 - ?l)" using le by (simp flip: power_add)
  then have "n * 2 ^ (53 - ?l) < 2 ^ 53" using mult_strict_right_mono [OF l(2), of "2 ^ (53 - ?l)"] by simp
  ultimately have "f64_ok ?x" by simp
  moreover have e: "int ?l - 53 = - int (53 - ?l)" using le by simp
  have "(2 :: real) powi (int ?l - 53) = inverse (2 ^ (53 - ?l))" unfolding e power_int_minus power_int_of_nat ..
  then have "f64_val ?x = real n" by simp
  ultimately show ?thesis using f64_ratio_exact [of 1 ?x n] by (simp add: f64_of_nat_def)
qed (simp add: f64_of_nat_def)

text \<open>Division rounds the exact quotient.\<close>

lemma f64_div_ratio:
  assumes "f64_ok x" and "f64_ok y" and "f64_val y \<noteq> 0"
  obtains a b where "0 < b" and "f64_div x y = f64_ratio a b" and "real a / real b = f64_val x / f64_val y"
proof -
  obtain m e where y: "y = FNormal m e" "2 ^ 52 \<le> m" using assms(2,3) by (cases y) auto
  have m: "0 < m" using y(2) by (simp add: less_le_trans [of 0 "2 ^ 52"])
  show thesis
  proof (cases x)
    case FZero
    then show thesis using that [of 1 0] y by simp
  next
    case (FNormal n k)
    obtain a b where ab: "scaled n m (e - k) = (a, b)" by fastforce
    have "real a / real b = f64_val x / f64_val y"
      using scaled_val(1) [OF ab m] FNormal y by (simp add: power_int_diff)
    then show thesis using that [of b a] scaled_val(2) [OF ab m] ab FNormal y by simp
  qed (use assms(1) in simp_all)
qed

end
