(* ===== verification/Dead_Ratio.thy ===== *)
theory Dead_Ratio
  imports Master_Index Float64
begin

text \<open>
  The share of dead documents (\<open>MasterIndex::dead_ratio\<close> of \<open>src/src/storage/index.rs\<close>), the
  number that decides when the log is worth compacting. Both counts are converted to \<open>f64\<close>
  and divided.
\<close>

definition f64_of_u64 :: "u64 \<Rightarrow> f64" where
  "f64_of_u64 w = f64_of_nat (unat w)"

definition dead_ratio :: "MasterIndex \<Rightarrow> f64" where
  "dead_ratio idx =
     (if offsets idx = fmempty then FZero
      else f64_div (f64_of_u64 (of_nat (fcard (dead idx)))) (f64_of_u64 (of_nat (fcard (fmdom (offsets idx))))))"

lemma fcard_fmdom_pos: "offsets idx \<noteq> fmempty \<Longrightarrow> 0 < fcard (fmdom (offsets idx))"
  by (metis fcard_fempty fcard_seteq fempty_fsubsetI fmrestrict_fset_dom fmrestrict_fset_null gr0I le_numeral_extra(3))

lemma dead_ratio_quotient:
  assumes "idx_wf idx" and "offsets idx \<noteq> fmempty"
  defines "n \<equiv> fcard (fmdom (offsets idx))" and "d \<equiv> fcard (dead idx)"
  obtains a b where "0 < b" and "dead_ratio idx = f64_ratio a b"
    and "real a / real b = f64_val (f64_of_nat d) / f64_val (f64_of_nat n)" and "0 < n" and "d \<le> n"
proof -
  have n: "0 < n" unfolding n_def using assms(2) by (rule fcard_fmdom_pos)
  have le: "d \<le> n" using assms(1) by (simp add: idx_wf_def d_def n_def fcard_mono)
  have "n < 2 ^ 64"
    using stored_count_less [OF assms(1)] unat_u64_less [of "next_doc_id idx"] by (simp add: n_def)
  then have w: "unat (of_nat n :: u64) = n" "unat (of_nat d :: u64) = d" using le by (simp_all add: word_nat)
  show thesis
  proof (rule f64_div_ratio [of "f64_of_nat d" "f64_of_nat n"])
    show "f64_val (f64_of_nat n) \<noteq> 0" using n by (simp add: f64_of_nat_zero_iff)
    fix a b assume ab: "0 < b" "f64_div (f64_of_nat d) (f64_of_nat n) = f64_ratio a b"
      "real a / real b = f64_val (f64_of_nat d) / f64_val (f64_of_nat n)"
    have "dead_ratio idx = f64_ratio a b"
      using assms(2) ab(2) w by (simp add: dead_ratio_def f64_of_u64_def n_def d_def)
    then show thesis using that ab n le by blast
  qed simp_all
qed

lemma f64_ratio_one: "f64_val (f64_ratio 1 1) = 1"
proof -
  have "f64_ratio 1 1 = FNormal (2 ^ 52) (- 52)"
    by (rule f64_ratio_exact) (simp_all add: power_int_minus)
  then show ?thesis by (simp add: power_int_minus)
qed

lemma dead_ratio_range:
  assumes "idx_wf idx"
  shows "f64_ok (dead_ratio idx)" and "f64_val (dead_ratio idx) \<le> 1"
    and "f64_val (dead_ratio idx) = 0 \<longleftrightarrow> dead idx = {||}"
proof -
  have "f64_ok (dead_ratio idx) \<and> f64_val (dead_ratio idx) \<le> 1 \<and> (f64_val (dead_ratio idx) = 0 \<longleftrightarrow> dead idx = {||})"
  proof (cases "offsets idx = fmempty")
    case True
    then have "dead idx = {||}" using assms by (simp add: idx_wf_def)
    then show ?thesis using True by (simp add: dead_ratio_def)
  next
    case False
    define n where "n = fcard (fmdom (offsets idx))"
    define d where "d = fcard (dead idx)"
    obtain a b where ab: "0 < b" "dead_ratio idx = f64_ratio a b"
      "real a / real b = f64_val (f64_of_nat d) / f64_val (f64_of_nat n)" "0 < n" "d \<le> n"
      by (rule dead_ratio_quotient [OF assms False, folded n_def d_def])
    have "f64_val (f64_of_nat n) \<noteq> 0" using ab(4) by (simp add: f64_of_nat_zero_iff)
    then have vn: "0 < f64_val (f64_of_nat n)" using f64_val_nonneg [of "f64_of_nat n"] by linarith
    have "real a / real b \<le> real 1 / real 1" unfolding ab(3) using f64_of_nat_mono [OF ab(5)] vn by simp
    then have "f64_val (f64_ratio a b) \<le> 1" using f64_ratio_mono [OF ab(1), of 1 a 1] f64_ratio_one by simp
    moreover have "f64_val (f64_ratio a b) = 0 \<longleftrightarrow> real a / real b = 0"
      using f64_ratio_zero_iff [OF ab(1), of a] ab(1) by simp
    then have "f64_val (f64_ratio a b) = 0 \<longleftrightarrow> d = 0" unfolding ab(3) using ab(4) f64_of_nat_zero_iff by simp
    ultimately show ?thesis using ab(1,2) f64_ratio_ok by (simp add: d_def fcard_0_eq)
  qed
  then show "f64_ok (dead_ratio idx)" "f64_val (dead_ratio idx) \<le> 1"
    "f64_val (dead_ratio idx) = 0 \<longleftrightarrow> dead idx = {||}" by simp_all
qed

text \<open>While the counts are exact numbers, so is the comparison with 1.\<close>

lemma f64_below_one: "f64_val (f64_ratio (2 ^ 53 - 1) (2 ^ 53)) < 1"
proof -
  have "f64_ratio (2 ^ 53 - 1) (2 ^ 53) = FNormal (2 ^ 53 - 1) (- 53)"
    by (rule f64_ratio_exact) (simp_all add: power_int_minus)
  then show ?thesis by (simp add: power_int_minus)
qed

lemma dead_ratio_small:
  assumes "idx_wf idx" and "offsets idx \<noteq> fmempty" and "fcard (fmdom (offsets idx)) < 2 ^ 53"
  defines "n \<equiv> fcard (fmdom (offsets idx))" and "d \<equiv> fcard (dead idx)"
  shows "\<bar>f64_val (dead_ratio idx) - real d / real n\<bar> \<le> 1 / 2 ^ 53"
    and "f64_val (dead_ratio idx) = 1 \<longleftrightarrow> d = n"
proof -
  obtain a b where ab: "0 < b" "dead_ratio idx = f64_ratio a b"
    "real a / real b = f64_val (f64_of_nat d) / f64_val (f64_of_nat n)" "0 < n" "d \<le> n"
    by (rule dead_ratio_quotient [OF assms(1,2), folded n_def d_def])
  have q: "real a / real b = real d / real n"
    unfolding ab(3) using f64_of_nat_exact [of d] f64_of_nat_exact [of n] assms(3) ab(5) by (simp add: n_def)
  have "real d / real n \<le> 1" using ab(4,5) by simp
  then have "real d / real n / 2 ^ 53 \<le> 1 / 2 ^ 53" by (intro divide_right_mono) simp_all
  then show "\<bar>f64_val (dead_ratio idx) - real d / real n\<bar> \<le> 1 / 2 ^ 53"
    using f64_ratio_close [OF ab(1), of a] unfolding ab(2) q by linarith
  show "f64_val (dead_ratio idx) = 1 \<longleftrightarrow> d = n"
  proof (cases "d = n")
    case True
    then have "real a / real b = real 1 / real 1" using q ab(4) by simp
    then have "f64_val (f64_ratio a b) = f64_val (f64_ratio 1 1)"
      using f64_ratio_mono [OF ab(1), of 1 a 1] f64_ratio_mono [of 1 b 1 a] ab(1) by (simp add: order_antisym)
    then show ?thesis using True f64_ratio_one ab(2) by simp
  next
    case False
    then have "d + 1 \<le> n" using ab(5) by simp
    then have "real d * 2 ^ 53 \<le> (real n - 1) * 2 ^ 53" by (intro mult_right_mono) simp_all
    moreover have "real n < 2 ^ 53" using assms(3) by (simp add: n_def of_nat_less_numeral_power_cancel_iff)
    ultimately have "real d * 2 ^ 53 \<le> (2 ^ 53 - 1) * real n" by (simp add: left_diff_distrib)
    then have "real a / real b \<le> real (2 ^ 53 - 1) / real (2 ^ 53)"
      unfolding q using ab(4) by (simp add: pos_divide_le_eq pos_le_divide_eq)
    then have "f64_val (f64_ratio a b) \<le> f64_val (f64_ratio (2 ^ 53 - 1) (2 ^ 53))"
      using ab(1) by (intro f64_ratio_mono) simp_all
    then show ?thesis using False f64_below_one ab(2) by simp
  qed
qed

lemma dead_count_nat: "idx_wf idx \<Longrightarrow> unat (dead_count idx) = fcard (dead idx)"
  using counts_eq [of idx] fcard_mono [of "dead idx" "fmdom (offsets idx)"]
    fcard_funion_fsubset [of "dead idx" "fmdom (offsets idx)"]
  by (simp add: idx_wf_def live_ids_minus)

text \<open>
  C38: on a well-formed index the statistics agree with the documents: the counts are exact and
  do not wrap around, exactly the ids that \<open>live_ids\<close> yields have an offset, the share of dead documents is a number between 0 and 1 that is 0 only when no document is
  dead, and with fewer than \<open>2 ^ 53\<close> documents it is within \<open>2 ^ - 53\<close> of the true share and
  is 1 only when every document is dead.
\<close>

theorem index_statistics:
  assumes "idx_wf idx"
  shows "unat (live_count idx) = fcard (live_ids idx) \<and>
    unat (live_count idx) + unat (dead_count idx) = fcard (fmdom (offsets idx)) \<and>
    (\<forall>i. i |\<in>| live_ids idx \<longleftrightarrow> offset_of idx i \<noteq> None) \<and>
    f64_ok (dead_ratio idx) \<and> f64_val (dead_ratio idx) \<le> 1 \<and>
    (f64_val (dead_ratio idx) = 0 \<longleftrightarrow> dead_count idx = 0) \<and>
    (offsets idx \<noteq> fmempty \<and> fcard (fmdom (offsets idx)) < 2 ^ 53 \<longrightarrow>
       \<bar>f64_val (dead_ratio idx) - real (unat (dead_count idx)) / real (fcard (fmdom (offsets idx)))\<bar> \<le> 1 / 2 ^ 53 \<and>
       (f64_val (dead_ratio idx) = 1 \<longleftrightarrow> live_count idx = 0))"
proof -
  note c = live_count_correct [OF assms] and d = dead_count_nat [OF assms] and r = dead_ratio_range [OF assms]
  have z: "dead_count idx = 0 \<longleftrightarrow> dead idx = {||}" using d by (auto simp: fcard_0_eq word_unat_eq_iff)
  have o: "live_count idx = 0 \<longleftrightarrow> fcard (dead idx) = fcard (fmdom (offsets idx))"
    using counts_eq(2) [OF assms] d by (auto simp: word_unat_eq_iff)
  show ?thesis using c d r z o dead_ratio_small [OF assms] by auto
qed

text \<open>One of three documents is dead: the ratio is the nearest number to a third.\<close>

definition sample_third :: MasterIndex where
  "sample_third = mark_dead (idx_append (idx_append (idx_append MasterIndex_default 128) 140) 152) (DocId 2)"

lemma floorlog_values: "floorlog 2 (Suc 0) = 1" "floorlog 2 3 = 2" "floorlog 2 4503599627370496 = 53"
    "floorlog 2 6755399441055744 = 53" "floorlog 2 13510798882111488 = 54"
  by (simp_all add: floorlog_eq_zero_iff compute_floorlog)

lemma rounding_third: "f64_div (f64_of_nat 1) (f64_of_nat 3) = FNormal 6004799503160661 (- 54)"
proof -
  have "f64_of_nat 1 = FNormal 4503599627370496 (- 52)" "f64_of_nat 3 = FNormal 6755399441055744 (- 51)"
    by (simp_all add: f64_of_nat_def f64_ratio_def ratio_exp_def scaled_def half_even_def floorlog_values Let_def)
  then show ?thesis
    by (simp add: f64_ratio_def ratio_exp_def scaled_def half_even_def floorlog_values Let_def)
qed

theorem index_statistics_witness:
  "f64_ok (dead_ratio sample_third) \<and> f64_val (dead_ratio sample_third) \<noteq> 0 \<and>
   \<bar>f64_val (dead_ratio sample_third) - 1 / 3\<bar> \<le> 1 / 2 ^ 53 \<and>
   dead_ratio sample_third = FNormal 6004799503160661 (- 54)"
proof -
  have eq: "sample_third = \<lparr>offsets = fmupd (DocId 3) 152 (fmupd (DocId 2) 140 (fmupd (DocId 1) 128 fmempty)),
     dead = {|DocId 2|}, next_doc_id = 4\<rparr>"
    by (simp add: sample_third_def mark_dead_def idx_append_eq MasterIndex_default_def)
  have wf: "idx_wf sample_third" by (auto simp: eq idx_wf_def)
  have n: "fcard (fmdom (offsets sample_third)) = 3" "fcard (dead sample_third) = 1"
    by (simp_all add: eq fcard.rep_eq)
  have "fmlookup (offsets sample_third) (DocId 3) = Some 152" by (simp add: eq)
  then have ne: "offsets sample_third \<noteq> fmempty" by (metis fmempty_lookup option.distinct(1))
  have dc: "dead_count sample_third = 1" "unat (dead_count sample_third) = 1" by (simp_all add: dead_count_def n)
  have "dead_ratio sample_third = FNormal 6004799503160661 (- 54)"
    using ne n rounding_third by (simp add: dead_ratio_def f64_of_u64_def)
  then show ?thesis using index_statistics [OF wf] ne dc by (simp add: n)
qed

end
