(* ===== verification/Index_Tests.thy ===== *)
theory Index_Tests
  imports Dead_Ratio Header_Tests
begin

text \<open>
  The unit tests of \<open>src/src/storage/index.rs\<close>, one definition per test function, over an
  arbitrary serializer; \<open>index_tests\<close> shows that they pass.
\<close>

section \<open>The tests\<close>

definition ids_start_at_one_and_never_repeat :: bool where
  "ids_start_at_one_and_never_repeat =
     (let idx = MasterIndex_default; (a, idx) = allocate_id idx; (b, idx) = allocate_id idx;
          idx = idx_insert idx (DocId 1) 128; idx = mark_dead idx (DocId 1);
          (c, idx) = allocate_id idx
      in a = DocId 1 \<and> b = DocId 2 \<and> c = DocId 3)"

definition tombstones_hide_documents_without_losing_the_offset :: bool where
  "tombstones_hide_documents_without_losing_the_offset =
     (let idx = idx_insert MasterIndex_default (DocId 1) 128; idx' = mark_dead idx (DocId 1) in
      offset_of idx (DocId 1) = Some 128 \<and> is_live idx (DocId 1) \<and>
      offset_of idx' (DocId 1) = None \<and> \<not> is_live idx' (DocId 1) \<and>
      fmlookup (offsets idx') (DocId 1) = Some 128)"

text \<open>The literal \<open>0.25\<close>.\<close>

definition quarter :: f64 where
  "quarter = FNormal 4503599627370496 (- 54)"

definition counts_and_ratio_track_tombstones :: bool where
  "counts_and_ratio_track_tombstones =
     (let idx0 = MasterIndex_default;
          idx1 = fold (\<lambda>i idx. idx_insert idx (DocId i) (i * 100)) [1, 2, 3, 4] idx0;
          idx2 = mark_dead idx1 (DocId 1)
      in dead_ratio idx0 = FZero \<and>
         (live_count idx1, dead_count idx1) = (4, 0) \<and>
         (live_count idx2, dead_count idx2) = (3, 1) \<and>
         dead_ratio idx2 = quarter \<and>
         sorted_list_of_fset (raw_id |`| live_ids idx2) = [2, 3, 4])"

definition fill :: "nat \<Rightarrow> MasterIndex" where
  "fill n = fold (\<lambda>i idx. let (j, idx) = allocate_id idx in idx_insert idx j (of_nat i * 137))
     [1..<n] MasterIndex_default"

definition roundtrips_through_bincode :: "deps \<Rightarrow> bool" where
  "roundtrips_through_bincode D =
     (let idx = mark_dead (fill 33) (DocId 3) in
      unwrap (idx_encode D idx) (\<lambda>bytes. unwrap (idx_decode D bytes) (\<lambda>x. x = idx)))"

definition rejects_a_truncated_blob :: "deps \<Rightarrow> bool" where
  "rejects_a_truncated_blob D =
     (let idx = MasterIndex_default in
      unwrap (idx_encode D idx) (\<lambda>bytes.
        fails_with is_CorruptIndex (idx_decode D (take (length bytes div 2) bytes))))"

section \<open>They pass\<close>

lemma passes_ids: "ids_start_at_one_and_never_repeat"
  by (simp add: ids_start_at_one_and_never_repeat_def allocate_id_def MasterIndex_default_def
      idx_insert_def mark_dead_def)

lemma passes_tombstones_hide: "tombstones_hide_documents_without_losing_the_offset"
  by (simp add: tombstones_hide_documents_without_losing_the_offset_def MasterIndex_default_def
      idx_insert_def mark_dead_def offset_of_def is_live_def)

lemma quarter_rounds: "f64_div (f64_of_nat 1) (f64_of_nat 4) = quarter"
proof -
  have fl: "floorlog 2 4 = 3" "floorlog 2 9007199254740992 = 54" "floorlog 2 18014398509481984 = 55"
    by (simp_all add: floorlog_eq_zero_iff compute_floorlog)
  have "f64_of_nat 1 = FNormal 4503599627370496 (- 52)" "f64_of_nat 4 = FNormal 4503599627370496 (- 50)"
    by (simp_all add: f64_of_nat_def f64_ratio_def ratio_exp_def scaled_def half_even_def floorlog_values fl Let_def)
  then show ?thesis
    by (simp add: quarter_def f64_ratio_def ratio_exp_def scaled_def half_even_def floorlog_values fl Let_def)
qed

lemma passes_counts: "counts_and_ratio_track_tombstones"
proof -
  define idx1 where "idx1 = fold (\<lambda>i idx. idx_insert idx (DocId i) (i * 100)) [1, 2, 3, 4] MasterIndex_default"
  have d1: "fmdom (offsets idx1) = {|DocId 1, DocId 2, DocId 3, DocId 4|}" "dead idx1 = {||}"
    by (auto simp: idx1_def idx_insert_def MasterIndex_default_def)
  have d2: "fmdom (offsets (mark_dead idx1 (DocId 1))) = {|DocId 1, DocId 2, DocId 3, DocId 4|}"
    "dead (mark_dead idx1 (DocId 1)) = {|DocId 1|}" using d1 by (simp_all add: mark_dead_def)
  have c: "fcard {|DocId 1, DocId 2, DocId 3, DocId 4|} = 4" "fcard {|DocId 1|} = 1" "fcard ({||} :: DocId fset) = 0"
    by (simp_all add: fcard.rep_eq)
  have "live_ids (mark_dead idx1 (DocId 1)) = {|DocId 2, DocId 3, DocId 4|}"
    unfolding live_ids_def d2 by auto
  then have live: "sorted_list_of_fset (raw_id |`| live_ids (mark_dead idx1 (DocId 1))) = [2, 3, 4]"
    by (simp add: sorted_list_of_fset.rep_eq)
  have "offsets (mark_dead idx1 (DocId 1)) \<noteq> fmempty" using d2(1) by auto
  then have "dead_ratio (mark_dead idx1 (DocId 1)) = quarter"
    using quarter_rounds by (simp add: dead_ratio_def d2 c f64_of_u64_def)
  moreover have "dead_ratio MasterIndex_default = FZero" by (simp add: dead_ratio_def MasterIndex_default_def)
  ultimately show ?thesis
    using live unfolding counts_and_ratio_track_tombstones_def Let_def idx1_def [symmetric]
    by (simp add: live_count_def dead_count_def d1 d2 c)
qed

lemma fill_wf:
  assumes "1 \<le> n" and "n \<le> 33"
  shows "idx_wf (fill n) \<and> unat (next_doc_id (fill n)) = n \<and>
    (\<forall>k. 1 \<le> k \<and> k < n \<longrightarrow> DocId (of_nat k) |\<in>| fmdom (offsets (fill n)))"
  using assms
proof (induction n rule: nat_induct_at_least)
  case base
  then show ?case by (simp add: fill_def) (simp add: MasterIndex_default_def)
next
  case (Suc n)
  then have i: "idx_wf (fill n)" "unat (next_doc_id (fill n)) = n"
    "\<And>k. 1 \<le> k \<Longrightarrow> k < n \<Longrightarrow> DocId (of_nat k) |\<in>| fmdom (offsets (fill n))" by simp_all
  have r: "unat (next_doc_id (fill n)) < 2 ^ 64 - 1" using i(2) Suc.prems by simp
  have nx: "next_doc_id (fill n) = of_nat n" using i(2) Suc.prems by (simp add: word_unat_eq_iff word_nat)
  have a: "allocate_id (fill n) = (DocId (of_nat n), (fill n)\<lparr>next_doc_id := of_nat n + 1\<rparr>)"
    using nx by (simp add: allocate_id_def)
  have f: "fill (Suc n) = idx_insert ((fill n)\<lparr>next_doc_id := of_nat n + 1\<rparr>) (DocId (of_nat n)) (of_nat n * 137)"
    using Suc.hyps a by (simp add: fill_def)
  have "idx_wf (fill (Suc n))" unfolding f by (rule idx_wf_append [OF i(1) r a])
  moreover have "unat (next_doc_id (fill (Suc n))) = Suc n"
    using unat_succ [OF r] i(2) nx by (simp add: f idx_insert_def)
  moreover have "DocId (of_nat k) |\<in>| fmdom (offsets (fill (Suc n)))" if "1 \<le> k" "k < Suc n" for k
    using that i(3) by (auto simp: f idx_insert_def less_Suc_eq)
  ultimately show ?case by blast
qed

lemma passes_bincode: "bincode_ok D \<Longrightarrow> bincode_total D \<Longrightarrow> roundtrips_through_bincode D"
proof -
  assume D: "bincode_ok D" "bincode_total D"
  have "\<forall>k. 1 \<le> k \<and> k < 33 \<longrightarrow> DocId (of_nat k) |\<in>| fmdom (offsets (fill 33))" using fill_wf [of 33] by simp
  from this [rule_format, of 3] have "DocId 3 |\<in>| fmdom (offsets (fill 33))" by simp
  then have "idx_wf (mark_dead (fill 33) (DocId 3))" using fill_wf [of 33] by (intro idx_wf_mark_dead) simp_all
  then obtain p where "idx_encode D (mark_dead (fill 33) (DocId 3)) = Inr p" by (rule bincode_totalD [OF D(2)])
  then show ?thesis using idx_encode_InrD [OF D(1)] by (simp add: roundtrips_through_bincode_def)
qed

lemma passes_truncated_blob: "bincode_total D \<Longrightarrow> bincode_prefix D \<Longrightarrow> rejects_a_truncated_blob D"
proof -
  assume D: "bincode_total D" "bincode_prefix D"
  obtain p where p: "idx_encode D MasterIndex_default = Inr p"
    "length p = 8 * (2 * fcard (fmdom (offsets MasterIndex_default)) + fcard (dead MasterIndex_default) + 3)"
    by (rule bincode_totalD [OF D(1) idx_wf_default])
  then have "bin_ser D MasterIndex_default = Inr p" "length p div 2 < length p"
    by (simp_all add: idx_encode_def map_err_Inr_iff)
  then obtain m where "bin_de D (take (length p div 2) p) = Inl m" using D(2) unfolding bincode_prefix_def by blast
  then show ?thesis using p(1) by (simp add: rejects_a_truncated_blob_def idx_decode_def)
qed

lemma index_tests:
  "ids_start_at_one_and_never_repeat" "tombstones_hide_documents_without_losing_the_offset"
  "counts_and_ratio_track_tombstones"
  "bincode_ok D \<Longrightarrow> bincode_total D \<Longrightarrow> roundtrips_through_bincode D"
  "bincode_total D \<Longrightarrow> bincode_prefix D \<Longrightarrow> rejects_a_truncated_blob D"
  using passes_ids passes_tombstones_hide passes_counts passes_bincode passes_truncated_blob by simp_all

end
