(* ===== verification/Doc_Codec.thy ===== *)
theory Doc_Codec
  imports Cndb_Error
begin

text \<open>
  Document encoding (\<open>src/src/document/codec.rs\<close>): JSON objects to BSON bytes and back. The
  \<open>serde_json\<close> value is a datatype with its constructors, numbers being of a type \<open>'n\<close> the code
  never looks into; \<open>'d\<close> is the \<open>bson::Document\<close> and the record \<open>bson\<close> holds the functions of
  the \<open>bson\<close> crate, failing with the message of their error.
\<close>

datatype 'n Value = Null | Bool bool | Number 'n | String string | Array "'n Value list"
  | Object "(string \<times> 'n Value) list"

fun is_object :: "'n Value \<Rightarrow> bool" where
  "is_object (Object fields) = True"
| "is_object _ = False"

fun type_name :: "'n Value \<Rightarrow> string" where
  "type_name Null = ''null''"
| "type_name (Bool _) = ''a boolean''"
| "type_name (Number _) = ''a number''"
| "type_name (String _) = ''a string''"
| "type_name (Array _) = ''an array''"
| "type_name (Object _) = ''an object''"

record ('n, 'd) bson =
  to_document :: "'n Value \<Rightarrow> string + 'd"
  to_writer :: "'d \<Rightarrow> string + bytes"
  from_slice :: "bytes \<Rightarrow> string + 'd"
  from_document :: "'d \<Rightarrow> string + 'n Value"

definition to_bson_bytes :: "('n, 'd) bson \<Rightarrow> 'n Value \<Rightarrow> CndbError + bytes" where
  "to_bson_bytes B v =
     (if \<not> is_object v then Inl (NotAnObject (type_name v))
      else res_bind (map_err Bson (to_document B v)) (\<lambda>doc. map_err Bson (to_writer B doc)))"

definition from_bson_bytes :: "('n, 'd) bson \<Rightarrow> bytes \<Rightarrow> CndbError + 'n Value" where
  "from_bson_bytes B bs =
     res_bind (map_err Bson (from_slice B bs)) (\<lambda>doc. map_err Bson (from_document B doc))"

text \<open>What a value comes back as once it has been written and read.\<close>

definition as_stored :: "('n, 'd) bson \<Rightarrow> 'n Value \<Rightarrow> CndbError + 'n Value" where
  "as_stored B v = res_bind (to_bson_bytes B v) (from_bson_bytes B)"

text \<open>
  A value without keys that BSON's extended JSON reserves: the crate reads an object such as
  \<open>{"$numberInt": "5"}\<close> as the number it denotes. A \<open>serde_json\<close> map has one entry per key.
\<close>

fun plain :: "'n Value \<Rightarrow> bool" where
  "plain (Array vs) \<longleftrightarrow> (\<forall>v\<in>set vs. plain v)"
| "plain (Object kvs) \<longleftrightarrow> distinct (map fst kvs) \<and>
     (\<forall>kv\<in>set kvs. take 1 (fst kv) \<noteq> ''$'') \<and> (\<forall>kv\<in>set kvs. plain (snd kv))"
| "plain _ \<longleftrightarrow> True"

text \<open>The contract of the crate: reading inverts writing, for documents and for plain values.\<close>

definition bson_ok :: "('n, 'd) bson \<Rightarrow> bool" where
  "bson_ok B \<longleftrightarrow> (\<forall>doc bs. to_writer B doc = Inr bs \<longrightarrow> from_slice B bs = Inr doc) \<and>
     (\<forall>v doc. plain v \<longrightarrow> to_document B v = Inr doc \<longrightarrow> from_document B doc = Inr v)"

lemma to_bson_bytes_InrD:
  "bson_ok B \<Longrightarrow> plain v \<Longrightarrow> to_bson_bytes B v = Inr bs \<Longrightarrow> is_object v \<and> from_bson_bytes B bs = Inr v"
  by (auto simp: bson_ok_def to_bson_bytes_def from_bson_bytes_def res_bind_Inr_iff map_err_Inr_iff split: if_splits)

lemma as_stored_plain: "bson_ok B \<Longrightarrow> plain v \<Longrightarrow> to_bson_bytes B v = Inr bs \<Longrightarrow> as_stored B v = Inr v"
  using to_bson_bytes_InrD [of B v bs] by (simp add: as_stored_def)

lemma to_bson_bytes_InlD:
  "to_bson_bytes B v = Inl err \<Longrightarrow> if is_object v then \<exists>m. err = Bson m else err = NotAnObject (type_name v)"
  by (auto simp: to_bson_bytes_def res_bind_def map_err_def split: sum.splits if_splits)

end
