(* ===== verification/Cndb_Api.thy ===== *)
theory Cndb_Api
  imports Integrity Doc_Codec
begin

text \<open>
  The public database handle (\<open>src/src/api.rs\<close>): every method delegates to the storage engine,
  with documents encoded as BSON blobs. What clients rely on is proved on top of the
  properties of the engine.
\<close>

section \<open>The handle\<close>

record Cndb =
  store :: StorageEngine

type_synonym 'a db_result = "(CndbError + 'a) \<times> Cndb"

text \<open>A call on \<open>self.store\<close> that returns its result.\<close>

definition on_store :: "'a engine_result \<Rightarrow> Cndb \<Rightarrow> 'a db_result" where
  "on_store re db = (fst re, db\<lparr>store := snd re\<rparr>)"

definition db_open :: "deps \<Rightarrow> os \<Rightarrow> string \<Rightarrow> dbfile option \<Rightarrow> (CndbError + Cndb) \<times> dbfile" where
  "db_open D os path existing =
     (let (r, f) = engine_open D os path existing in (res_bind r (\<lambda>e. Inr \<lparr>store = e\<rparr>), f))"

definition db_insert :: "deps \<Rightarrow> ('n, 'd) bson \<Rightarrow> os \<Rightarrow> Cndb \<Rightarrow> 'n Value \<Rightarrow> DocId db_result" where
  "db_insert D B os db v =
     (case to_bson_bytes B v of
        Inl err \<Rightarrow> (Inl err, db)
      | Inr bs \<Rightarrow> on_store (append D os (store db) Blob bs) db)"

definition db_get :: "deps \<Rightarrow> ('n, 'd) bson \<Rightarrow> os \<Rightarrow> Cndb \<Rightarrow> DocId \<Rightarrow> CndbError + 'n Value" where
  "db_get D B os db i = res_bind (read_doc D os (store db) i) (from_bson_bytes B)"

definition db_delete :: "deps \<Rightarrow> os \<Rightarrow> Cndb \<Rightarrow> DocId \<Rightarrow> unit db_result" where
  "db_delete D os db i = on_store (tombstone D os (store db) i) db"

definition db_commit :: "deps \<Rightarrow> os \<Rightarrow> Cndb \<Rightarrow> unit db_result" where
  "db_commit D os db = on_store (commit D os (store db)) db"

definition db_verify :: "deps \<Rightarrow> os \<Rightarrow> Cndb \<Rightarrow> CndbError + nat" where
  "db_verify D os db = verify D os (store db)"

definition db_len :: "Cndb \<Rightarrow> u64" where
  "db_len db = engine_len (store db)"

definition db_is_empty :: "Cndb \<Rightarrow> bool" where
  "db_is_empty db = engine_is_empty (store db)"

definition db_ids :: "Cndb \<Rightarrow> DocId fset" where
  "db_ids db = engine_live_ids (store db)"

definition db_stats :: "Cndb \<Rightarrow> Stats" where
  "db_stats db = stats (store db)"

lemma on_store_eq: "on_store re db = (r, db') \<longleftrightarrow> (\<exists>e. re = (r, e) \<and> db' = db\<lparr>store := e\<rparr>)"
  by (cases re) (auto simp: on_store_def)

section \<open>Documents through the handle\<close>

lemma db_insert_InrD:
  assumes "db_insert D B os db v = (Inr i, db')"
  obtains bs e where "append D os (store db) Blob bs = (Inr i, e)" and "db' = db\<lparr>store := e\<rparr>"
    and "to_bson_bytes B v = Inr bs" and "from_bson_bytes B bs = as_stored B v"
  using assms by (cases "to_bson_bytes B v") (auto simp: db_insert_def on_store_eq as_stored_def)

lemma db_get_record:
  "db_get D B os db i = res_bind (read_record D os (store db) i) (\<lambda>r. from_bson_bytes B (payload r))"
  by (cases "read_record D os (store db) i") (simp_all add: db_get_def read_doc_def)

text \<open>
  C26: in a safe run a document that was inserted is returned by \<open>get\<close> under its id as the BSON crate reads
  back what it wrote for it, which is the document itself unless it has a key starting with \<open>$\<close>
  (the crate takes \<open>{"$numberInt": "5"}\<close> for the number); the id was unknown before, and every
  other id returns what it returned before.
\<close>

theorem insert_then_get:
  assumes "safely_reachable D (store db)" and "bson_ok B" and "db_insert D B os db v = (Inr i, db')"
    and "reads_ok os'"
  shows "db_get D B os' db' i = as_stored B v \<and> (plain v \<longrightarrow> db_get D B os' db' i = Inr v) \<and>
    db_get D B os' db i = Inl (NotFound i) \<and>
    (\<forall>j. j \<noteq> i \<longrightarrow> db_get D B os' db' j = db_get D B os' db j)"
proof -
  obtain bs e where a: "append D os (store db) Blob bs = (Inr i, e)" and db': "db' = db\<lparr>store := e\<rparr>"
    and bs: "to_bson_bytes B v = Inr bs" "from_bson_bytes B bs = as_stored B v" by (rule db_insert_InrD [OF assms(3)])
  show ?thesis
    using append_reads [OF assms(1) a assms(4)] bs(2) db' as_stored_plain [OF assms(2) _ bs(1)]
    by (simp add: db_get_record)
qed

definition empty_bson :: "(nat, nat Value) bson" where
  "empty_bson = \<lparr>to_document = Inr,
     to_writer = (\<lambda>d. if d = Object [] then Inr sample_doc else Inl ''unsupported''),
     from_slice = (\<lambda>bs. if bs = sample_doc then Inr (Object []) else Inl ''unsupported''), from_document = Inr\<rparr>"

lemma empty_bson_ok: "bson_ok empty_bson"
  by (simp add: bson_ok_def empty_bson_def)

lemma sample_insert:
  "db_insert sample_D empty_bson os_ok \<lparr>store = sample_new\<rparr> (Object []) = (Inr (DocId 1), \<lparr>store = sample_put\<rparr>)"
  by (simp add: db_insert_def to_bson_bytes_def empty_bson_def sample_put_eq on_store_def)

lemma empty_stored: "as_stored empty_bson (Object []) = Inr (Object [])"
  by (simp add: as_stored_def to_bson_bytes_def from_bson_bytes_def empty_bson_def)

theorem insert_then_get_witness:
  "db_get sample_D empty_bson os_ok \<lparr>store = sample_put\<rparr> (DocId 1) = as_stored empty_bson (Object []) \<and>
    db_get sample_D empty_bson os_ok \<lparr>store = sample_put\<rparr> (DocId 1) = Inr (Object []) \<and>
    db_get sample_D empty_bson os_ok \<lparr>store = sample_new\<rparr> (DocId 1) = Inl (NotFound (DocId 1)) \<and>
    db_get sample_D empty_bson os_ok \<lparr>store = sample_put\<rparr> (DocId 2) =
       db_get sample_D empty_bson os_ok \<lparr>store = sample_new\<rparr> (DocId 2)"
  using insert_then_get [OF _ empty_bson_ok sample_insert os_ok_reads_ok] by (simp add: empty_stored)

text \<open>
  C27: in a safe run an insert that fails consumes no id and changes no document; a value that is not an
  object is refused by its type name with the database untouched.
\<close>

theorem failed_insert_changes_nothing:
  assumes "safely_reachable D (store db)" and "db_insert D B os db v = (Inl err, db')" and "reads_ok os'"
  shows "(\<forall>j. db_get D B os' db' j = db_get D B os' db j) \<and> db_len db' = db_len db \<and>
    next_doc_id (engine_index (store db')) = next_doc_id (engine_index (store db)) \<and>
    (\<not> is_object v \<longrightarrow> err = NotAnObject (type_name v) \<and> db' = db)"
proof (cases "to_bson_bytes B v")
  case (Inl e)
  then have "db' = db" "err = e" using assms(2) by (simp_all add: db_insert_def)
  then show ?thesis using to_bson_bytes_InlD [OF Inl] by auto
next
  case (Inr bs)
  then obtain e where a: "append D os (store db) Blob bs = (Inl err, e)" and db': "db' = db\<lparr>store := e\<rparr>"
    using assms(2) by (auto simp: db_insert_def on_store_eq)
  note f = append_failed_docs [OF assms(1) a]
  have "read_record D os' e j = read_record D os' (store db) j" for j
    using f inv_read [OF reach_inv [OF assms(1)] assms(3)]
      inv_read [OF append_inv [OF reach_inv [OF assms(1)] a] assms(3)] by simp
  then have "\<forall>j. db_get D B os' db' j = db_get D B os' db j" using db' by (simp add: db_get_record)
  moreover have "is_object v" using Inr by (simp add: to_bson_bytes_def split: if_splits)
  ultimately show ?thesis using f db' by (simp add: db_len_def engine_len_def engine_index_def)
qed

theorem failed_insert_changes_nothing_witness:
  "db_insert sample_D empty_bson os_ok \<lparr>store = sample_new\<rparr> (Number 3) =
     (Inl (NotAnObject ''a number''), \<lparr>store = sample_new\<rparr>) \<and>
   (\<forall>j. db_get sample_D empty_bson os_ok \<lparr>store = sample_new\<rparr> j = db_get sample_D empty_bson os_ok \<lparr>store = sample_new\<rparr> j)"
proof -
  have i: "db_insert sample_D empty_bson os_ok \<lparr>store = sample_new\<rparr> (Number 3) =
     (Inl (NotAnObject ''a number''), \<lparr>store = sample_new\<rparr>)" by (simp add: db_insert_def to_bson_bytes_def)
  show ?thesis using failed_insert_changes_nothing [OF _ i os_ok_reads_ok] i by simp
qed

text \<open>
  C5: end to end, in a safe run: a document inserted and committed through the handle is returned by \<open>get\<close> after
  any power loss and reopening, as the BSON crate reads back what it wrote for it: as the JSON
  value that was inserted unless that has a key starting with \<open>$\<close>. Every other document reads as
  it did before the commit.
\<close>

theorem committed_document_survives:
  assumes "safely_reachable D (store db)" and "bson_ok B" and "db_insert D B os db v = (Inr i, db1)"
    and "bincode_ok D" and "db_commit D os2 db1 = (Inr (), db2)"
    and "crash_image (se_file (store db2)) img" and "reads_ok os'"
  shows "\<exists>db3. db_open D os' path (Some (disk_file img)) = (Inr db3, disk_file img) \<and>
    db_get D B os' db3 i = as_stored B v \<and> (plain v \<longrightarrow> db_get D B os' db3 i = Inr v) \<and>
    (\<forall>j. db_get D B os' db3 j = db_get D B os' db1 j)"
proof -
  obtain bs e where a: "append D os (store db) Blob bs = (Inr i, e)" and db1: "db1 = db\<lparr>store := e\<rparr>"
    and bs: "to_bson_bytes B v = Inr bs" "from_bson_bytes B bs = as_stored B v" by (rule db_insert_InrD [OF assms(3)])
  have re: "safely_reachable D e" by (rule reachable_put [OF assms(1) a])
  obtain e2 where c: "commit D os2 e = (Inr (), e2)" and db2: "store db2 = e2"
    using assms(5) db1 by (auto simp: db_commit_def on_store_eq)
  have dirty: "is_dirty e \<or> settled D e" using docs_get_put(4) [OF assms(1) a] by blast
  have "\<not> se_dirty e2" and inv2: "engine_inv D e2"
    using commit_Inr_cases [OF reach_inv [OF re] assms(4) c] by simp_all
  then have "outcomes D e2 {engine_docs D e2}"
    using clean_store_rel [of D e2] commit_settled [OF reach_inv [OF re] assms(4) dirty c] by (simp add: store_rel_def)
  then obtain e3 where e3: "engine_open D os' path (Some (disk_file img)) = (Inr e3, disk_file img)"
    by (rule crash_open [OF inv2 _ _ assms(7), where img = img]) (use assms(6) db2 in simp)
  have "engine_inv D e3 \<and> engine_docs D e3 = engine_docs D e"
    using commit_crash_docs [OF re assms(4) dirty c _ assms(7) e3] assms(6) db2 by simp
  then have rd: "read_record D os' e3 j = read_record D os' e j" for j
    using inv_read [OF _ assms(7)] reach_inv [OF re] by simp
  have "db_open D os' path (Some (disk_file img)) = (Inr \<lparr>store = e3\<rparr>, disk_file img)" using e3 by (simp add: db_open_def)
  moreover have "db_get D B os' \<lparr>store = e3\<rparr> i = as_stored B v"
    using rd append_reads(2) [OF assms(1) a assms(7)] bs by (simp add: db_get_record)
  ultimately show ?thesis using rd db1 as_stored_plain [OF assms(2) _ bs(1)] by (intro exI [of _ "\<lparr>store = e3\<rparr>"]) (simp add: db_get_record)
qed

theorem committed_document_survives_witness:
  "\<exists>db3. db_open sample_D os_ok ''sample.cndb'' (Some (disk_file (content (se_file sample_done)))) =
      (Inr db3, disk_file (content (se_file sample_done))) \<and>
    db_get sample_D empty_bson os_ok db3 (DocId 1) = as_stored empty_bson (Object []) \<and>
    db_get sample_D empty_bson os_ok db3 (DocId 1) = Inr (Object []) \<and>
    (\<forall>j. db_get sample_D empty_bson os_ok db3 j = db_get sample_D empty_bson os_ok \<lparr>store = sample_put\<rparr> j)"
proof -
  have c: "db_commit sample_D os_ok \<lparr>store = sample_put\<rparr> = (Inr (), \<lparr>store = sample_done\<rparr>)"
    by (simp add: db_commit_def sample_done_eq on_store_def)
  show ?thesis
    using committed_document_survives [OF _ empty_bson_ok sample_insert sample_D_ok(1) c, where os' = os_ok
        and path = "''sample.cndb''" and img = "content (se_file sample_done)"]
    by (simp add: crash_image_content empty_stored)
qed

end
