(* ===== verification/Codec_Tests.thy ===== *)
theory Codec_Tests
  imports Doc_Codec Record_Tests
begin

text \<open>
  The unit tests of \<open>src/src/document/codec.rs\<close>, one definition per test function. The numbers of
  \<open>serde_json\<close> are third-party values: the literals of the \<open>json!\<close> macro and \<open>is_i64\<close> are
  functions of the record \<open>numbers\<close>, as the \<open>bson\<close> crate is of the record \<open>bson\<close>.
\<close>

section \<open>Values\<close>

record 'n numbers =
  int_lit :: "int \<Rightarrow> 'n"
  float_lit :: "rat \<Rightarrow> 'n"
  is_i64 :: "'n \<Rightarrow> bool"

text \<open>\<open>value[key]\<close> of \<open>serde_json\<close>: \<open>Null\<close> for a missing key and for anything but an object.\<close>

fun index_str :: "'n Value \<Rightarrow> string \<Rightarrow> 'n Value" where
  "index_str (Object kvs) key = (case map_of kvs key of Some v \<Rightarrow> v | None \<Rightarrow> Null)"
| "index_str _ key = Null"

fun is_null :: "'n Value \<Rightarrow> bool" where
  "is_null Null = True"
| "is_null _ = False"

text \<open>\<open>Value::is_i64\<close>.\<close>

fun is_i64_value :: "'n numbers \<Rightarrow> 'n Value \<Rightarrow> bool" where
  "is_i64_value N (Number n) = is_i64 N n"
| "is_i64_value N _ = False"

section \<open>The tests\<close>

text \<open>\<open>roundtrip\<close>, with the rest of the test as a function of its value.\<close>

definition roundtrip :: "('n, 'd) bson \<Rightarrow> 'n Value \<Rightarrow> ('n Value \<Rightarrow> bool) \<Rightarrow> bool" where
  "roundtrip B v k = unwrap (to_bson_bytes B v) (\<lambda>bs. unwrap (from_bson_bytes B bs) k)"

definition flat_doc :: "'n numbers \<Rightarrow> 'n Value" where
  "flat_doc N = Object [(''name'', String ''parse_header''), (''line'', Number (int_lit N 42)), (''public'', Bool True)]"

definition flat_objects_roundtrip :: "('n, 'd) bson \<Rightarrow> 'n numbers \<Rightarrow> bool" where
  "flat_objects_roundtrip B N = (let doc = flat_doc N in roundtrip B doc (\<lambda>out. out = doc))"

definition nested_doc :: "'n numbers \<Rightarrow> 'n Value" where
  "nested_doc N = Object [
     (''kind'', String ''Function''),
     (''qualified_name'', String ''cndb::storage::engine::StorageEngine::commit''),
     (''span'', Object [(''start_line'', Number (int_lit N 231)), (''end_line'', Number (int_lit N 268)),
        (''start_byte'', Number (int_lit N 7104))]),
     (''params'', Array [
        Object [(''name'', String ''self''), (''by_ref'', Bool True)],
        Object [(''name'', String ''force''), (''by_ref'', Bool False)]]),
     (''doc'', Null),
     (''tags'', Array [String ''storage'', String ''commit'', String ''durability''])]"

definition nested_objects_and_arrays_roundtrip :: "('n, 'd) bson \<Rightarrow> 'n numbers \<Rightarrow> bool" where
  "nested_objects_and_arrays_roundtrip B N = (let doc = nested_doc N in roundtrip B doc (\<lambda>out. out = doc))"

text \<open>The UTF-8 bytes of the string under the key \<open>unicode\<close>.\<close>

definition unicode_text :: string where
  "unicode_text = map char_of [0xCE::nat, 0xBB, 0x20, 0xE2, 0x86, 0x92, 0x20, 0xE2, 0x88, 0x80, 0x20,
     0xE6, 0x97, 0xA5, 0xE6, 0x9C, 0xAC, 0xE8, 0xAA, 0x9E]"

definition scalar_doc :: "'n numbers \<Rightarrow> 'n Value" where
  "scalar_doc N = Object [
     (''null'', Null), (''true'', Bool True), (''false'', Bool False),
     (''int'', Number (int_lit N 42)), (''negative'', Number (int_lit N (- 7))), (''zero'', Number (int_lit N 0)),
     (''float'', Number (float_lit N 1.5)), (''string'', String ''''), (''unicode'', String unicode_text),
     (''empty_object'', Object []), (''empty_array'', Array [])]"

definition scalar_types_keep_their_identity :: "('n, 'd) bson \<Rightarrow> 'n numbers \<Rightarrow> bool" where
  "scalar_types_keep_their_identity B N =
     (let doc = scalar_doc N in
      roundtrip B doc (\<lambda>out. out = doc \<and> is_null (index_str out ''null'') \<and>
        index_str out ''int'' = Number (int_lit N 42) \<and> index_str out ''float'' = Number (float_lit N 1.5)))"

definition large_doc :: "'n numbers \<Rightarrow> 'n Value" where
  "large_doc N = Object [(''n'', Number (int_lit N 9007199254740993))]"

definition integers_do_not_silently_become_floats :: "('n, 'd) bson \<Rightarrow> 'n numbers \<Rightarrow> bool" where
  "integers_do_not_silently_become_floats B N = roundtrip B (large_doc N) (\<lambda>out.
     index_str out ''n'' = Number (int_lit N 9007199254740993) \<and> is_i64_value N (index_str out ''n''))"

fun nest :: "'n numbers \<Rightarrow> nat \<Rightarrow> 'n Value" where
  "nest N 0 = Object [(''leaf'', Bool True)]"
| "nest N (Suc i) = Object [(''depth'', Number (int_lit N (int i))), (''child'', nest N i)]"

definition deep_nesting_roundtrips :: "('n, 'd) bson \<Rightarrow> 'n numbers \<Rightarrow> bool" where
  "deep_nesting_roundtrips B N = (let doc = nest N 32 in roundtrip B doc (\<lambda>out. out = doc))"

definition non_objects_are_refused_with_their_type_named :: "('n, 'd) bson \<Rightarrow> 'n numbers \<Rightarrow> bool" where
  "non_objects_are_refused_with_their_type_named B N = list_all
     (\<lambda>(v, expected). case to_bson_bytes B v of Inl (NotAnObject name) \<Rightarrow> name = expected | _ \<Rightarrow> False)
     [(Null, ''null''), (Bool True, ''a boolean''), (Number (int_lit N 3), ''a number''),
      (String ''text'', ''a string''),
      (Array [Number (int_lit N 1), Number (int_lit N 2), Number (int_lit N 3)], ''an array'')]"

definition garbage_bytes_do_not_decode :: "('n, 'd) bson \<Rightarrow> bool" where
  "garbage_bytes_do_not_decode B \<longleftrightarrow>
     is_err (from_bson_bytes B (ascii ''not bson at all'')) \<and> is_err (from_bson_bytes B [])"

definition cut_doc :: "'n Value" where
  "cut_doc = Object [(''key'', String ''a value long enough to cut'')]"

definition a_truncated_document_does_not_decode :: "('n, 'd) bson \<Rightarrow> bool" where
  "a_truncated_document_does_not_decode B =
     unwrap (to_bson_bytes B cut_doc) (\<lambda>bs. 5 \<le> length bs \<and> is_err (from_bson_bytes B (take (length bs - 5) bs)))"

section \<open>They pass\<close>

text \<open>
  What the tests need of the crates. A BSON document opens with its own length in bytes, as a
  little-endian 32-bit integer, and is at least five bytes long; a reader meets the end of its
  input when there are fewer bytes. The documents of the tests are within the crate's limits.
\<close>

definition bson_framed :: "('n, 'd) bson \<Rightarrow> bool" where
  "bson_framed B \<longleftrightarrow>
     (\<forall>doc bs. to_writer B doc = Inr bs \<longrightarrow> 5 \<le> length bs \<and> unat (le_word (take 4 bs) :: u32) = length bs) \<and>
     (\<forall>doc bs. from_slice B bs = Inr doc \<longrightarrow> 5 \<le> length bs \<and> unat (le_word (take 4 bs) :: u32) \<le> length bs)"

definition storable :: "('n, 'd) bson \<Rightarrow> 'n Value \<Rightarrow> bool" where
  "storable B v \<longleftrightarrow> (\<exists>doc bs. to_document B v = Inr doc \<and> to_writer B doc = Inr bs \<and> length bs \<le> 4000)"

definition numbers_ok :: "'n numbers \<Rightarrow> bool" where
  "numbers_ok N \<longleftrightarrow> (\<forall>i. - (2 ^ 63) \<le> i \<and> i < 2 ^ 63 \<longrightarrow> is_i64 N (int_lit N i))"

definition codec_docs :: "'n numbers \<Rightarrow> 'n Value list" where
  "codec_docs N = [flat_doc N, nested_doc N, scalar_doc N, large_doc N, nest N 32, cut_doc]"

lemma storable_bytes:
  assumes "storable B v" and "is_object v"
  obtains doc bs where "to_bson_bytes B v = Inr bs" and "to_writer B doc = Inr bs" and "length bs \<le> 4000"
  using assms by (auto simp: storable_def to_bson_bytes_def res_bind_def map_err_def)

lemma wp_roundtrip:
  assumes "bson_ok B" and "plain v" and "storable B v" and "is_object v" and "k v"
  shows "roundtrip B v k"
proof -
  obtain doc bs where bs: "to_bson_bytes B v = Inr bs" using storable_bytes [OF assms(3,4)] by blast
  then show ?thesis using to_bson_bytes_InrD [OF assms(1,2) bs] assms(5) by (simp add: roundtrip_def)
qed

lemma plain_nest: "plain (nest N i)"
  by (induction i) auto

lemma object_nest: "is_object (nest N i)"
  by (cases i) auto

lemma codec_docs_plain:
  "v \<in> set (codec_docs N) \<Longrightarrow> plain v \<and> is_object v"
  by (auto simp: codec_docs_def flat_doc_def nested_doc_def scalar_doc_def large_doc_def cut_doc_def plain_nest object_nest)

lemma from_slice_short:
  assumes "bson_framed B" and "length bs < 5 \<or> length bs < unat (le_word (take 4 bs) :: u32)"
  shows "is_err (from_bson_bytes B bs)"
proof (cases "from_slice B bs")
  case (Inr doc)
  then have "5 \<le> length bs \<and> unat (le_word (take 4 bs) :: u32) \<le> length bs" using assms(1) by (simp add: bson_framed_def)
  then show ?thesis using assms(2) by linarith
qed (simp add: from_bson_bytes_def map_err_def res_bind_def)

text \<open>A written document that lost its last bytes does not decode.\<close>

lemma truncated_document:
  assumes "bson_framed B" and "to_writer B doc = Inr bs" and "n < length bs"
  shows "is_err (from_bson_bytes B (take n bs))"
proof (rule from_slice_short [OF assms(1)])
  have "unat (le_word (take 4 bs) :: u32) = length bs" using assms(1,2) by (simp add: bson_framed_def)
  moreover have "5 \<le> n \<Longrightarrow> take 4 (take n bs) = take 4 bs" by simp
  ultimately show "length (take n bs) < 5 \<or> length (take n bs) < unat (le_word (take 4 (take n bs)) :: u32)"
    using assms(3) by (cases "5 \<le> n") auto
qed

lemma codec_tests:
  assumes "bson_ok B" and "bson_framed B" and "numbers_ok N" and "\<And>v. v \<in> set (codec_docs N) \<Longrightarrow> storable B v"
  shows "flat_objects_roundtrip B N" and "nested_objects_and_arrays_roundtrip B N"
    and "scalar_types_keep_their_identity B N" and "integers_do_not_silently_become_floats B N"
    and "deep_nesting_roundtrips B N" and "non_objects_are_refused_with_their_type_named B N"
    and "garbage_bytes_do_not_decode B" and "a_truncated_document_does_not_decode B"
proof -
  have rt: "v \<in> set (codec_docs N) \<Longrightarrow> k v \<Longrightarrow> roundtrip B v k" for v k
    using wp_roundtrip [OF assms(1)] codec_docs_plain assms(4) by blast
  show "flat_objects_roundtrip B N" "nested_objects_and_arrays_roundtrip B N" "deep_nesting_roundtrips B N"
    by (simp_all add: flat_objects_roundtrip_def nested_objects_and_arrays_roundtrip_def deep_nesting_roundtrips_def
        codec_docs_def rt)
  show "scalar_types_keep_their_identity B N"
    unfolding scalar_types_keep_their_identity_def Let_def
    by (rule rt) (simp add: codec_docs_def, simp add: scalar_doc_def)
  show "integers_do_not_silently_become_floats B N" unfolding integers_do_not_silently_become_floats_def
    by (rule rt) (simp add: codec_docs_def, use assms(3) in \<open>simp add: large_doc_def numbers_ok_def\<close>)
  show "non_objects_are_refused_with_their_type_named B N"
    by (simp add: non_objects_are_refused_with_their_type_named_def to_bson_bytes_def)
  show "garbage_bytes_do_not_decode B"
    unfolding garbage_bytes_do_not_decode_def
    by (intro conjI from_slice_short [OF assms(2)]) (simp_all add: ascii_def)
  have "storable B cut_doc" by (rule assms(4)) (simp add: codec_docs_def)
  then obtain doc bs where bs: "to_bson_bytes B cut_doc = Inr bs" "to_writer B doc = Inr bs"
    by (rule storable_bytes) (simp add: cut_doc_def)
  have len: "5 \<le> length bs" using assms(2) bs(2) by (auto simp: bson_framed_def)
  show "a_truncated_document_does_not_decode B"
    using truncated_document [OF assms(2) bs(2)] bs(1) len by (simp add: a_truncated_document_does_not_decode_def)
qed

end
