(* ===== verification/Api_Tests.thy ===== *)
theory Api_Tests
  imports Cndb_Api Codec_Tests Engine_Tests_Pass
begin

text \<open>
  The unit tests of the public handle (\<open>src/src/api.rs\<close>) and the examples in the documentation
  of the crate (\<open>src/src/lib.rs\<close>) and of the handle, which \<open>cargo test\<close> runs too. They pass on
  every undisturbed system, with a \<open>bson\<close> crate that keeps its contract and takes the documents
  of the tests.
\<close>

section \<open>The tests\<close>

definition function_doc :: "string \<Rightarrow> 'n Value" where
  "function_doc name = Object [(''kind'', String ''Function''), (''name'', String name)]"

definition named_doc :: "string \<Rightarrow> 'n Value" where
  "named_doc name = Object [(''name'', String name)]"

definition documents_roundtrip_across_a_reopen :: "deps \<Rightarrow> ('n, 'd) bson \<Rightarrow> os \<Rightarrow> string \<Rightarrow> bool" where
  "documents_roundtrip_across_a_reopen D B os path =
     opened (db_open D os path None) (\<lambda>db.
     unwrap_st (db_insert D B os db (function_doc ''commit'')) (\<lambda>kept db.
     unwrap_st (db_insert D B os db (function_doc ''gone'')) (\<lambda>removed db.
     unwrap_st (db_delete D os db removed) (\<lambda>_ db.
     unwrap_st (db_commit D os db) (\<lambda>_ db.
     opened (db_open D os path (Some (se_file (store db)))) (\<lambda>db.
       db_len db = 1 \<and>
       unwrap (db_get D B os db kept) (\<lambda>v. index_str v ''name'' = String ''commit'') \<and>
       fails_with is_Deleted (db_get D B os db removed) \<and>
       db_ids db = {|kept|} \<and>
       unwrap (db_verify D os db) (\<lambda>_. True)))))))"

definition dropping_without_committing_discards_writes :: "deps \<Rightarrow> ('n, 'd) bson \<Rightarrow> os \<Rightarrow> string \<Rightarrow> bool" where
  "dropping_without_committing_discards_writes D B os path =
     opened (db_open D os path None) (\<lambda>db.
     unwrap_st (db_insert D B os db (named_doc ''never committed'')) (\<lambda>_ db.
     opened (db_open D os path (Some (se_file (store db)))) (\<lambda>db. db_is_empty db)))"

definition non_objects_are_refused_before_anything_is_written ::
    "deps \<Rightarrow> ('n, 'd) bson \<Rightarrow> 'n numbers \<Rightarrow> os \<Rightarrow> string \<Rightarrow> bool" where
  "non_objects_are_refused_before_anything_is_written D B N os path =
     opened (db_open D os path None) (\<lambda>db.
     case db_insert D B os db (Array (map (\<lambda>i. Number (int_lit N i)) [1, 2, 3])) of
       (r, db) \<Rightarrow> fails_with is_NotAnObject r \<and> db_is_empty db)"

text \<open>The examples of the documentation, of the handle and of the crate.\<close>

definition handle_example :: "deps \<Rightarrow> ('n, 'd) bson \<Rightarrow> os \<Rightarrow> string \<Rightarrow> bool" where
  "handle_example D B os path =
     opened (db_open D os path None) (\<lambda>db.
     unwrap_st (db_insert D B os db (named_doc ''parse_header'')) (\<lambda>i db.
     unwrap_st (db_commit D os db) (\<lambda>_ db.
     unwrap (db_get D B os db i) (\<lambda>v. index_str v ''name'' = String ''parse_header''))))"

definition crate_example :: "deps \<Rightarrow> ('n, 'd) bson \<Rightarrow> os \<Rightarrow> string \<Rightarrow> bool" where
  "crate_example D B os path =
     opened (db_open D os path None) (\<lambda>db.
     unwrap_st (db_insert D B os db (function_doc ''parse_header'')) (\<lambda>i db.
     unwrap_st (db_commit D os db) (\<lambda>_ db.
     unwrap (db_get D B os db i) (\<lambda>v. index_str v ''kind'' = String ''Function''))))"

section \<open>Rules for the operations of the handle\<close>

definition shows_db :: "deps \<Rightarrow> Cndb \<Rightarrow> view \<Rightarrow> bool" where
  "shows_db D db v \<longleftrightarrow> shows_view D (store db) v"

lemma unwrap_on_store: "unwrap_st (on_store re db) k \<longleftrightarrow> unwrap_st re (\<lambda>x e. k x (db\<lparr>store := e\<rparr>))"
  by (cases re rule: prod.exhaust, rename_tac r e, case_tac r) (simp_all add: on_store_def)

lemma opened_db:
  "opened (db_open D os path existing) k \<longleftrightarrow> opened (engine_open D os path existing) (\<lambda>e. k \<lparr>store = e\<rparr>)"
  by (cases "engine_open D os path existing" rule: prod.exhaust, rename_tac r f, case_tac r)
    (simp_all add: db_open_def)

lemma db_bed_new:
  "test_bed D os \<Longrightarrow> (\<And>db. shows_db D db view_new \<Longrightarrow> k db) \<Longrightarrow> opened (db_open D os path None) k"
  by (auto simp: opened_db shows_db_def intro!: bed_new)

lemma db_bed_insert:
  assumes "shows_db D db v" and "test_bed D os" and "0 < v_room v" and "bson_ok B" and "plain j"
    and "is_object j" and "storable B j"
    and k: "\<And>db' bs. shows_db D db' (view_put Blob bs v) \<Longrightarrow> from_bson_bytes B bs = Inr j \<Longrightarrow>
      k (DocId (st_next (v_now v))) db'"
  shows "unwrap_st (db_insert D B os db j) k"
proof -
  obtain doc bs where bs: "to_bson_bytes B j = Inr bs" "length bs \<le> 4000"
    using storable_bytes [OF assms(7,6)] by blast
  have "from_bson_bytes B bs = Inr j" using to_bson_bytes_InrD [OF assms(4,5) bs(1)] by simp
  then show ?thesis using assms(1-3) bs
    by (auto simp: db_insert_def unwrap_on_store shows_db_def intro!: bed_append k)
qed

lemma db_bed_delete:
  "shows_db D db v \<Longrightarrow> test_bed D os \<Longrightarrow> 0 < v_room v \<Longrightarrow> \<not> isl (docs_get (v_now v) i) \<Longrightarrow>
   (\<And>db'. shows_db D db' (view_del i v) \<Longrightarrow> k () db') \<Longrightarrow> unwrap_st (db_delete D os db i) k"
  by (auto simp: db_delete_def unwrap_on_store shows_db_def intro!: bed_del)

lemma db_bed_commit:
  "shows_db D db v \<Longrightarrow> test_bed D os \<Longrightarrow> v_dirty v \<Longrightarrow> 0 < v_room v \<Longrightarrow>
   (\<And>db'. shows_db D db' (view_commit v) \<Longrightarrow> k () db') \<Longrightarrow> unwrap_st (db_commit D os db) k"
  by (auto simp: db_commit_def unwrap_on_store shows_db_def intro!: bed_commit)

lemma db_bed_reopen:
  "shows_db D db v \<Longrightarrow> test_bed D os \<Longrightarrow> (\<And>db'. shows_db D db' (view_reopen v) \<Longrightarrow> k db') \<Longrightarrow>
   opened (db_open D os path (Some (se_file (store db)))) k"
  by (auto simp: opened_db shows_db_def intro!: bed_reopen)

lemma db_queries:
  assumes "shows_db D db v" and "test_bed D os"
  shows "db_get D B os db i = res_bind (docs_get (v_now v) i) (\<lambda>r. from_bson_bytes B (payload r))"
    and "db_verify D os db = Inr (v_kept v)"
    and "unat (db_len db) = card (dom (st_docs (v_now v)))"
    and "fset (db_ids db) = dom (st_docs (v_now v))"
    and "db_is_empty db \<longleftrightarrow> card (dom (st_docs (v_now v))) = 0"
  using assms bed_queries [of D "store db" v os]
  by (simp_all add: shows_db_def db_get_record db_verify_def db_len_def db_ids_def db_is_empty_def view_state is_empty_iff)

section \<open>They pass\<close>

lemma docs_plain: "plain (function_doc name)" "is_object (function_doc name)" "plain (named_doc name)" "is_object (named_doc name)"
  by (simp_all add: function_doc_def named_doc_def)

lemmas db_steps = db_bed_new db_bed_insert db_bed_commit db_bed_reopen db_bed_delete

definition api_docs :: "'n Value list" where
  "api_docs = [function_doc ''commit'', function_doc ''gone'', named_doc ''never committed'',
     named_doc ''parse_header'', function_doc ''parse_header'']"

lemma api_tests:
  assumes "test_bed D os" and "bson_ok B" and "\<And>v. v \<in> set api_docs \<Longrightarrow> storable B v"
  shows "documents_roundtrip_across_a_reopen D B os path"
    and "dropping_without_committing_discards_writes D B os path"
    and "non_objects_are_refused_before_anything_is_written D B N os path"
    and "handle_example D B os path" and "crate_example D B os path"
proof -
  note bed = assms(1,2) and st = assms(3) [unfolded api_docs_def]
  show "documents_roundtrip_across_a_reopen D B os path"
    unfolding documents_roundtrip_across_a_reopen_def
    by (intro db_steps) (assumption | rule bed | simp add: docs_plain st db_queries [OF _ bed(1)] u64_eq_iff
        fset_inject [symmetric] function_doc_def [of "''commit''"])+
  show "dropping_without_committing_discards_writes D B os path"
    unfolding dropping_without_committing_discards_writes_def
    by (intro db_steps) (assumption | rule bed | simp add: docs_plain st db_queries [OF _ bed(1)])+
  show "non_objects_are_refused_before_anything_is_written D B N os path"
    unfolding non_objects_are_refused_before_anything_is_written_def
    by (rule db_bed_new, rule bed) (simp add: db_insert_def to_bson_bytes_def db_queries [OF _ bed(1)])
  show "handle_example D B os path"
    unfolding handle_example_def
    by (intro db_steps) (assumption | rule bed | simp add: docs_plain st db_queries [OF _ bed(1)] named_doc_def)+
  show "crate_example D B os path"
    unfolding crate_example_def
    by (intro db_steps) (assumption | rule bed | simp add: docs_plain st db_queries [OF _ bed(1)] function_doc_def)+
qed

end
