(* ===== verification/Test_Suite.thy ===== *)
theory Test_Suite
  imports Engine_Tests_Damage Index_Tests Api_Tests
begin

text \<open>
  The unit tests of the crate as one statement for the storage layer and one for the documents
  and the handle: all of them pass, not on one machine with one file system but for every
  system without failures and every checksum, serializer and BSON library within its contract.
\<close>

section \<open>The suites\<close>

definition header_suite :: "(bytes \<Rightarrow> u32) \<Rightarrow> bool" where
  "header_suite crc \<longleftrightarrow> layout_is_exactly_one_slot crc \<and> header_roundtrips crc \<and>
     initial_header_points_past_the_header_region crc \<and> rejects_bad_magic crc \<and> rejects_wrong_version crc \<and>
     detects_corruption_in_every_field crc \<and> live_slot_is_the_highest_generation \<and>
     live_slot_ignores_a_damaged_partner \<and> victim_is_never_the_live_slot"

definition record_suite :: "(bytes \<Rightarrow> u32) \<Rightarrow> bool" where
  "record_suite crc \<longleftrightarrow> frame_roundtrips crc \<and> empty_payload_is_legal crc \<and>
     detects_a_single_flipped_bit_in_the_payload crc \<and> every_kind_survives_its_tag crc \<and>
     rejects_unknown_kinds crc \<and> rejects_absurd_lengths_before_allocating crc \<and> only_user_data_counts_as_a_document"

definition index_suite :: "deps \<Rightarrow> bool" where
  "index_suite D \<longleftrightarrow> ids_start_at_one_and_never_repeat \<and> tombstones_hide_documents_without_losing_the_offset \<and>
     counts_and_ratio_track_tombstones \<and> roundtrips_through_bincode D \<and> rejects_a_truncated_blob D"

definition engine_suite :: "deps \<Rightarrow> os \<Rightarrow> string \<Rightarrow> bool" where
  "engine_suite D os path \<longleftrightarrow>
     a_new_database_starts_empty_and_valid D os path \<and>
     appends_are_readable_before_they_are_committed D os path \<and>
     ids_are_unique_and_documents_do_not_collide D os path \<and>
     data_survives_a_reopen D os path \<and>
     uncommitted_appends_are_lost_on_reopen D os path \<and>
     an_uncommitted_append_is_overwritten_not_orphaned D os path \<and>
     ids_do_not_restart_after_a_reopen D os path \<and>
     commits_alternate_header_slots D os path \<and>
     committing_nothing_does_nothing D os path \<and>
     a_torn_header_falls_back_to_the_previous_generation D os path \<and>
     recovery_still_works_after_writing_over_the_torn_slot D os path \<and>
     both_headers_destroyed_is_reported_clearly D os path \<and>
     a_foreign_file_is_rejected_as_not_a_database D os path \<and>
     a_file_too_short_to_hold_headers_is_rejected D os path \<and>
     a_truncated_file_is_rejected_rather_than_half_read D os path \<and>
     corruption_in_the_payload_is_caught_on_read D os path \<and>
     tombstones_hide_documents_and_survive_a_reopen D os path \<and>
     deleting_twice_or_deleting_nothing_is_an_error D os path \<and>
     the_master_index_does_not_disturb_the_record_stream D os path \<and>
     every_record_kind_roundtrips D os path \<and>
     large_payloads_roundtrip D os path \<and>
     oversized_payloads_are_refused D os path \<and>
     many_commits_keep_the_database_consistent D os path"

definition codec_suite :: "('n, 'd) bson \<Rightarrow> 'n numbers \<Rightarrow> bool" where
  "codec_suite B N \<longleftrightarrow> flat_objects_roundtrip B N \<and> nested_objects_and_arrays_roundtrip B N \<and>
     scalar_types_keep_their_identity B N \<and> integers_do_not_silently_become_floats B N \<and>
     deep_nesting_roundtrips B N \<and> non_objects_are_refused_with_their_type_named B N \<and>
     garbage_bytes_do_not_decode B \<and> a_truncated_document_does_not_decode B"

definition api_suite :: "deps \<Rightarrow> ('n, 'd) bson \<Rightarrow> 'n numbers \<Rightarrow> os \<Rightarrow> string \<Rightarrow> bool" where
  "api_suite D B N os path \<longleftrightarrow> documents_roundtrip_across_a_reopen D B os path \<and>
     dropping_without_committing_discards_writes D B os path \<and>
     non_objects_are_refused_before_anything_is_written D B N os path \<and>
     handle_example D B os path \<and> crate_example D B os path"

section \<open>The storage layer\<close>

text \<open>
  C30: the unit tests of the header, of the records, of the index and of the engine pass, on
  every operating system that reports no failure and on every path without a file, for every
  checksum that detects the change of a single byte and every serializer that round-trips,
  takes as many bytes as bincode and refuses a blob cut short.
\<close>

theorem storage_tests_pass:
  assumes "bincode_ok D" and "bincode_total D" and "bincode_prefix D" and "detects_one_byte (crc32 D)"
    and "all_ok os"
  shows "header_suite (crc32 D) \<and> record_suite (crc32 D) \<and> index_suite D \<and> engine_suite D os path"
proof (intro conjI)
  have bed: "test_bed D os" using assms by (simp add: test_bed_def)
  show "header_suite (crc32 D)" unfolding header_suite_def using header_tests assms(4) by (intro conjI) simp_all
  show "record_suite (crc32 D)" unfolding record_suite_def using record_tests assms(4) by (intro conjI) simp_all
  show "index_suite D" unfolding index_suite_def using index_tests assms(1-3) by (intro conjI) simp_all
  show "engine_suite D os path" unfolding engine_suite_def
    by (intro conjI passes_new_database [OF assms(5)] passes_readable [OF bed] passes_ids_unique [OF bed]
        passes_reopen [OF bed] passes_lost [OF bed] passes_overwritten [OF bed] passes_ids_continue [OF bed]
        passes_alternate [OF bed] passes_commit_nothing [OF bed] passes_torn [OF bed] passes_recovery [OF bed]
        passes_both_headers [OF bed] passes_foreign [OF bed] passes_too_short [OF bed] passes_truncated [OF bed]
        passes_corruption [OF bed assms(4)] passes_tombstones [OF bed] passes_deleting_twice [OF bed]
        passes_master_index [OF bed] passes_kinds [OF bed] passes_large [OF bed] passes_oversized [OF bed]
        passes_many_commits [OF bed])
qed

theorem storage_tests_pass_witness:
  "header_suite sum_crc \<and> record_suite sum_crc \<and> index_suite (sample_deps sum_crc) \<and>
    engine_suite (sample_deps sum_crc) os_ok ''engine.cndb''"
  using storage_tests_pass [of "sample_deps sum_crc" os_ok "''engine.cndb''"] sum_crc_detects os_ok_all_ok by simp

section \<open>Documents and the handle\<close>

text \<open>
  C31: the unit tests of the codec and of the handle and the examples of the documentation pass,
  on every operating system that reports no failure, for every BSON library that inverts its
  own writing, prefixes a document with its length and takes the documents of the tests.
\<close>

theorem document_tests_pass:
  assumes "test_bed D os" and "bson_ok B" and "bson_framed B" and "numbers_ok N"
    and "\<And>v. v \<in> set (codec_docs N @ api_docs) \<Longrightarrow> storable B v"
  shows "codec_suite B N \<and> api_suite D B N os path"
  unfolding codec_suite_def api_suite_def
  using codec_tests [OF assms(2-4)] api_tests [OF assms(1,2)] assms(5) by (intro conjI) simp_all

text \<open>
  A library that writes the documents of a table, each as its position between a length and a
  final zero byte.
\<close>

definition table_entry :: "nat \<Rightarrow> bytes" where
  "table_entry i = le_bytes 4 (9 :: u32) @ le_bytes 4 (of_nat i :: u32) @ [0]"

definition table_bson :: "'n Value list \<Rightarrow> ('n, 'n Value) bson" where
  "table_bson ds = \<lparr>to_document = Inr,
     to_writer = (\<lambda>d. if d \<in> set ds then Inr (table_entry (length (takeWhile (\<lambda>x. x \<noteq> d) ds))) else Inl ''unsupported''),
     from_slice = (\<lambda>bs. let i = unat (le_word (take 4 (drop 4 bs)) :: u32) in
       if i < length ds \<and> bs = table_entry i then Inr (ds ! i) else Inl ''invalid''),
     from_document = Inr\<rparr>"

lemma table_entry_props [simp]: "length (table_entry i) = 9" "le_word (take 4 (table_entry i)) = (9 :: u32)"
  "take 4 (drop 4 (table_entry i)) = le_bytes 4 (of_nat i :: u32)"
  by (simp_all add: table_entry_def)

lemma table_slice: "from_slice (table_bson ds) bs = Inr d \<Longrightarrow> \<exists>i. bs = table_entry i"
  unfolding table_bson_def by (simp add: Let_def split: if_splits) blast

lemma table_bson_ok:
  assumes "length ds < 2 ^ 32"
  shows "bson_ok (table_bson ds)" and "bson_framed (table_bson ds)"
    and "v \<in> set ds \<Longrightarrow> storable (table_bson ds) v"
proof -
  have i: "length (takeWhile (\<lambda>x. x \<noteq> d) ds) < length ds \<and> ds ! length (takeWhile (\<lambda>x. x \<noteq> d) ds) = d"
    if "d \<in> set ds" for d using that by (induction ds) auto
  have "unat (of_nat (length (takeWhile (\<lambda>x. x \<noteq> d) ds)) :: u32) = length (takeWhile (\<lambda>x. x \<noteq> d) ds)"
    if "d \<in> set ds" for d using i [OF that] assms by (simp add: word_nat)
  then show "bson_ok (table_bson ds)" using i by (auto simp: bson_ok_def table_bson_def)
  show "bson_framed (table_bson ds)"
    unfolding bson_framed_def using table_slice [of ds] by (fastforce simp: table_bson_def split: if_splits)
  show "v \<in> set ds \<Longrightarrow> storable (table_bson ds) v" by (simp add: storable_def table_bson_def)
qed

definition sample_numbers :: "(int + rat) numbers" where
  "sample_numbers = \<lparr>int_lit = Inl, float_lit = Inr,
     is_i64 = case_sum (\<lambda>i. - (2 ^ 63) \<le> i \<and> i < 2 ^ 63) (\<lambda>_. False)\<rparr>"

definition sample_table :: "(int + rat) Value list" where
  "sample_table = codec_docs sample_numbers @ api_docs"

theorem document_tests_pass_witness:
  "codec_suite (table_bson sample_table) sample_numbers \<and>
    api_suite (sample_deps sum_crc) (table_bson sample_table) sample_numbers os_ok ''api.cndb''"
proof (rule document_tests_pass)
  have len: "length sample_table < 2 ^ 32" by (simp add: sample_table_def codec_docs_def api_docs_def)
  show "test_bed (sample_deps sum_crc) os_ok" by (simp add: test_bed_def os_ok_all_ok)
  show "numbers_ok sample_numbers" by (simp add: numbers_ok_def sample_numbers_def)
  show "bson_ok (table_bson sample_table)" "bson_framed (table_bson sample_table)"
    by (rule table_bson_ok [OF len])+
  show "\<And>v. v \<in> set (codec_docs sample_numbers @ api_docs) \<Longrightarrow> storable (table_bson sample_table) v"
    using table_bson_ok(3) [OF len] by (simp add: sample_table_def)
qed

end
