(* ===== verification/Provenance.thy ===== *)
theory Provenance
  imports Operations
begin

text \<open>
  Where records come from: whatever a run does, restarts after failures and power losses
  included, a read returns nothing but records that the client appended in that run, under the
  id of that append, so the engine's own records never show up as documents.
\<close>

text \<open>The records a run appended, with the ids they got.\<close>

definition put_by :: "event list \<Rightarrow> (DocId \<times> Record) set" where
  "put_by evs = {(i, r). EPut (rec_kind r) (payload r) (Inr i) \<in> set evs \<and> length (payload r) \<le> unat MAX_RECORD_LEN}"

definition docs_from :: "(DocId \<times> Record) set \<Rightarrow> docs \<Rightarrow> bool" where
  "docs_from A d \<longleftrightarrow> (\<forall>i r. st_docs d i = Some r \<longrightarrow> (i, r) \<in> A)"

definition store_from :: "(DocId \<times> Record) set \<Rightarrow> store \<Rightarrow> bool" where
  "store_from A s \<longleftrightarrow> docs_from A (cur s) \<and> (\<forall>d\<in>possible s. docs_from A d)"

lemma docs_from_mono: "docs_from A d \<Longrightarrow> A \<subseteq> B \<Longrightarrow> docs_from B d"
  by (auto simp: docs_from_def)

lemma store_from_mono: "store_from A s \<Longrightarrow> A \<subseteq> B \<Longrightarrow> store_from B s"
  by (auto simp: store_from_def intro: docs_from_mono)

lemma docs_from_put: "docs_from A d \<Longrightarrow> (DocId (st_next d), r) \<in> A \<Longrightarrow> docs_from A (docs_put d r)"
  by (auto simp: docs_from_def docs_put_def split: if_splits)

lemma docs_from_del: "docs_from A d \<Longrightarrow> docs_from A (docs_del d i)"
  by (auto simp: docs_from_def docs_del_def split: if_splits)

lemma put_by_cons: "put_by (ev # evs) = put_by [ev] \<union> put_by evs"
  by (auto simp: put_by_def)

lemma store_event_from:
  assumes "store_event s ev s'" and "store_from A s"
  shows "store_from (A \<union> put_by [ev]) s'"
proof -
  let ?B = "A \<union> put_by [ev]"
  have s: "store_from ?B s" using assms(2) by (rule store_from_mono) simp
  show ?thesis using assms(1)
  proof cases
    case (st_put p k)
    then have "(DocId (st_next (cur s)), \<lparr>rec_kind = k, payload = p\<rparr>) \<in> ?B" by (simp add: put_by_def)
    then show ?thesis using s st_put(2) docs_from_put by (simp add: store_from_def)
  qed (use s docs_from_del in \<open>auto simp: store_from_def\<close>)
qed

lemma trace_from:
  "trace store_event s evs s' \<Longrightarrow> store_from A s \<Longrightarrow> store_from (A \<union> put_by evs) s'"
proof (induction arbitrary: A rule: trace.induct)
  case (trace_cons s ev t evs u)
  then show ?case using store_event_from put_by_cons [of ev evs] by (metis Un_assoc)
qed (auto intro: store_from_mono)

lemma new_store_from: "store_from {} new_store"
  by (simp add: store_from_def new_store_def docs_from_def no_docs_def)

text \<open>
  C21: every record that a read returns in a safe run, power losses and safe restarts included,
  was appended by that run's client, with that
  kind, that payload and that very id, and is within the size limit: master indexes and
  tombstones of the log, lost documents' leftovers and damaged bytes are never served as documents.
\<close>

theorem reads_return_appended:
  assumes "engine_init D e0" and "trace (safe_event D) e0 evs e" and "reads_ok os"
    and "read_record D os e i = Inr r"
  shows "EPut (rec_kind r) (payload r) (Inr i) \<in> set evs \<and> length (payload r) \<le> unat MAX_RECORD_LEN"
proof -
  obtain s where s: "trace store_event new_store evs s" "store_rel D e s"
    using engine_store.implements [OF assms(1,2)] by blast
  have "store_from (put_by evs) s" using trace_from [OF s(1) new_store_from] by simp
  then have "docs_from (put_by evs) (engine_docs D e)" using s(2) by (simp add: store_from_def store_rel_def)
  moreover have "docs_get (engine_docs D e) i = Inr r"
    using inv_read [OF engine_run.reachable_inv [OF assms(1,2)] assms(3)] assms(4) by simp
  ultimately show ?thesis by (auto simp: docs_from_def docs_get_def put_by_def split: if_splits option.splits)
qed

theorem reads_return_appended_witness:
  "\<exists>r. read_record sample_D os_ok sample_done (DocId 1) = Inr r \<and>
     EPut (rec_kind r) (payload r) (Inr (DocId 1)) \<in> set [EPut Blob sample_doc (Inr (DocId 1)), ECommit (Inr ())] \<and>
     length (payload r) \<le> unat MAX_RECORD_LEN"
proof -
  have t: "trace (safe_event sample_D) sample_new [EPut Blob sample_doc (Inr (DocId 1)), ECommit (Inr ())] sample_done"
    using sample_put_event sample_commit_event by (blast intro: trace_cons trace_nil)
  have "engine_docs sample_D sample_done = engine_docs sample_D sample_put"
    by (rule commit_docs [OF sample_reachable(2) sample_D_ok(1) disjI1 [OF refl] sample_done_eq])
  then have "read_record sample_D os_ok sample_done j = read_record sample_D os_ok sample_put j" for j
    using inv_read [OF reach_inv os_ok_reads_ok] by simp
  then have "read_record sample_D os_ok sample_done (DocId 1) = Inr \<lparr>rec_kind = Blob, payload = sample_doc\<rparr>"
    using append_reads(2) [OF sample_reachable(1) sample_put_eq os_ok_reads_ok] by simp
  then show ?thesis using reads_return_appended [OF sample_new_init t os_ok_reads_ok] by blast
qed

end
