(* ===== verification/Prefixes.thy ===== *)
theory Prefixes
  imports Integrity
begin

text \<open>
  What opens of a file cut short, at any length: what the integration test
  \<open>c8_a_crash_at_any_byte_never_yields_a_corrupt_database\<close> of \<open>src/tests/durability.rs\<close> tries on
  one database, for every database.
\<close>

text \<open>
  The log that the live header describes is all there is to a committed database: a file that
  agrees with it up to there opens as that database.
\<close>

lemma open_same_prefix:
  assumes inv: "engine_inv D e" and clean: "\<not> se_dirty e" and st: "settled D e" and os: "reads_ok os"
    and m: "unat (log_end (se_header e)) \<le> m" and f: "take m (content f) = take m (content (se_file e))"
    and len: "m \<le> length (content f)" "length (content f) \<le> max_off"
  obtains e' where "engine_open D os path (Some f) = (Inr e', f)"
    and "\<And>i. read_record D os e' i = read_record D os e i" and "verify D os e' = verify D os e"
    and "se_index e' = se_index e"
proof -
  let ?h = "se_header e" and ?bs = "content (se_file e)" and ?ix = "se_index e"
  have core: "core_inv D e" and sn: "snap D ?bs ?h ?ix" and end': "se_end e = log_end ?h"
    using inv clean by (simp_all add: engine_inv_def clean_ok_def)
  note sb = snap_bounds [OF sn]
  have ag: "bslice (content f) 128 (unat (log_end ?h)) = bslice ?bs 128 (unat (log_end ?h))"
    using m f by (rule bslice_take)
  have sn': "snap D (content f) ?h ?ix" using sn ag by (rule snap_stable) (use m len in simp)
  have "slot_bytes (content f) i = slot_bytes ?bs i" if "i < 2" for i
    using sb m that f by (intro slot_bytes_take [of m]) simp_all
  then have sel: "select_live [slot_header D (slot_bytes (content f) 0), slot_header D (slot_bytes (content f) 1)] =
      Inr (?h, se_live_slot e)" using settled_select [OF core st] by simp
  let ?e = "loaded D path f ?h (se_live_slot e) ?ix"
  have sz: "128 \<le> length (content f)" "0 < length (content f)" using sb m len by linarith+
  have "load D os path f (of_nat (length (content f))) = Inr ?e"
    using sz(1) len m snap_load_index [OF sn' len(2) os] by (intro load_loaded os sel) simp_all
  then have op: "engine_open D os path (Some f) = (Inr ?e, f)"
    using engine_open_existing [OF sz(2) len(2) os] by simp
  have ix: "index_ok D ?bs (unat (log_end ?h)) ?ix" using sb by blast
  have "read_record D os ?e i = read_record D os e i" for i
    by (rule read_record_same [OF ix]) (use ag m len os core_inv_bounds(3) [OF core] in \<open>simp_all add: loaded_def\<close>)
  moreover obtain rs where rs: "log_is D ?bs (unat (log_end ?h)) rs" using sn unfolding snap_def by blast
  have "verify D os ?e = Inr (length rs)"
    using log_is_stable [OF rs ag] m len os by (intro verify_log) (simp_all add: loaded_def)
  then have "verify D os ?e = verify D os e" using verify_log [OF rs core_inv_bounds(3) [OF core] os] by simp
  moreover have "se_index ?e = ?ix" by (simp add: loaded_def)
  ultimately show thesis using that op by blast
qed

text \<open>
  C17: of a committed database of a safe run, cut to its first \<open>n\<close> bytes, the whole log opens or nothing does. At
  length 0 the file opens as a new database; from the length of the committed log on it opens
  with every document and verifies as before; at every length between it is refused, and never
  half read: there is no falling back to the header of an earlier commit.
\<close>

theorem prefix_all_or_nothing:
  assumes "safely_reachable D e" and "\<not> is_dirty e" and "settled D e" and "all_ok os"
    and "n \<le> length (content (se_file e))"
  shows "case fst (engine_open D os path (Some (disk_file (take n (content (se_file e)))))) of
      Inr e' \<Rightarrow> (if n = 0 then e' = fresh D path
        else unat (log_end (se_header e)) \<le> n \<and> (\<forall>i. read_record D os e' i = read_record D os e i) \<and>
          engine_live_ids e' = engine_live_ids e \<and> verify D os e' = verify D os e)
    | Inl err \<Rightarrow> 0 < n \<and> n < unat (log_end (se_header e)) \<and>
        err = (if n < 128 then UnexpectedEof 0 LOG_START else UnexpectedEof (of_nat n) (log_end (se_header e)))"
proof -
  let ?f = "disk_file (take n (content (se_file e)))" and ?h = "se_header e"
  have inv: "engine_inv D e" by (rule reach_inv [OF assms(1)])
  then have core: "core_inv D e" by (simp add: engine_inv_def)
  note b = core_inv_bounds [OF core] and os = all_ok_reads_ok [OF assms(4)]
  have clean: "\<not> se_dirty e" using assms(2) by (simp add: is_dirty_def)
  have f: "content ?f = take n (content (se_file e))" "length (content ?f) = n" "n \<le> max_off" using assms(5) b by simp_all
  have h: "128 \<le> unat (log_end ?h)" using inv clean b by (simp add: engine_inv_def clean_ok_def)
  consider "n = 0" | "0 < n" "n < 128" | "128 \<le> n" "n < unat (log_end ?h)" | "unat (log_end ?h) \<le> n" by linarith
  then show ?thesis
  proof cases
    case 1
    then have "engine_open D os path (Some ?f) = engine_open D os path None"
      by (simp add: engine_open_def empty_file_def disk_file_def)
    then show ?thesis using 1 open_fresh_eq [OF assms(4), of D path] by simp
  next
    case 2
    have "engine_open D os path (Some ?f) = (Inl (UnexpectedEof 0 LOG_START), ?f)"
      using engine_open_existing [of ?f, OF _ _ os] 2 f short_of_nat [OF 2(2,1)] assms(5)
      by (cases "content (se_file e)") (simp_all add: load_def)
    then show ?thesis using 2 h by simp
  next
    case 3
    have "slot_bytes (content ?f) i = slot_bytes (content (se_file e)) i" if "i < 2" for i
      using 3(1) that by (intro slot_bytes_take [of 128]) simp_all
    then have "select_live [slot_header D (slot_bytes (content ?f) 0), slot_header D (slot_bytes (content ?f) 1)] =
        Inr (?h, se_live_slot e)" using settled_select [OF core assms(3)] by simp
    then have "engine_open D os path (Some ?f) = (Inl (UnexpectedEof (of_nat n) (log_end ?h)), ?f)"
      using open_truncated [of ?f, OF _ _ os] 3 f by simp
    then show ?thesis using 3 by simp
  next
    case 4
    have t: "take n (content ?f) = take n (content (se_file e))" by simp
    obtain e' where "engine_open D os path (Some ?f) = (Inr e', ?f)"
      "\<And>i. read_record D os e' i = read_record D os e i" "verify D os e' = verify D os e"
      "se_index e' = se_index e"
      by (rule open_same_prefix [OF inv clean assms(3) os 4 t, of path]) (use f in simp_all)
    then show ?thesis using 4 h by (simp add: engine_live_ids_def)
  qed
qed

theorem prefix_all_or_nothing_witness:
  "case fst (engine_open sample_D os_ok ''prefix.cndb'' (Some (disk_file (take 130 (content (se_file sample_done)))))) of
      Inr e' \<Rightarrow> (if 130 = (0 :: nat) then e' = fresh sample_D ''prefix.cndb''
        else unat (log_end (se_header sample_done)) \<le> 130 \<and>
          (\<forall>i. read_record sample_D os_ok e' i = read_record sample_D os_ok sample_done i) \<and>
          engine_live_ids e' = engine_live_ids sample_done \<and>
          verify sample_D os_ok e' = verify sample_D os_ok sample_done)
    | Inl err \<Rightarrow> 0 < (130 :: nat) \<and> 130 < unat (log_end (se_header sample_done)) \<and>
        err = (if 130 < (128 :: nat) then UnexpectedEof 0 LOG_START
          else UnexpectedEof (of_nat 130) (log_end (se_header sample_done)))"
proof (rule prefix_all_or_nothing [OF sample_reachable(3) _ _ os_ok_all_ok])
  note c = commit_Inr_cases [OF sample_put_inv sample_D_ok(1) sample_done_eq]
  show "\<not> is_dirty sample_done" using c by (simp add: is_dirty_def)
  show "settled sample_D sample_done"
    by (rule commit_settled [OF sample_put_inv sample_D_ok(1) _ sample_done_eq]) (simp add: is_dirty_def sample_put_sel)
  have "unat (se_end sample_put) \<le> length (content (se_file sample_done))" using c by simp
  then show "130 \<le> length (content (se_file sample_done))" by (simp add: sample_put_sel)
qed

end
