(* ===== verification/Reopening.thy ===== *)
theory Reopening
  imports Operations
begin

text \<open>
  Reopening a database after a commit that failed, without a power loss. The file then holds
  whatever the commit wrote, flushed or not: reopening always works and finds the state before
  or after the commit, but \<open>open\<close> does not flush what it finds, and a commit on the reopened
  engine has nothing to write. So the state a reopened engine shows may still be lost.
\<close>

section \<open>The file after a failed commit\<close>

text \<open>From a settled state a failed commit leaves a file that can be reopened.\<close>

lemma settled_tail_reopen:
  assumes "core_inv D e" and "settled D e" and "tail_write (unat (se_end e)) (se_file e) f"
  shows "reopen_safe D f"
proof -
  have "stable f i" if "i < 2" for i
    using assms(2) that stable_tail [OF assms(3) core_inv_bounds(1) [OF assms(1)] that] unfolding settled_def by blast
  then show ?thesis by (intro stable_reopen_safe) blast
qed

lemma in_flight_reopen_safe:
  assumes core: "core_inv D e" and st: "settled D e" and fl: "header_in_flight D e nxt f"
  shows "reopen_safe D f"
  unfolding reopen_safe_def
proof (intro allI impI)
  fix i k assume i: "i < 2" and k: "cand D f i k"
  let ?live = "se_live_slot e"
  note fd = header_in_flightD [OF fl]
  have live: "?live < 2" "slot_header D (slot_bytes (content f) ?live) = Some (se_header e)"
    using core core_inv_live [OF core] fd(6) by (simp_all add: core_inv_def)
  show "\<exists>j<2. \<exists>h. slot_header D (slot_bytes (content f) j) = Some h \<and> log_end k \<le> log_end h"
  proof (cases "cand D (se_file e) i k")
    case False
    then have "slot_header D (slot_bytes (content f) i) = Some k" using fd(3) [OF i k] by blast
    then show ?thesis using i by blast
  next
    case c: True
    then have now: "slot_header D (slot_bytes (content (se_file e)) i) = Some k"
      using st i stable_cand unfolding settled_def by blast
    have "log_end k \<le> log_end (se_header e)"
    proof (cases "i = ?live")
      case True
      then show ?thesis using now core by (simp add: core_inv_def)
    next
      case ne: False
      have "disk_ok D (se_file e) (unat (se_end e))"
        and "cand D (se_file e) ?live (se_header e)" using core by (simp_all add: core_inv_def cand_now)
      then have "apart k (se_header e)" using disk_ok_apart i live(1) ne c by blast
      then show ?thesis using st now i by (intro apart_le) (auto simp: settled_def)
    qed
    then show ?thesis using live by blast
  qed
qed

lemma commit_failed_reopen_safe:
  assumes inv: "engine_inv D e" and st: "settled D e" and bin: "bincode_ok D" and tear: "commit_tear_safe D e"
    and c: "commit D os e = (Inl err, e')"
  shows "reopen_safe D (se_file e')"
proof -
  have core: "core_inv D e" and dirty: "se_dirty e"
    using inv c by (auto simp: engine_inv_def commit_split split: if_splits)
  obtain q e1 where pre: "commit_prefix D os e = (q, e1)" by fastforce
  note eff = commit_prefix_effect [OF inv bin pre]
  have t: "tail_write (unat (se_end e)) (se_file e) (se_file e1)" and hd: "se_header e1 = se_header e"
    using eff unfolding log_only_def by blast+
  show ?thesis
  proof (cases q)
    case (Inl x)
    then show ?thesis using c dirty pre settled_tail_reopen [OF core st t] by (simp add: commit_split)
  next
    case (Inr pp)
    then obtain ptr p where q: "q = Inr (ptr, p)" by (cases pp) auto
    then have ptr: "ptr = se_end e" and fl: "index_flushed D e p e1" using eff by auto
    have suf: "commit_suffix D os (se_end e) p e1 = (Inl err, e')" using c dirty pre q ptr by (simp add: commit_split)
    have torn: "torn_ok D (slot_bytes (content (se_file e)) (victim_slot (se_slots e)))
       (Header_encode (crc32 D) (next_header e p))"
      using tear fl by (simp add: commit_tear_safe_def index_flushed_def)
    obtain f where f: "e' = e1\<lparr>se_file := f\<rparr>" "header_in_flight D e1 (next_header e p) f"
      using commit_suffix_effect [OF core fl disjI2 [OF torn] suf] by auto
    have "core_inv D e1" using fl unfolding index_flushed_def by blast
    moreover have "settled D e1" using st t core_inv_bounds(1) [OF core] hd by (rule settled_tail)
    ultimately have "reopen_safe D f" using f(2) by (rule in_flight_reopen_safe)
    then show ?thesis using f(1) by simp
  qed
qed

text \<open>Appends, deletions and reads leave the committed state where it is.\<close>

lemma uncommitted_committed:
  assumes "trace (safe_event D) e evs e'" and "engine_inv D e" and "\<forall>ev\<in>set evs. uncommitted ev"
    and "committed D e idx"
  shows "committed D e' idx"
proof -
  have "committed D e idx \<longrightarrow> committed D e' idx"
  proof (rule engine_run.run_relates [OF assms(1,2)])
    fix a ev b assume s: "ev \<in> set evs" "engine_inv D a" "safe_event D a ev b"
    have core: "core_inv D a" using s(2) by (simp add: engine_inv_def)
    have un: "uncommitted ev" using assms(3) s(1) by blast
    show "committed D a idx \<longrightarrow> committed D b idx"
      using s(3)
    proof (cases rule: engine_event.cases)
      case (ev_put os k p r)
      then show ?thesis using append_committed [OF core] by blast
    next
      case (ev_del os i r)
      then show ?thesis using tombstone_committed [OF core] by blast
    qed (use un in simp_all)
  qed blast+
  then show ?thesis using assms(4) by blast
qed

text \<open>
  C13: when a commit from a settled state fails, whatever it left in the file, a new process can open the file without
  a power loss in between: the database it finds is consistent, and all its documents read as
  before the commit or all as before the first uncommitted change.
\<close>

theorem failed_commit_reopens:
  assumes "safely_reachable D e" and "\<not> is_dirty e" and "settled D e"
    and "trace (safe_event D) e evs e1" and "\<forall>ev\<in>set evs. uncommitted ev"
    and "bincode_ok D" and "commit_tear_safe D e1" and "commit D os e1 = (Inl err, e2)" and "reads_ok os'"
  shows "\<exists>e3. engine_open D os' path (Some (se_file e2)) = (Inr e3, se_file e2) \<and> consistent D os' e3 \<and>
    ((\<forall>i. read_record D os' e3 i = read_record D os' e1 i) \<or>
     (\<forall>i. read_record D os' e3 i = read_record D os' e i))"
proof -
  note inv = reach_inv [OF assms(1)]
  have r1: "safely_reachable D e1" using assms(1,4) by (rule reachable_step)
  then have inv1: "engine_inv D e1" by (rule reach_inv)
  have clean: "\<not> se_dirty e" using assms(2) by (simp add: is_dirty_def)
  have "settled D e1"
    using uncommitted_committed [OF assms(4) inv assms(5) clean_committed [OF inv clean assms(3)]]
    by (simp add: committed_def)
  then have safe: "reopen_safe D (se_file e2)" using commit_failed_reopen_safe [OF inv1 _ assms(6,7,8)] by blast
  have inv2: "engine_inv D e2" using commit_inv [OF inv1 assms(6) disjI2 [OF assms(7)] assms(8)] .
  have out: "outcomes D e2 {engine_docs D e1, engine_docs D e}"
    using commit_outcomes [OF inv1 assms(6) disjI2 [OF assms(7)] uncommitted_store_rel(1) [OF inv clean assms(3-5)] assms(8)] by simp
  obtain e3 where op: "engine_open D os' path (Some (se_file e2)) = (Inr e3, se_file e2)"
    by (rule reopen_inv [OF inv2 safe assms(9), of path]) blast
  note oc = outcomes_reopen [OF inv2 out safe assms(9) op]
  then have "engine_docs D e3 = engine_docs D e1 \<or> engine_docs D e3 = engine_docs D e" by blast
  then show ?thesis
    using op engine_inv_consistent [OF oc(3) assms(9)] inv_read [OF oc(3) assms(9)]
      inv_read [OF inv assms(9)] inv_read [OF inv1 assms(9)] by auto
qed

theorem failed_commit_reopens_witness:
  "\<exists>e2. commit sample_D failing_sync sample_put = (Inl (Io (OsError 5)), e2) \<and>
    (\<exists>e3. engine_open sample_D os_ok ''sample.cndb'' (Some (se_file e2)) = (Inr e3, se_file e2) \<and>
      consistent sample_D os_ok e3 \<and>
      ((\<forall>i. read_record sample_D os_ok e3 i = read_record sample_D os_ok sample_put i) \<or>
       (\<forall>i. read_record sample_D os_ok e3 i = read_record sample_D os_ok sample_new i)))"
proof -
  obtain e2 where e2: "commit sample_D failing_sync sample_put = (Inl (Io (OsError 5)), e2)" using failing_commit by blast
  show ?thesis
    using e2 failed_commit_reopens [OF sample_reachable(1) _ sample_new_settled trace_one [OF sample_put_event] _
      sample_D_ok(1) sample_put_tear e2 os_ok_reads_ok]
    by (auto simp: is_dirty_def sample_new_sel)
qed

section \<open>What a reopened database shows may still be lost\<close>

text \<open>An operating system on which one sync fails, and everything else succeeds.\<close>

definition one_sync_fails :: "nat \<Rightarrow> os" where
  "one_sync_fails n = os_ok\<lparr>sync_fault := \<lambda>k. if k = n then Some (OsError 5) else None\<rparr>"

lemma one_sync_fails_sync:
  "engine_sync (one_sync_fails n) e = (if ops (se_file e) = n
     then (Inl (Io (OsError 5)), e\<lparr>se_file := (se_file e)\<lparr>ops := Suc (ops (se_file e))\<rparr>\<rparr>)
     else (Inr (), e\<lparr>se_file := (se_file e)\<lparr>older := [], ops := Suc (ops (se_file e))\<rparr>\<rparr>))"
  by (simp add: engine_sync_def on_file_def sync_file_def one_sync_fails_def)

lemma one_sync_fails_write:
  assumes "buf \<noteq> []" and "unat off + length buf \<le> max_off"
  shows "engine_write (one_sync_fails n) e buf off = (Inr (), e\<lparr>se_file :=
     \<lparr>content = pwrite (content (se_file e)) (unat off) buf, older = versions (se_file e),
      ops = Suc (ops (se_file e))\<rparr>\<rparr>)"
  using assms by (simp add: engine_write_def on_file_def write_all_at_def one_sync_fails_def os_ok_def versions_def Let_def)

lemma engine_write_Inr:
  assumes "engine_write os e buf off = (Inr (), e\<lparr>se_file := g\<rparr>)"
  shows "write_all_at os (se_file e) buf off = (Inr (), g)"
proof -
  obtain r f where rf: "write_all_at os (se_file e) buf off = (r, f)" by fastforce
  then have "map_err Io r = Inr ()" "e\<lparr>se_file := f\<rparr> = e\<lparr>se_file := g\<rparr>"
    using assms by (simp_all add: engine_write_def on_file_def)
  then have "r = Inr ()" "se_file (e\<lparr>se_file := f\<rparr>) = se_file (e\<lparr>se_file := g\<rparr>)"
    by (simp_all add: map_err_Inr_iff)
  then show ?thesis using rf by simp
qed

text \<open>A commit of which only the last sync fails has written its header in full.\<close>

lemma late_commit:
  assumes dirty: "se_dirty e" and enc: "idx_encode D (se_index e) = Inr p" "p \<noteq> []" and fits: "fits e p"
    and slot: "victim_slot (se_slots e) < 2"
  obtains e1 f where "commit_prefix D (one_sync_fails (ops (se_file e) + 5)) e = (Inr (se_end e, p), e1)"
    and "commit D (one_sync_fails (ops (se_file e) + 5)) e = (Inl (Io (OsError 5)), e1\<lparr>se_file := f\<rparr>)"
    and "content (se_file e1) \<in> set (versions f)"
    and "write_all_at (one_sync_fails (ops (se_file e) + 5)) (se_file e1)
      (Header_encode (crc32 D) \<lparr>generation = generation (se_header e1) + 1, master_ptr = se_end e,
         master_len = of_nat (length p), log_end = se_end e1\<rparr>) (slot_offset (victim_slot (se_slots e1)))
      = (Inr (), f\<lparr>ops := ops f - 1\<rparr>)"
proof -
  let ?n = "ops (se_file e)"
  let ?os = "one_sync_fails (?n + 5)"
  let ?f1 = "(se_file e)\<lparr>older := [], ops := Suc ?n\<rparr>"
  have room: "length p \<le> unat MAX_RECORD_LEN" "unat (se_end e) + 9 + length p \<le> max_off"
    using fits by (simp_all add: fits_def)
  have o9: "unat (se_end e + RECORD_HEADER_SIZE) = unat (se_end e) + 9" using room by (simp add: word_nat max_off_def)
  let ?fr = "encode_frame (crc32 D) MasterIndexKind p"
  have fr: "?fr \<noteq> []" using length_encode_frame [of "crc32 D" MasterIndexKind p] by (metis list.size(3) zero_neq_numeral)
  let ?f2 = "\<lparr>content = pwrite (content (se_file e)) (unat (se_end e)) ?fr, older = versions ?f1, ops = Suc (Suc ?n)\<rparr>"
  let ?f3 = "\<lparr>content = pwrite (content ?f2) (unat (se_end e) + 9) p, older = versions ?f2, ops = Suc (Suc (Suc ?n))\<rparr>"
  let ?e1 = "e\<lparr>se_file := ?f3\<lparr>older := [], ops := Suc (Suc (Suc (Suc ?n)))\<rparr>,
    se_end := se_end e + RECORD_HEADER_SIZE + of_nat (length p), se_dirty := True\<rparr>"
  have pre: "commit_prefix D ?os e = (Inr (se_end e, p), ?e1)"
    using enc fr room o9
    by (simp add: commit_prefix_def append_raw_def one_sync_fails_sync one_sync_fails_write Let_def)
  let ?nxt = "\<lparr>generation = generation (se_header ?e1) + 1, master_ptr = se_end e,
         master_len = of_nat (length p), log_end = se_end ?e1\<rparr>"
  let ?h = "Header_encode (crc32 D) ?nxt" and ?off = "slot_offset (victim_slot (se_slots ?e1))"
  let ?g = "\<lparr>content = pwrite (content (se_file ?e1)) (unat ?off) ?h, older = versions (se_file ?e1), ops = ?n + 5\<rparr>"
  have off: "unat ?off + 64 \<le> max_off" using unat_slot_offset [OF slot] slot by (simp add: max_off_def)
  have h: "?h \<noteq> []" using length_Header_encode by (metis list.size(3) zero_neq_numeral)
  have w: "engine_write ?os ?e1 ?h ?off = (Inr (), ?e1\<lparr>se_file := ?g\<rparr>)"
    using one_sync_fails_write [OF h, of ?off "?n + 5" ?e1] off by simp
  have suf: "commit_suffix D ?os (se_end e) p ?e1 = (Inl (Io (OsError 5)), ?e1\<lparr>se_file := ?g\<lparr>ops := ?n + 6\<rparr>\<rparr>)"
    using w unfolding commit_suffix_def Let_def by (simp add: one_sync_fails_sync)
  show thesis
  proof (rule that [OF pre, of "?g\<lparr>ops := ?n + 6\<rparr>"])
    show "commit D ?os e = (Inl (Io (OsError 5)), ?e1\<lparr>se_file := ?g\<lparr>ops := ?n + 6\<rparr>\<rparr>)"
      using dirty pre suf by (simp add: commit_split)
    show "content (se_file ?e1) \<in> set (versions (?g\<lparr>ops := ?n + 6\<rparr>))" by (simp add: versions_def)
    show "write_all_at ?os (se_file ?e1) ?h ?off = (Inr (), (?g\<lparr>ops := ?n + 6\<rparr>)\<lparr>ops := ops (?g\<lparr>ops := ?n + 6\<rparr>) - 1\<rparr>)"
      using engine_write_Inr [OF w] by simp
  qed
qed

lemma crash_image_version: "v \<in> set (versions f) \<Longrightarrow> crash_image f v"
  by (auto simp: crash_image_def byte_at_def)

text \<open>After such a commit the new header is in the file, over a version without it.\<close>

lemma late_commit_file:
  assumes inv: "engine_inv D e" and dirty: "se_dirty e" and bin: "bincode_ok D" and tear: "commit_tear_safe D e"
    and enc: "idx_encode D (se_index e) = Inr p" and fits: "fits e p"
  obtains e1 f where "commit D (one_sync_fails (ops (se_file e) + 5)) e = (Inl (Io (OsError 5)), e1\<lparr>se_file := f\<rparr>)"
    and "index_flushed D e p e1" and "log_only e e1" and "content (se_file e1) \<in> set (versions f)"
    and "header_in_flight D e1 (next_header e p) f"
    and "slot_bytes (content f) (victim_slot (se_slots e)) = Header_encode (crc32 D) (next_header e p)"
proof -
  have core: "core_inv D e" using inv by (simp add: engine_inv_def)
  have pne: "p \<noteq> []" using idx_encode_InrD [OF bin enc] by blast
  have slot: "victim_slot (se_slots e) < 2" using core victim_slotD unfolding core_inv_def by metis
  let ?os = "one_sync_fails (ops (se_file e) + 5)"
  show thesis
  proof (rule late_commit [OF dirty enc pne fits slot])
    fix e1 f
    assume pre: "commit_prefix D ?os e = (Inr (se_end e, p), e1)"
      and c: "commit D ?os e = (Inl (Io (OsError 5)), e1\<lparr>se_file := f\<rparr>)"
      and v: "content (se_file e1) \<in> set (versions f)"
      and w: "write_all_at ?os (se_file e1) (Header_encode (crc32 D) \<lparr>generation = generation (se_header e1) + 1,
          master_ptr = se_end e, master_len = of_nat (length p), log_end = se_end e1\<rparr>)
          (slot_offset (victim_slot (se_slots e1))) = (Inr (), f\<lparr>ops := ops f - 1\<rparr>)"
    have fl: "index_flushed D e p e1" and lo: "log_only e e1" using commit_prefix_effect [OF inv bin pre] by auto
    note g = fl [unfolded index_flushed_def] and ih = index_flushed_header [OF core fl]
    have core1: "core_inv D e1" and vs: "versions (se_file e1) = [content (se_file e1)]"
      and hok: "header_ok D (se_file e1) (unat (se_end e1)) (next_header e p)" and sl: "se_slots e1 = se_slots e"
      using g by blast+
    have torn: "torn_ok D (slot_bytes (content (se_file e1)) (victim_slot (se_slots e1)))
        (Header_encode (crc32 D) (next_header e p))"
      using tear enc ih(4) [OF slot] sl by (simp add: commit_tear_safe_def)
    have "\<lparr>generation = generation (se_header e1) + 1, master_ptr = se_end e,
        master_len = of_nat (length p), log_end = se_end e1\<rparr> = next_header e p" using g by metis
    note w' = w [unfolded this]
    note hw = header_write_in_flight [OF core1 vs w' hok ih(1,3)]
    have "header_in_flight D e1 nxt (f\<lparr>ops := n\<rparr>) = header_in_flight D e1 nxt f" for nxt n
      by (simp add: header_in_flight_def header_landed_def heads_ok_def slot_in_flight_def stable_def cand_def header_ok_def sized_def versions_def)
    then have fh: "header_in_flight D e1 (next_header e p) f" using hw(2) [OF torn] by simp
    have "slot_bytes (content f) (victim_slot (se_slots e)) = Header_encode (crc32 D) (next_header e p)"
      using hw(3) [OF refl] sl by simp
    then show thesis using that [OF c fl lo v fh] by simp
  qed
qed

text \<open>A reopening finds that header and the index it points to.\<close>

lemma reopen_finds_header:
  assumes core1: "core_inv D e1" and fl: "index_flushed D e1 p e2" and st2: "settled D e2"
    and fh: "header_in_flight D e2 (next_header e1 p) f"
    and full: "slot_bytes (content f) (victim_slot (se_slots e1)) = Header_encode (crc32 D) (next_header e1 p)"
    and inv2: "engine_inv D (e2\<lparr>se_file := f\<rparr>)" and safe: "reopen_safe D f"
  obtains e3 where "engine_open D os_ok path (Some f) = (Inr e3, f)" and "engine_inv D e3" and "se_file e3 = f"
    and "se_index e3 = se_index e1" and "\<not> se_dirty e3"
proof -
  let ?nxt = "next_header e1 p"
  note ih = index_flushed_header [OF core1 fl] and fd = header_in_flightD [OF fh]
  have sn: "snap D (content (se_file e2)) ?nxt (se_index e1)" using fl [unfolded index_flushed_def] by blast
  obtain e3 where e3: "engine_open D os_ok path (Some f) = (Inr e3, f)" "engine_inv D e3" "se_file e3 = f"
    "se_live_slot e3 < 2" "cand D f (se_live_slot e3) (se_header e3)"
    "\<And>j h. j < 2 \<Longrightarrow> slot_header D (slot_bytes (content f) j) = Some h \<Longrightarrow> generation h \<le> generation (se_header e3)"
    "snap D (content f) (se_header e3) (se_index e3)" "\<not> se_dirty e3"
    using reopen_inv [OF inv2 _ os_ok_reads_ok, of path] safe by auto
  have "victim_slot (se_slots e1) < 2" using core1 victim_slotD unfolding core_inv_def by metis
  then have newest: "generation ?nxt \<le> generation (se_header e3)" using e3(6) full by simp
  have "se_header e3 = ?nxt"
  proof (rule ccontr)
    assume "se_header e3 \<noteq> ?nxt"
    then have "cand D (se_file e2) (se_live_slot e3) (se_header e3)" using fd(3) [OF e3(4,5)] by blast
    then have "generation (se_header e3) \<le> generation (se_header e2)"
      using st2 e3(4) stable_cand unfolding settled_def by blast
    then show False using newest ih(1) by simp
  qed
  moreover have "snap D (content f) ?nxt (se_index e1)"
  proof (rule snap_stable [OF sn fd(5)])
    show "unat (log_end ?nxt) \<le> length (content f)" using snap_bounds [OF sn] fd(4) by simp
  qed
  ultimately have "se_index e3 = se_index e1"
    using snap_unique e3(7) core_inv_bounds(3) [of D e3] e3(2,3) by (metis engine_inv_def)
  then show thesis using that e3(1-3,8) by blast
qed

text \<open>
  C16: even in a safe run reopening does not make what it shows durable: let a commit of a new document fail in its
  last sync only, the process end and a new one open the file. It reads the document, and its
  commit returns \<open>Ok\<close>, having nothing to write; a power loss after that may still bring back
  the database without the document.
\<close>

theorem reopened_state_may_vanish:
  assumes "safely_reachable D e" and "\<not> is_dirty e" and "settled D e" and "append D os e k d = (Inr i, e1)"
    and "bincode_ok D" and "commit_tear_safe D e1" and "idx_encode D (se_index e1) = Inr p"
    and "length p \<le> unat MAX_RECORD_LEN" and "unat (se_end e1) + 9 + length p \<le> max_off"
  shows "\<exists>os1 err e2 e3 img e4. commit D os1 e1 = (Inl err, e2) \<and>
    engine_open D os_ok path (Some (se_file e2)) = (Inr e3, se_file e2) \<and>
    read_record D os_ok e3 i = Inr \<lparr>rec_kind = k, payload = d\<rparr> \<and> commit D os_ok e3 = (Inr (), e3) \<and>
    crash_image (se_file e3) img \<and> engine_open D os_ok path (Some (disk_file img)) = (Inr e4, disk_file img) \<and>
    read_record D os_ok e4 i = Inl (NotFound i)"
proof -
  note inv = reach_inv [OF assms(1)] and r1 = reachable_put [OF assms(1,4)]
  note inv1 = reach_inv [OF r1] and rd = append_reads [OF assms(1,4) os_ok_reads_ok]
  have core: "core_inv D e" and core1: "core_inv D e1" using inv inv1 by (simp_all add: engine_inv_def)
  have com: "committed D e (se_index e)" using clean_committed [OF inv _ assms(3)] assms(2) by (simp add: is_dirty_def)
  have com1: "committed D e1 (se_index e)" and hd1: "se_header e1 = se_header e"
    using append_committed [OF core com assms(4)] by blast+
  have st1: "settled D e1" using com1 by (simp add: committed_def)
  have fits: "fits e1 p" using assms(8,9) by (simp add: fits_def)
  have "se_dirty e1" using docs_get_put(4) [OF assms(1,4)] by (simp add: is_dirty_def)
  then obtain e2 f where c: "commit D (one_sync_fails (ops (se_file e1) + 5)) e1 = (Inl (Io (OsError 5)), e2\<lparr>se_file := f\<rparr>)"
    and fl: "index_flushed D e1 p e2" and lo: "log_only e1 e2" and v: "content (se_file e2) \<in> set (versions f)"
    and fh: "header_in_flight D e2 (next_header e1 p) f"
    and full: "slot_bytes (content f) (victim_slot (se_slots e1)) = Header_encode (crc32 D) (next_header e1 p)"
    by (rule late_commit_file [OF inv1 _ assms(5-7) fits])
  have core2: "core_inv D e2" and sel: "se_index e2 = se_index e1" using fl [unfolded index_flushed_def] by blast+
  have com2: "committed D e2 (se_index e)"
    using committed_tail [OF core1 com1] lo unfolding log_only_def by blast
  then have st2: "settled D e2" by (simp add: committed_def)
  have inv2: "engine_inv D (e2\<lparr>se_file := f\<rparr>)" using commit_inv [OF inv1 assms(5) disjI2 [OF assms(6)] c] .
  have safe: "reopen_safe D f" using commit_failed_reopen_safe [OF inv1 st1 assms(5,6) c] by simp
  obtain e3 where e3: "engine_open D os_ok path (Some f) = (Inr e3, f)" "engine_inv D e3" "se_file e3 = f"
    and ix: "se_index e3 = se_index e1" and clean: "\<not> se_dirty e3"
    by (rule reopen_finds_header [OF core1 fl st2 fh full inv2 safe, of path])
  have "engine_docs D e3 = engine_docs D (e2\<lparr>se_file := f\<rparr>)" using ix sel e3(3) by (simp add: engine_docs_def)
  also have "\<dots> = engine_docs D e1" by (rule commit_docs [OF r1 assms(5) disjI2 [OF assms(6)] c])
  finally have reads: "read_record D os_ok e3 i = Inr \<lparr>rec_kind = k, payload = d\<rparr>"
    using inv_read [OF e3(2) os_ok_reads_ok] inv_read [OF inv1 os_ok_reads_ok] rd(2) [of i] by simp
  let ?img = "content (se_file e2)"
  obtain e4 where e4: "engine_open D os_ok path (Some (disk_file ?img)) = (Inr e4, disk_file ?img)" "se_index e4 = se_index e"
    by (rule recover_committed [OF core2 com2 crash_image_content os_ok_reads_ok, of path]) blast
  have "i |\<notin>| fmdom (offsets (se_index e)) \<and> i |\<notin>| dead (se_index e)"
    using next_id_not_stored [OF reachable_wf [OF assms(1)] order_refl] docs_get_put(1) [OF assms(1,4)] by simp
  then have "read_record D os_ok e4 i = Inl (NotFound i)"
    using e4(2) by (simp add: read_record_def fmdom_notD)
  moreover have "commit D os_ok e3 = (Inr (), e3)" using clean by (simp add: commit_def)
  moreover have "crash_image (se_file e3) ?img" using v e3(3) by (simp add: crash_image_version)
  moreover have "engine_open D os_ok path (Some (se_file (e2\<lparr>se_file := f\<rparr>))) = (Inr e3, se_file (e2\<lparr>se_file := f\<rparr>))"
    using e3(1) by simp
  ultimately show ?thesis using c reads e4(1) by blast
qed

theorem reopened_state_may_vanish_witness:
  "\<exists>os1 err e2 e3 img e4. commit sample_D os1 sample_put = (Inl err, e2) \<and>
    engine_open sample_D os_ok ''sample.cndb'' (Some (se_file e2)) = (Inr e3, se_file e2) \<and>
    read_record sample_D os_ok e3 (DocId 1) = Inr \<lparr>rec_kind = Blob, payload = sample_doc\<rparr> \<and>
    commit sample_D os_ok e3 = (Inr (), e3) \<and> crash_image (se_file e3) img \<and>
    engine_open sample_D os_ok ''sample.cndb'' (Some (disk_file img)) = (Inr e4, disk_file img) \<and>
    read_record sample_D os_ok e4 (DocId 1) = Inl (NotFound (DocId 1))"
proof -
  obtain p where p: "idx_encode sample_D (se_index sample_put) = Inr p" "length p = 40" using sample_put_encode by blast
  show ?thesis
    by (rule reopened_state_may_vanish [OF sample_reachable(1) _ sample_new_settled sample_put_eq sample_D_ok(1)
        sample_put_tear p(1)]) (simp_all add: p(2) is_dirty_def sample_new_sel sample_put_sel max_off_def)
qed

end
