(* ===== verification/Safe_Restarts.thy ===== *)
theory Safe_Restarts
  imports Reopening
begin

text \<open>
  A rule under which restarts are safe, in terms of what a client sees: a process may end and
  a new one open the file as long as no more than one commit has failed since the last power
  loss or the last commit that wrote something and returned \<open>Ok\<close>. Nothing is asked of the file.
\<close>

section \<open>The rule\<close>

text \<open>
  \<open>calm d k evs\<close>: the rule for a run that starts with something to commit when \<open>d\<close> and after \<open>k\<close>
  failed commits.
\<close>

fun calm :: "bool \<Rightarrow> nat \<Rightarrow> event list \<Rightarrow> bool" where
  "calm d k [] \<longleftrightarrow> True"
| "calm d k (EPut _ _ r # evs) \<longleftrightarrow> calm (d \<or> \<not> isl r) k evs"
| "calm d k (EDel _ r # evs) \<longleftrightarrow> calm (d \<or> \<not> isl r) k evs"
| "calm d k (EGet _ _ # evs) \<longleftrightarrow> calm d k evs"
| "calm d k (ECommit (Inr _) # evs) \<longleftrightarrow> calm False (if d then 0 else k) evs"
| "calm d k (ECommit (Inl _) # evs) \<longleftrightarrow> calm d (Suc k) evs"
| "calm d k (EReopen # evs) \<longleftrightarrow> k \<le> 1 \<and> calm False k evs"
| "calm d k (ECrash # evs) \<longleftrightarrow> calm False 0 evs"

definition calm_state :: "deps \<Rightarrow> StorageEngine \<Rightarrow> bool \<Rightarrow> nat \<Rightarrow> bool" where
  "calm_state D e d k \<longleftrightarrow> engine_inv D e \<and> (se_dirty e \<longleftrightarrow> d) \<and> (k = 0 \<longrightarrow> settled D e) \<and>
     (k \<le> 1 \<longrightarrow> reopen_safe D (se_file e))"

section \<open>Every step keeps to it\<close>

lemma settled_reopen_safe: "settled D e \<Longrightarrow> reopen_safe D (se_file e)"
  by (rule stable_reopen_safe) (simp add: settled_def)

lemma reopen_safe_tail:
  assumes "reopen_safe D f" and t: "tail_write n f g" and n: "128 \<le> n"
  shows "reopen_safe D g"
  unfolding reopen_safe_def
proof (intro allI impI)
  fix i k assume "i < 2" "cand D g i k"
  then obtain j h where "j < 2" "slot_header D (slot_bytes (content f) j) = Some h" "log_end k \<le> log_end h"
    using assms(1) cand_tail [OF t n] unfolding reopen_safe_def by meson
  then show "\<exists>j<2. \<exists>h. slot_header D (slot_bytes (content g) j) = Some h \<and> log_end k \<le> log_end h"
    using tail_write_slots(1) [OF t n] by metis
qed

lemma calm_tail:
  assumes "calm_state D e d k" and "engine_inv D e'"
    and t: "tail_write (unat (se_end e)) (se_file e) (se_file e')" and "se_header e' = se_header e"
    and "se_dirty e' \<longleftrightarrow> d'"
  shows "calm_state D e' d' k"
proof -
  have "128 \<le> unat (se_end e)"
    using assms(1) core_inv_bounds(1) [of D e] by (simp add: calm_state_def engine_inv_def)
  then show ?thesis
    using assms settled_tail [OF _ t _ assms(4)] reopen_safe_tail [OF _ t] by (auto simp: calm_state_def)
qed

lemma calm_reopened:
  assumes "calm_state D e d k" and "k \<le> 1" and "engine_open D os path (Some (se_file e)) = (Inr e', f)"
  shows "calm_state D e' False k"
proof -
  have inv: "engine_inv D e" and safe: "reopen_safe D (se_file e)" using assms(1,2) by (simp_all add: calm_state_def)
  obtain e2 where "engine_open D os_ok path (Some (se_file e)) = (Inr e2, se_file e)" "engine_inv D e2"
    "se_file e2 = se_file e" "\<not> se_dirty e2"
    "\<And>i h. i < 2 \<Longrightarrow> slot_header D (slot_bytes (content (se_file e)) i) = Some h \<Longrightarrow>
      generation h \<le> generation (se_header e2)"
    by (rule reopen_inv [OF inv safe os_ok_reads_ok, of path]) blast
  moreover from this(1) have "e2 = e'" using reopen_reads [OF inv assms(3)] by simp
  ultimately show ?thesis using assms(1) safe by (simp add: calm_state_def settled_def)
qed

lemma calm_committed:
  assumes "calm_state D e d k" and "bincode_ok D" and "tears_detected D e (ECommit r)" and "commit D os e = (r, e')"
  shows "calm_state D e' (d \<and> isl r) (if isl r then Suc k else if d then 0 else k)"
proof -
  have inv: "engine_inv D e" and d: "se_dirty e \<longleftrightarrow> d" using assms(1) by (simp_all add: calm_state_def)
  have inv': "engine_inv D e'" by (rule commit_inv [OF inv assms(2) assms(3) [unfolded commit_guard] assms(4)])
  show ?thesis
  proof (cases r)
    case (Inl err)
    have tear: "commit_tear_safe D e" and c: "commit D os e = (Inl err, e')"
      using assms(3,4) Inl by (simp_all add: commit_guard)
    have "se_dirty e" using c by (cases "se_dirty e") (simp_all add: commit_def)
    then show ?thesis
      using inv' d Inl commit_InlD [OF inv assms(2) tear c] commit_failed_reopen_safe [OF inv _ assms(2) tear c] assms(1)
      by (simp add: calm_state_def)
  next
    case (Inr u)
    then show ?thesis
      using inv' d assms(1) commit_Inr_cases [OF inv assms(2), of os u e'] assms(4) settled_reopen_safe
      by (cases d) (auto simp: calm_state_def)
  qed
qed

lemma calm_step:
  assumes "engine_event tears_detected D e ev e'" and cs: "calm_state D e d k" and "calm d k (ev # evs)"
  shows "safe_event D e ev e' \<and> (\<exists>d' k'. calm_state D e' d' k' \<and> calm d' k' evs)"
  using assms(1)
proof (cases rule: engine_event.cases)
  case (ev_put os knd p r)
  have inv: "engine_inv D e" and core: "core_inv D e" and d: "se_dirty e \<longleftrightarrow> d"
    using cs by (simp_all add: calm_state_def engine_inv_def)
  have "calm_state D e' (d \<or> \<not> isl r) k"
    using append_tail [OF core ev_put(2)] append_inv [OF inv ev_put(2)] d by (intro calm_tail [OF cs]) auto
  then show ?thesis using assms(3) ev_put engine_event.ev_put by auto
next
  case (ev_del os i r)
  have inv: "engine_inv D e" and core: "core_inv D e" and d: "se_dirty e \<longleftrightarrow> d"
    using cs by (simp_all add: calm_state_def engine_inv_def)
  have "calm_state D e' (d \<or> \<not> isl r) k"
    using tombstone_tail [OF core ev_del(2)] tombstone_inv [OF inv ev_del(2)] d by (intro calm_tail [OF cs]) auto
  then show ?thesis using assms(3) ev_del engine_event.ev_del by auto
next
  case (ev_get os i)
  have "safe_event D e ev e'" unfolding ev_get by (rule engine_event.ev_get)
  then show ?thesis using assms(3) cs ev_get by auto
next
  case (ev_commit s r os)
  have "calm_state (D\<lparr>bin_ser := s\<rparr>) e d k" using cs by (simp add: calm_state_def reopen_safe_def)
  note c = calm_committed [OF this ev_commit(2-4)]
  have "safe_event D e ev e'"
    using ev_commit engine_event.ev_commit [where D = D and s = s and G = safe_step] by (simp add: safe_step_def)
  moreover have "calm_state D e' (d \<and> isl r) (if isl r then Suc k else if d then 0 else k)"
    using c by (simp add: calm_state_def reopen_safe_def)
  ultimately show ?thesis using assms(3) ev_commit(1) by (cases r) auto
next
  case (ev_reopen os path f)
  have "k \<le> 1" "calm False k evs" using assms(3) ev_reopen(1) by simp_all
  moreover from this(1) have "safe_event D e ev e'"
    using ev_reopen engine_event.ev_reopen [where G = safe_step and D = D and e = e] cs
    by (simp add: safe_reopen_guard calm_state_def)
  ultimately show ?thesis using calm_reopened [OF cs _ ev_reopen(3)] by blast
next
  case (ev_crash img os path f)
  have inv: "engine_inv D e" using cs by (simp add: calm_state_def)
  then have "disk_ok D (se_file e) (unat (se_end e))" by (simp add: engine_inv_def core_inv_def)
  then obtain e2 where "engine_open D os_ok path (Some (disk_file img)) = (Inr e2, disk_file img)" "engine_inv D e2"
    "settled D e2" "\<not> se_dirty e2" by (rule recover_disk_ok [OF _ ev_crash(2) os_ok_reads_ok])
  then have "calm_state D e' False 0"
    using crash_reads [OF inv ev_crash(2,3)] settled_reopen_safe by (simp add: calm_state_def)
  then show ?thesis using assms(3) ev_crash engine_event.ev_crash by auto
qed

lemma calm_run:
  "trace (engine_event tears_detected D) e evs e' \<Longrightarrow> calm_state D e d k \<Longrightarrow> calm d k evs \<Longrightarrow>
   trace (safe_event D) e evs e'"
proof (induction arbitrary: d k rule: trace.induct)
  case (trace_cons s ev t evs u)
  then show ?case using calm_step trace.trace_cons by metis
qed (rule trace.trace_nil)

lemma calm_init: "engine_init D e \<Longrightarrow> calm_state D e False 0"
proof -
  assume "engine_init D e"
  then obtain path where "e = fresh D path" unfolding engine_init_def using open_new_Inr by blast
  then show ?thesis
    using fresh_inv [of D path] fresh_settled [of D path] settled_reopen_safe
    by (simp add: calm_state_def) (simp add: fresh_def)
qed

section \<open>Property\<close>

text \<open>
  C14: a run that restarts only while at most one commit failed since the last power loss or
  the last commit that wrote something is a run of the transactional store, and its database is
  consistent, provided that every header torn by one of its failing commits fails its checksum.
  Nothing is asked of the file: the rule speaks of the results that the client has seen.
\<close>

theorem calm_runs_refine_store:
  assumes "engine_init D e0" and "trace (engine_event tears_detected D) e0 evs e" and "calm False 0 evs"
    and "reads_ok os"
  shows "(\<exists>s. trace store_event new_store evs s \<and> cur s = engine_docs D e) \<and> consistent D os e"
proof -
  have t: "trace (safe_event D) e0 evs e" by (rule calm_run [OF assms(2) calm_init [OF assms(1)] assms(3)])
  then show ?thesis
    using engine_store.implements [OF assms(1)] engine_inv_consistent [OF engine_run.reachable_inv [OF assms(1)] assms(4)]
    by (fastforce simp: store_rel_def)
qed

lemma failing_commit_event:
  "\<exists>e. engine_event tears_detected sample_D sample_put (ECommit (Inl (Io (OsError 5)))) e \<and>
     reopen_safe sample_D (se_file e) \<and> engine_inv sample_D e"
proof -
  obtain e where e: "commit sample_D failing_sync sample_put = (Inl (Io (OsError 5)), e)" using failing_commit by blast
  have "settled sample_D sample_put"
    using uncommitted_committed [OF trace_one [OF sample_put_event] sample_new_inv _ clean_committed [OF sample_new_inv _ sample_new_settled]]
    by (simp add: sample_new_sel committed_def)
  then have "reopen_safe sample_D (se_file e)"
    by (rule commit_failed_reopen_safe [OF sample_put_inv _ sample_D_ok(1) sample_put_tear e])
  moreover have "engine_event tears_detected sample_D sample_put (ECommit (Inl (Io (OsError 5)))) e"
    using ev_commit [where D = sample_D and s = "bin_ser sample_D" and G = tears_detected] e sample_put_tear
    by (simp add: commit_guard)
  ultimately show ?thesis using commit_inv [OF sample_put_inv sample_D_ok(1) disjI2 [OF sample_put_tear] e] by blast
qed

theorem calm_runs_refine_store_witness:
  "\<exists>e evs. evs = [EPut Blob sample_doc (Inr (DocId 1)), ECommit (Inl (Io (OsError 5))), EReopen] \<and>
     trace (engine_event tears_detected sample_D) sample_new evs e \<and>
     (\<exists>s. trace store_event new_store evs s \<and> cur s = engine_docs sample_D e) \<and> consistent sample_D os_ok e"
proof -
  obtain e1 where e1: "engine_event tears_detected sample_D sample_put (ECommit (Inl (Io (OsError 5)))) e1"
    "reopen_safe sample_D (se_file e1)" "engine_inv sample_D e1" using failing_commit_event by blast
  obtain e2 where "engine_open sample_D os_ok ''sample.cndb'' (Some (se_file e1)) = (Inr e2, se_file e1)"
    by (rule reopen_inv [OF e1(3,2) os_ok_reads_ok, of "''sample.cndb''"])
  then have "engine_event tears_detected sample_D e1 EReopen e2"
    by (intro ev_reopen) (simp_all add: tears_detected_def)
  then have t: "trace (engine_event tears_detected sample_D) sample_new
      [EPut Blob sample_doc (Inr (DocId 1)), ECommit (Inl (Io (OsError 5))), EReopen] e2"
    using ev_put [OF sample_put_eq] e1(1) by (blast intro: trace_cons trace_nil)
  show ?thesis using calm_runs_refine_store [OF sample_new_init t _ os_ok_reads_ok] t by auto
qed

end
