(* ===== verification/Unsafe_Restart.thy ===== *)
theory Unsafe_Restart
  imports Reopening Integrity
begin

text \<open>
  Why runs must restart safely: a file on which a header write was torn over the header of an
  earlier commit that failed. \<open>open\<close> finds the torn header invalid and goes back to the commit
  before both, appending where its log ends; but the earlier header is still on the disk, and
  after a power loss it comes back over a log that has been overwritten.
\<close>

section \<open>A commit whose header write is torn\<close>

definition one_write_tears :: "nat \<Rightarrow> nat \<Rightarrow> os" where
  "one_write_tears n m = os_ok\<lparr>wr_fault := \<lambda>k. if k = n then Some (m, OsError 5) else None\<rparr>"

lemma one_write_tears_sync:
  "engine_sync (one_write_tears n m) e =
     (Inr (), e\<lparr>se_file := (se_file e)\<lparr>older := [], ops := Suc (ops (se_file e))\<rparr>\<rparr>)"
  by (simp add: engine_sync_def on_file_def sync_file_def one_write_tears_def os_ok_def)

lemma one_write_tears_write:
  assumes "buf \<noteq> []" and "unat off + length buf \<le> max_off" and "ops (se_file e) \<noteq> n"
  shows "engine_write (one_write_tears n m) e buf off = (Inr (), e\<lparr>se_file :=
     \<lparr>content = pwrite (content (se_file e)) (unat off) buf, older = versions (se_file e),
      ops = Suc (ops (se_file e))\<rparr>\<rparr>)"
  using assms
  by (simp add: engine_write_def on_file_def write_all_at_def one_write_tears_def os_ok_def versions_def Let_def)

lemma one_write_tears_torn:
  assumes "buf \<noteq> []" and "unat off + length buf \<le> max_off" and "ops (se_file e) = n" and "m \<le> length buf"
  shows "engine_write (one_write_tears n m) e buf off = (Inl (Io (OsError 5)), e\<lparr>se_file :=
     \<lparr>content = pwrite (content (se_file e)) (unat off) (take m buf), older = versions (se_file e),
      ops = Suc (ops (se_file e))\<rparr>\<rparr>)"
  using assms
  by (simp add: engine_write_def on_file_def write_all_at_def one_write_tears_def os_ok_def versions_def Let_def min_def)

lemma torn_commit:
  assumes dirty: "se_dirty e" and enc: "idx_encode D (se_index e) = Inr p" "p \<noteq> []" and fits: "fits e p"
    and slot: "victim_slot (se_slots e) < 2" and m: "m \<le> 64"
  obtains e1 f where "commit_prefix D (one_write_tears (ops (se_file e) + 4) m) e = (Inr (se_end e, p), e1)"
    and "commit D (one_write_tears (ops (se_file e) + 4) m) e = (Inl (Io (OsError 5)), e1\<lparr>se_file := f\<rparr>)"
    and "content f = pwrite (content (se_file e1)) (64 * victim_slot (se_slots e)) (take m (Header_encode (crc32 D)
      \<lparr>generation = generation (se_header e) + 1, master_ptr = se_end e, master_len = of_nat (length p),
       log_end = se_end e1\<rparr>))"
    and "versions f = [content f, content (se_file e1)]"
proof -
  let ?n = "ops (se_file e)"
  let ?os = "one_write_tears (?n + 4) m"
  let ?f1 = "(se_file e)\<lparr>older := [], ops := Suc ?n\<rparr>"
  have room: "length p \<le> unat MAX_RECORD_LEN" "unat (se_end e) + 9 + length p \<le> max_off"
    using fits by (simp_all add: fits_def)
  have o9: "unat (se_end e + RECORD_HEADER_SIZE) = unat (se_end e) + 9" using room by (simp add: word_nat max_off_def)
  let ?fr = "encode_frame (crc32 D) MasterIndexKind p"
  have fr: "?fr \<noteq> []" using length_encode_frame [of "crc32 D" MasterIndexKind p] by (metis list.size(3) zero_neq_numeral)
  let ?f2 = "\<lparr>content = pwrite (content (se_file e)) (unat (se_end e)) ?fr, older = versions ?f1, ops = Suc (Suc ?n)\<rparr>"
  let ?f3 = "\<lparr>content = pwrite (content ?f2) (unat (se_end e) + 9) p, older = versions ?f2, ops = Suc (Suc (Suc ?n))\<rparr>"
  let ?e1 = "e\<lparr>se_file := ?f3\<lparr>older := [], ops := Suc (Suc (Suc (Suc ?n)))\<rparr>,
    se_end := se_end e + RECORD_HEADER_SIZE + of_nat (length p), se_dirty := True\<rparr>"
  have pre: "commit_prefix D ?os e = (Inr (se_end e, p), ?e1)"
    using enc fr room o9
    by (simp add: commit_prefix_def append_raw_def one_write_tears_sync one_write_tears_write Let_def)
  let ?h = "Header_encode (crc32 D) \<lparr>generation = generation (se_header ?e1) + 1, master_ptr = se_end e,
    master_len = of_nat (length p), log_end = se_end ?e1\<rparr>"
  let ?g = "\<lparr>content = pwrite (content (se_file ?e1)) (unat (slot_offset (victim_slot (se_slots ?e1)))) (take m ?h),
    older = versions (se_file ?e1), ops = Suc (?n + 4)\<rparr>"
  have off: "unat (slot_offset (victim_slot (se_slots ?e1))) + 64 \<le> max_off"
    using unat_slot_offset [OF slot] slot by (simp add: max_off_def)
  have h: "?h \<noteq> []" using length_Header_encode by (metis list.size(3) zero_neq_numeral)
  have "engine_write ?os ?e1 ?h (slot_offset (victim_slot (se_slots ?e1))) = (Inl (Io (OsError 5)), ?e1\<lparr>se_file := ?g\<rparr>)"
    using one_write_tears_torn [OF h, of "slot_offset (victim_slot (se_slots ?e1))" ?e1 "?n + 4" m] off m by simp
  then have "commit_suffix D ?os (se_end e) p ?e1 = (Inl (Io (OsError 5)), ?e1\<lparr>se_file := ?g\<rparr>)"
    unfolding commit_suffix_def Let_def by simp
  then have "commit D ?os e = (Inl (Io (OsError 5)), ?e1\<lparr>se_file := ?g\<rparr>)" using dirty pre by (simp add: commit_split)
  moreover have "unat (slot_offset (victim_slot (se_slots e))) = 64 * victim_slot (se_slots e)"
    using unat_slot_offset [OF slot] by simp
  ultimately show thesis using pre by (intro that [of ?e1 ?g]) (simp_all add: versions_def)
qed

section \<open>What the torn file comes back as\<close>

text \<open>
  The header of a first commit, and that of a second one; the payload of the document that the
  first commit was to store.
\<close>

definition first_header :: Header where
  "first_header = \<lparr>generation = 1, master_ptr = 146, master_len = 40, log_end = 195\<rparr>"

definition second_header :: Header where
  "second_header = \<lparr>generation = 1, master_ptr = 304, master_len = 56, log_end = 369\<rparr>"

definition doomed :: bytes where
  "doomed = replicate 9 0xFF"

text \<open>The second header written over the first one, cut after 28 bytes.\<close>

definition torn_slot :: "(bytes \<Rightarrow> u32) \<Rightarrow> bytes" where
  "torn_slot crc = take 28 (Header_encode crc second_header) @ drop 28 (Header_encode crc first_header)"

text \<open>A checksum that tells torn headers apart tells this one.\<close>

lemma torn_slot_header:
  assumes "torn_ok D (Header_encode (crc32 D) first_header) (Header_encode (crc32 D) second_header)"
  shows "slot_header D (torn_slot (crc32 D)) = None"
proof (rule ccontr)
  let ?a = "Header_encode (crc32 D) first_header" and ?b = "Header_encode (crc32 D) second_header"
  let ?t = "torn_slot (crc32 D)"
  assume "slot_header D ?t \<noteq> None"
  then obtain h where h: "slot_header D ?t = Some h" by blast
  have "mix ?a ?b ?t" by (auto simp: mix_def torn_slot_def nth_append)
  then have "h = first_header \<or> ?t = ?b" using assms h by (auto simp: torn_ok_def)
  moreover have "h \<noteq> first_header"
  proof
    assume "h = first_header"
    then have "(le_word (bslice ?t 16 24) :: u64) = 146"
      using h by (auto simp: slot_header_def Header_decode_def Let_def first_header_def split: if_splits)
    moreover have "bslice ?t 16 24 = bslice ?b 16 24" by (simp add: torn_slot_def bslice_def drop_take)
    ultimately show False by (simp add: Header_encode_image slot_image_fields second_header_def)
  qed
  moreover have "?t \<noteq> ?b"
  proof
    assume "?t = ?b"
    moreover have "bslice ?t 32 40 = bslice ?a 32 40" by (simp add: torn_slot_def bslice_def)
    ultimately have "(le_word (bslice ?b 32 40) :: u64) = le_word (bslice ?a 32 40)" by simp
    then show False by (simp add: Header_encode_image slot_image_fields first_header_def second_header_def)
  qed
  ultimately show False by blast
qed

lemma doomed_frame: "decode_frame doomed off = Inl (RecordTooLarge off 0xFFFFFFFF MAX_RECORD_LEN)"
proof -
  have "bslice doomed 0 4 = [0xFF, 0xFF, 0xFF, 0xFF]" by (simp add: doomed_def bslice_def numeral_eq_Suc)
  moreover have "(le_word [0xFF, 0xFF, 0xFF, 0xFF] :: u32) = 0xFFFFFFFF" by code_simp
  ultimately show ?thesis by (simp add: decode_frame_def MAX_RECORD_LEN_eq)
qed

lemma pwrite_slot_1:
  assumes "128 \<le> length bs" and "length b = 28"
  shows "slot_bytes (pwrite bs 64 b) 0 = slot_bytes bs 0" and "slot_bytes (pwrite bs 64 b) 1 = b @ drop 28 (slot_bytes bs 1)"
    and "length (pwrite bs 64 b) = length bs" and "128 \<le> i \<Longrightarrow> drop i (pwrite bs 64 b) = drop i bs"
proof -
  have b: "b \<noteq> []" using assms(2) by auto
  have p: "pwrite bs 64 b = take 64 bs @ b @ drop 92 bs" using assms b by (simp add: pwrite_def)
  show "slot_bytes (pwrite bs 64 b) 0 = slot_bytes bs 0" using assms by (simp add: p slot_bytes_def bslice_def)
  show "slot_bytes (pwrite bs 64 b) 1 = b @ drop 28 (slot_bytes bs 1)"
    using assms by (simp add: p slot_bytes_def bslice_def drop_take)
  show "length (pwrite bs 64 b) = length bs" using assms by (simp add: p)
  show "128 \<le> i \<Longrightarrow> drop i (pwrite bs 64 b) = drop i bs" using assms by (simp add: p)
qed

text \<open>
  The file as the two failed commits leave it, the first document and the first index of the
  log still in place: opened without a power loss it shows the empty database, and a document
  appended to that goes over the first record of the log.
\<close>

definition torn_file :: "deps \<Rightarrow> bytes \<Rightarrow> dbfile \<Rightarrow> bool" where
  "torn_file D bs f \<longleftrightarrow> length bs \<le> max_off \<and> rec_in D bs 195 128 \<lparr>rec_kind = Blob, payload = doomed\<rparr> \<and>
     (\<exists>p idx. rec_in D bs 195 146 \<lparr>rec_kind = MasterIndexKind, payload = p\<rparr> \<and> idx_decode D p = Inr idx) \<and>
     slot_header D (slot_bytes bs 0) = Some Header_initial \<and>
     slot_bytes bs 1 = Header_encode (crc32 D) first_header \<and>
     content f = pwrite bs 64 (take 28 (Header_encode (crc32 D) second_header)) \<and>
     versions f = [content f, bs]"

lemma torn_file_opens:
  assumes t: "torn_file D bs f" and torn: "slot_header D (torn_slot (crc32 D)) = None"
  shows "engine_open D os_ok path (Some f) = (Inr (loaded D path f Header_initial 0 MasterIndex_default), f)"
proof -
  note tf = t [unfolded torn_file_def]
  have len: "128 \<le> length bs" using tf by (simp add: rec_in_def)
  note w = pwrite_slot_1 [OF len, of "take 28 (Header_encode (crc32 D) second_header)"]
  have c: "content f = pwrite bs 64 (take 28 (Header_encode (crc32 D) second_header))" using tf by blast
  have 0: "slot_header D (slot_bytes (content f) 0) = Some Header_initial" using tf w(1) by (simp add: c)
  have "slot_bytes (content f) 1 = torn_slot (crc32 D)" using tf w(2) by (simp add: c torn_slot_def)
  then have 1: "slot_header D (slot_bytes (content f) 1) = None" using torn by simp
  have l: "128 \<le> length (content f)" "length (content f) \<le> max_off" using tf w(3) len by (simp_all add: c)
  have "load D os_ok path f (of_nat (length (content f))) = Inr (loaded D path f Header_initial 0 MasterIndex_default)"
    by (rule load_loaded [OF l os_ok_reads_ok])
      (use 0 1 l(1) in \<open>simp_all add: Header_initial_def load_index_def LOG_START_eq\<close>)
  moreover have "0 < length (content f)" using l(1) by linarith
  ultimately show ?thesis using engine_open_existing [OF _ l(2) os_ok_reads_ok] by simp
qed

text \<open>The empty document goes to the start of the log.\<close>

lemma torn_file_append:
  assumes t: "torn_file D bs f"
  obtains e where "append D os_ok (loaded D path f Header_initial 0 MasterIndex_default) Blob [] = (Inr (DocId 1), e)"
    and "versions (se_file e) = [pwrite (content f) 128 (encode_frame (crc32 D) Blob []), content f, bs]"
proof -
  let ?e = "loaded D path f Header_initial 0 MasterIndex_default" and ?fr = "encode_frame (crc32 D) Blob []"
  note tf = t [unfolded torn_file_def]
  have "engine_write os_ok ?e ?fr 128 = (Inr (), ?e\<lparr>se_file := \<lparr>content = pwrite (content f) 128 ?fr,
      older = versions f, ops = Suc (ops f)\<rparr>\<rparr>)"
    by (simp add: engine_write_def on_file_def write_all_at_def os_ok_def loaded_def versions_def max_off_def Let_def)
  moreover have "engine_write os_ok e [] off = (Inr (), e)" for e off
    by (simp add: engine_write_def on_file_def write_all_at_def)
  ultimately obtain e where "append D os_ok ?e Blob [] = (Inr (DocId 1), e)"
    and "se_file e = \<lparr>content = pwrite (content f) 128 ?fr, older = versions f, ops = Suc (ops f)\<rparr>"
    by (simp add: append_def append_raw_def allocate_id_def loaded_def Header_initial_def LOG_START_eq
        MasterIndex_default_def Let_def)
  then show thesis using that tf by (simp add: versions_def)
qed

text \<open>A power loss may undo the torn header write and keep the document.\<close>

lemma undone_header_image:
  assumes v: "versions g = [pwrite (pwrite bs 64 b) 128 fr, pwrite bs 64 b, bs]"
    and len: "128 + length fr \<le> length bs" "fr \<noteq> []" "length b = 28"
  shows "crash_image g (pwrite bs 128 fr)"
proof -
  have l: "length (pwrite bs 64 b) = length bs" using len by (intro pwrite_slot_1(3)) simp_all
  have l2: "length (pwrite bs 128 fr) = length bs" "length (pwrite (pwrite bs 64 b) 128 fr) = length bs"
    using len l by (simp_all add: length_pwrite)
  have "\<exists>v\<in>set (versions g). pwrite bs 128 fr ! i = byte_at v i" if i: "i < length bs" for i
  proof (cases "128 \<le> i \<and> i < 128 + length fr")
    case True
    then have "pwrite bs 128 fr ! i = pwrite (pwrite bs 64 b) 128 fr ! i" using i l2 by (simp add: nth_pwrite)
    then show ?thesis using v i l2 by (simp add: byte_at_def)
  next
    case False
    then have "pwrite bs 128 fr ! i = bs ! i" using i l2 by (auto simp: nth_pwrite)
    then show ?thesis using v i by (simp add: byte_at_def)
  qed
  then show ?thesis using v l l2 by (auto simp: crash_image_def)
qed

text \<open>
  The file then opens on the header of the first commit, whose log now begins with the empty
  document; what follows it is the payload of the document it replaced.
\<close>

definition revived_file :: "deps \<Rightarrow> bytes \<Rightarrow> bytes" where
  "revived_file D bs = pwrite bs 128 (encode_frame (crc32 D) Blob [])"

lemma revived_bslice: "137 \<le> a \<Longrightarrow> b \<le> length bs \<Longrightarrow> bslice (revived_file D bs) a b = bslice bs a b"
  unfolding revived_file_def by (rule bslice_pwrite_after) simp_all

lemma revived_file_opens:
  assumes t: "torn_file D bs f"
  obtains idx where "engine_open D os_ok path (Some (disk_file (revived_file D bs))) =
    (Inr (loaded D path (disk_file (revived_file D bs)) first_header 1 idx), disk_file (revived_file D bs))"
proof -
  let ?img = "revived_file D bs"
  note tf = t [unfolded torn_file_def]
  obtain p idx where p: "rec_in D bs 195 146 \<lparr>rec_kind = MasterIndexKind, payload = p\<rparr>" "idx_decode D p = Inr idx"
    using tf by blast
  have len: "195 \<le> length bs" "length ?img = length bs" using p(1)
    by (simp_all add: revived_file_def length_pwrite rec_in_def)
  have s: "slot_bytes ?img i = slot_bytes bs i" if "i < 2" for i
    using that len(1) unfolding revived_file_def slot_bytes_def
    by (intro bslice_pwrite_before) (auto simp: less_2_cases_iff)
  have "bslice ?img 146 (155 + length p) = bslice bs 146 (155 + length p)"
    using p(1) len by (intro revived_bslice) (simp_all add: rec_in_def)
  then have "rec_in D ?img 195 146 \<lparr>rec_kind = MasterIndexKind, payload = p\<rparr>"
    using p(1) len by (simp add: rec_in_def)
  moreover have "length ?img \<le> max_off" using tf len by simp
  ultimately have "read_record_at D os_ok (disk_file ?img) 146 = Inr \<lparr>rec_kind = MasterIndexKind, payload = p\<rparr>"
    using read_record_rec_in [of D "disk_file ?img" 195 146, OF _ _ os_ok_reads_ok] by simp
  then have ix: "load_index D os_ok (disk_file ?img) first_header = Inr idx"
    using p(2) by (simp add: load_index_def first_header_def)
  have "load D os_ok path (disk_file ?img) (of_nat (length (content (disk_file ?img)))) =
      Inr (loaded D path (disk_file ?img) first_header 1 idx)"
    by (rule load_loaded [OF _ _ os_ok_reads_ok])
      (use tf s [of 0] s [of 1] ix len in \<open>simp_all add: Header_initial_def first_header_def\<close>)
  moreover have "0 < length (content (disk_file ?img))" "length (content (disk_file ?img)) \<le> max_off"
    using tf len by (simp_all del: length_greater_0_conv)
  ultimately show thesis
    using that engine_open_existing [OF _ _ os_ok_reads_ok, of "disk_file ?img" D path] by metis
qed

lemma revived_file_corrupt:
  assumes t: "torn_file D bs f"
  shows "verify D os_ok (loaded D path (disk_file (revived_file D bs)) first_header 1 idx) =
    Inl (RecordTooLarge 137 0xFFFFFFFF MAX_RECORD_LEN)"
proof -
  let ?img = "revived_file D bs" and ?r = "\<lparr>rec_kind = Blob, payload = []\<rparr>"
  note tf = t [unfolded torn_file_def]
  have doomed: "rec_in D bs 195 128 \<lparr>rec_kind = Blob, payload = doomed\<rparr>" using tf by blast
  have len: "195 \<le> length bs" "length ?img = length bs" using doomed
    by (simp_all add: revived_file_def length_pwrite rec_in_def)
  have mx: "length (content (disk_file ?img)) \<le> max_off" using tf len by simp
  have "bslice ?img 128 137 = encode_frame (crc32 D) Blob []"
    unfolding revived_file_def by (rule bslice_pwrite_same) simp_all
  then have r: "rec_in D (content (disk_file ?img)) 137 (unat (128 :: u64)) ?r"
    using len by (simp add: rec_in_def record_ok_def record_image_def)
  note rd = read_frame_rec_in [OF r mx os_ok_reads_ok] read_payload_rec_in [OF r mx os_ok_reads_ok]
  have "bslice ?img 137 146 = doomed"
    using rec_in_parts(2) [OF doomed] revived_bslice [of 137 146 bs D] len by (simp add: doomed_def)
  then have "read_exact_at os_ok (disk_file ?img) 9 137 = Inr doomed"
    using read_exact_at_ok [OF os_ok_reads_ok, of 137 9 "disk_file ?img"] mx len by simp
  then have bad: "read_frame_at os_ok (disk_file ?img) 137 = Inl (RecordTooLarge 137 0xFFFFFFFF MAX_RECORD_LEN)"
    by (simp add: read_frame_at_def doomed_frame)
  have "verify_loop D os_ok (disk_file ?img) 195 137 1 = Inl (RecordTooLarge 137 0xFFFFFFFF MAX_RECORD_LEN)"
    by (subst verify_loop.simps) (simp add: bad)
  moreover have "verify_loop D os_ok (disk_file ?img) 195 128 0 = verify_loop D os_ok (disk_file ?img) 195 137 1"
    by (subst verify_loop.simps) (use rd in \<open>simp add: verify_payload_def total_len_def RECORD_HEADER_SIZE_def\<close>)
  ultimately show ?thesis by (simp add: verify_def loaded_def first_header_def LOG_START_eq)
qed

section \<open>The two commits that fail\<close>

text \<open>An engine whose only header is that of the empty database.\<close>

definition first_epoch :: "deps \<Rightarrow> nat \<Rightarrow> MasterIndex \<Rightarrow> StorageEngine \<Rightarrow> bool" where
  "first_epoch D n idx e \<longleftrightarrow> engine_inv D e \<and> unat (se_end e) = n \<and> se_index e = idx \<and>
     se_slots e = [Some Header_initial, None] \<and> se_header e = Header_initial"

lemma rec_in_tail: "rec_in D (content f) n at r \<Longrightarrow> tail_write n f g \<Longrightarrow> rec_in D (content g) n at r"
  using rec_in_stable [of D "content f" n at r "content g"] bslice_take [of n n "content g" "content f" 128]
  by (auto simp: tail_write_def rec_in_def)

lemma first_epoch_put:
  assumes s: "first_epoch D n idx e" and p: "length p \<le> 100" and n: "n \<le> 1000"
  obtains e' where "append D os_ok e Blob p = (Inr (DocId (next_doc_id idx)), e')"
    and "first_epoch D (n + 9 + length p) (idx_append idx (of_nat n)) e'" and "se_dirty e'"
    and "rec_in D (content (se_file e')) (n + 9 + length p) n \<lparr>rec_kind = Blob, payload = p\<rparr>"
    and "tail_write n (se_file e) (se_file e')"
proof -
  note se = s [unfolded first_epoch_def]
  have core: "core_inv D e" using se by (simp add: engine_inv_def)
  have end_eq: "se_end e = of_nat n" using se by (auto simp: word_unat_eq_iff)
  have "fits e p" using se p n by (simp add: fits_def max_off_def)
  then obtain e' where ap: "append D os_ok e Blob p = (Inr (DocId (next_doc_id idx)), e')"
    using append_ok [OF os_ok_all_ok, of e p D Blob] se by auto
  obtain e1 where a: "appended D e \<lparr>rec_kind = Blob, payload = p\<rparr> e1"
    and e': "e' = e1\<lparr>se_index := idx_append (se_index e) (se_end e)\<rparr>"
    using append_effect [OF core ap] by auto
  have "engine_inv D e'" using se ap by (blast intro: append_inv)
  then have "first_epoch D (n + 9 + length p) (idx_append idx (of_nat n)) e'"
    using se appended_sel [OF a] appended_rec(2) [OF a] by (simp add: first_epoch_def e' end_eq)
  then show thesis
    using that ap appended_sel(5) [OF a] appended_rec [OF a] appended_tail [OF a] se by (simp add: e')
qed

lemma first_epoch_flushed:
  assumes s: "first_epoch D n idx e" and fl: "index_flushed D e p e1" and inv: "engine_inv D (e1\<lparr>se_file := f\<rparr>)"
  shows "first_epoch D (n + 9 + length p) idx (e1\<lparr>se_file := f\<rparr>)"
  using s fl inv unfolding first_epoch_def index_flushed_def by simp

lemma first_epoch_encode:
  assumes "first_epoch D n idx e" and "bincode_total D"
  obtains p where "idx_encode D idx = Inr p"
    and "length p = 8 * (2 * fcard (fmdom (offsets idx)) + fcard (dead idx) + 3)"
proof (rule bincode_totalD [OF assms(2)])
  show "idx_wf idx" using assms(1) by (auto simp: first_epoch_def engine_inv_def core_inv_def index_ok_def)
qed (rule that)

text \<open>The first commit fails in its last sync: its header is in the file.\<close>

definition one_doc :: MasterIndex where
  "one_doc = idx_append MasterIndex_default 128"

definition two_docs :: MasterIndex where
  "two_docs = idx_append one_doc 195"

lemma sizes: "fcard (fmdom (offsets one_doc)) = 1" "dead one_doc = {||}" "next_doc_id one_doc = 2"
  "fcard (fmdom (offsets two_docs)) = 2" "dead two_docs = {||}"
  by (simp_all add: one_doc_def two_docs_def idx_append_eq MasterIndex_default_def fcard.rep_eq)

definition first_failed :: "deps \<Rightarrow> StorageEngine \<Rightarrow> bool" where
  "first_failed D e \<longleftrightarrow> first_epoch D 195 one_doc e \<and> se_dirty e \<and>
     rec_in D (content (se_file e)) 195 128 \<lparr>rec_kind = Blob, payload = doomed\<rparr> \<and>
     (\<exists>p. rec_in D (content (se_file e)) 195 146 \<lparr>rec_kind = MasterIndexKind, payload = p\<rparr> \<and> idx_decode D p = Inr one_doc) \<and>
     slot_header D (slot_bytes (content (se_file e)) 0) = Some Header_initial \<and>
     slot_bytes (content (se_file e)) 1 = Header_encode (crc32 D) first_header"

lemma late_header_first_failed:
  assumes bin: "bincode_ok D" and s1: "first_epoch D 146 one_doc e1" and p: "idx_encode D one_doc = Inr p" "length p = 40"
    and r1: "rec_in D (content (se_file e1)) 146 128 \<lparr>rec_kind = Blob, payload = doomed\<rparr>"
    and fl: "index_flushed D e1 p e" and fh: "header_in_flight D e first_header f"
    and full: "slot_bytes (content f) 1 = Header_encode (crc32 D) first_header" and inv: "engine_inv D (e\<lparr>se_file := f\<rparr>)"
  shows "first_failed D (e\<lparr>se_file := f\<rparr>)"
proof -
  note se = s1 [unfolded first_epoch_def] and fd = header_in_flightD [OF fh] and g = fl [unfolded index_flushed_def]
  have s2: "first_epoch D 195 one_doc (e\<lparr>se_file := f\<rparr>)" using first_epoch_flushed [OF s1 fl inv] p(2) by simp
  have keep: "rec_in D (content f) 195 at r" if "rec_in D (content (se_file e)) 195 at r" for at r
    using that fd(5) [of 195] fd(4) by (intro rec_in_stable [OF that]) (simp_all add: rec_in_def)
  have e195: "unat (se_end e) = 195" using g se p(2) by simp
  have "rec_in D (content (se_file e)) 195 146 \<lparr>rec_kind = MasterIndexKind, payload = p\<rparr>" using g se e195 by simp
  moreover have "rec_in D (content (se_file e)) 195 128 \<lparr>rec_kind = Blob, payload = doomed\<rparr>"
  proof (rule rec_in_mono)
    show "rec_in D (content (se_file e)) 146 128 \<lparr>rec_kind = Blob, payload = doomed\<rparr>"
      using rec_in_tail [OF r1] g se by metis
    show "195 \<le> length (content (se_file e))" using core_inv_bounds(2) [of D e] g e195 by simp
  qed simp
  moreover have "se_live_slot e = 0" using core_inv_def [of D e] g se by simp
  then have "slot_header D (slot_bytes (content f) 0) = Some Header_initial"
    using fd(6) core_inv_def [of D e] g se by simp
  moreover have "idx_decode D p = Inr one_doc" using idx_encode_InrD [OF bin p(1)] by blast
  ultimately show ?thesis using s2 g keep full by (auto simp: first_failed_def)
qed

lemma first_commit_fails:
  assumes bin: "bincode_ok D" "bincode_total D"
    and torn: "torn_ok D (replicate 64 0) (Header_encode (crc32 D) first_header)"
  obtains e1 os e2 where "append D os_ok (fresh D path) Blob doomed = (Inr (DocId 1), e1)"
    and "commit_tear_safe D e1" and "commit D os e1 = (Inl (Io (OsError 5)), e2)" and "first_failed D e2"
proof -
  have "first_epoch D 128 MasterIndex_default (fresh D path)"
    using fresh_inv [of D path] by (simp add: first_epoch_def) (simp add: fresh_def)
  then obtain e1 where ap: "append D os_ok (fresh D path) Blob doomed = (Inr (DocId 1), e1)"
    and s1: "first_epoch D 146 one_doc e1" "se_dirty e1"
    and r1: "rec_in D (content (se_file e1)) 146 128 \<lparr>rec_kind = Blob, payload = doomed\<rparr>"
    and t1: "tail_write 128 (se_file (fresh D path)) (se_file e1)"
    by (rule first_epoch_put [of D _ _ _ doomed]) (auto simp: doomed_def one_doc_def MasterIndex_default_def)
  note se = s1(1) [unfolded first_epoch_def]
  obtain p where p: "idx_encode D one_doc = Inr p" "length p = 40"
    by (rule first_epoch_encode [OF s1(1) bin(2)]) (simp add: sizes)
  have nh: "next_header e1 p = first_header"
    using se by (auto simp: next_header_def first_header_def Header_initial_def p(2) word_unat_eq_iff word_nat)
  have z: "slot_bytes (content (se_file e1)) 1 = replicate 64 0"
    using tail_write_slots(1) [OF t1, of 1] header_region_slots(2) [of D] by (simp add: fresh_def)
  have tear: "commit_tear_safe D e1" using se p(1) torn nh z by (simp add: commit_tear_safe_def)
  have inv1: "engine_inv D e1" and enc: "idx_encode D (se_index e1) = Inr p" and fits: "fits e1 p"
    using se p by (simp_all add: fits_def max_off_def)
  obtain e f where c: "commit D (one_sync_fails (ops (se_file e1) + 5)) e1 = (Inl (Io (OsError 5)), e\<lparr>se_file := f\<rparr>)"
    and fl: "index_flushed D e1 p e" and fh: "header_in_flight D e (next_header e1 p) f"
    and full: "slot_bytes (content f) (victim_slot (se_slots e1)) = Header_encode (crc32 D) (next_header e1 p)"
    by (rule late_commit_file [OF inv1 s1(2) bin(1) tear enc fits])
  have "engine_inv D (e\<lparr>se_file := f\<rparr>)" using commit_inv [OF inv1 bin(1) disjI2 [OF tear] c] .
  then have "first_failed D (e\<lparr>se_file := f\<rparr>)"
    using late_header_first_failed [OF bin(1) s1(1) p r1 fl, of f] fh full nh se by simp
  then show thesis using that ap tear c by blast
qed

text \<open>The second commit, of another document, is torn in the middle of its header.\<close>

lemma second_commit_fails:
  assumes bin: "bincode_ok D" "bincode_total D" and e2: "first_failed D e2" and d: "length d = 100"
    and torn: "torn_ok D (Header_encode (crc32 D) first_header) (Header_encode (crc32 D) second_header)"
  obtains e3 os e4 bs where "append D os_ok e2 Blob d = (Inr (DocId 2), e3)"
    and "commit_tear_safe D e3"
    and "commit D os e3 = (Inl (Io (OsError 5)), e4)" and "torn_file D bs (se_file e4)"
proof -
  note ff = e2 [unfolded first_failed_def]
  have s2: "first_epoch D 195 one_doc e2" using ff by blast
  obtain e3 where ap: "append D os_ok e2 Blob d = (Inr (DocId 2), e3)"
    and s3: "first_epoch D 304 two_docs e3" "se_dirty e3" and t3: "tail_write 195 (se_file e2) (se_file e3)"
    by (rule first_epoch_put [OF s2, of d]) (auto simp: d two_docs_def sizes)
  note se = s3(1) [unfolded first_epoch_def]
  have inv3: "engine_inv D e3" using se by blast
  obtain p where p: "idx_encode D two_docs = Inr p" "length p = 56"
    by (rule first_epoch_encode [OF s3(1) bin(2)]) (simp add: sizes)
  have enc: "idx_encode D (se_index e3) = Inr p" "p \<noteq> []" and fits: "fits e3 p"
    using se p by (auto simp: fits_def max_off_def)
  obtain e f where pre: "commit_prefix D (one_write_tears (ops (se_file e3) + 4) 28) e3 = (Inr (se_end e3, p), e)"
    and c: "commit D (one_write_tears (ops (se_file e3) + 4) 28) e3 = (Inl (Io (OsError 5)), e\<lparr>se_file := f\<rparr>)"
    and ct: "content f = pwrite (content (se_file e)) (64 * victim_slot (se_slots e3)) (take 28 (Header_encode (crc32 D)
      \<lparr>generation = generation (se_header e3) + 1, master_ptr = se_end e3, master_len = of_nat (length p),
       log_end = se_end e\<rparr>))"
    and vs: "versions f = [content f, content (se_file e)]"
    by (rule torn_commit [OF s3(2) enc fits, of 28]) (use se in auto)
  have fl: "index_flushed D e3 p e" using commit_prefix_effect [OF inv3 bin(1) pre] by simp
  note g = fl [unfolded index_flushed_def]
  let ?bs = "content (se_file e)"
  have "\<lparr>generation = generation (se_header e3) + 1, master_ptr = se_end e3, master_len = of_nat (length p),
      log_end = se_end e\<rparr> = second_header"
    using se g by (auto simp: second_header_def Header_initial_def p(2) word_unat_eq_iff)
  then have "content f = pwrite ?bs 64 (take 28 (Header_encode (crc32 D) second_header))" using ct se by simp
  moreover have t: "tail_write 195 (se_file e2) (se_file e)"
    using tail_write_trans [OF t3 tail_write_mono [of 304]] g se by simp
  then have "rec_in D ?bs 195 at r" if "rec_in D (content (se_file e2)) 195 at r" for at r
    using rec_in_tail that by blast
  moreover have "slot_bytes ?bs i = slot_bytes (content (se_file e2)) i" if "i < 2" for i
    using tail_write_slots(1) [OF t _ that] by simp
  moreover have "length ?bs \<le> max_off" using core_inv_bounds(3) [of D e] g by blast
  ultimately have "torn_file D ?bs f" using ff vs unfolding torn_file_def by fastforce
  moreover have "next_header e3 p = second_header"
    using se by (auto simp: next_header_def second_header_def Header_initial_def p(2) word_unat_eq_iff word_nat)
  moreover have "slot_bytes (content (se_file e3)) 1 = Header_encode (crc32 D) first_header"
    using tail_write_slots(1) [OF t3, of 1] ff by simp
  ultimately show thesis using that [OF ap _ c] torn se p(1) by (simp add: commit_tear_safe_def)
qed

text \<open>
  C15: a retry after a failed commit, and a restart, can corrupt the database. A commit fails in
  its last sync; another document is appended and the next commit is torn in its header write;
  the process ends, and a new one opens the file, which shows the empty database, and appends to
  it. A power loss may then bring back the header of the first commit, over a log whose first
  record has been overwritten: the file opens without an error, and \<open>verify\<close> finds it corrupt.
  The checksum detects every torn header here; \<open>open\<close> does not look for what it can bring back.
\<close>

theorem unsafe_restart_corrupts:
  assumes "bincode_ok D" and "bincode_total D" and "length d = 100"
    and "torn_ok D (replicate 64 0) (Header_encode (crc32 D) first_header)"
    and "torn_ok D (Header_encode (crc32 D) first_header) (Header_encode (crc32 D) second_header)"
  shows "\<exists>e. trace (engine_event tears_detected D) (fresh D path)
      [EPut Blob doomed (Inr (DocId 1)), ECommit (Inl (Io (OsError 5))),
       EPut Blob d (Inr (DocId 2)), ECommit (Inl (Io (OsError 5))),
       EReopen, EPut Blob [] (Inr (DocId 1)), ECrash] e \<and>
    verify D os_ok e = Inl (RecordTooLarge 137 0xFFFFFFFF MAX_RECORD_LEN)"
proof -
  let ?step = "engine_event tears_detected D"
  have put: "append D os x k q = (r, y) \<Longrightarrow> ?step x (EPut k q r) y" for os x k q r y
    by (rule engine_event.ev_put)
  have com: "commit_tear_safe D x \<Longrightarrow> commit D os x = (r, y) \<Longrightarrow> ?step x (ECommit r) y" for os x r y
    using engine_event.ev_commit [where s = "bin_ser D" and D = D and G = tears_detected] assms(1)
    by (simp add: commit_guard)
  obtain e1 os1 e2 where 1: "append D os_ok (fresh D path) Blob doomed = (Inr (DocId 1), e1)"
    "commit_tear_safe D e1" "commit D os1 e1 = (Inl (Io (OsError 5)), e2)" "first_failed D e2"
    by (rule first_commit_fails [OF assms(1,2,4)])
  obtain e3 os3 e4 bs where 2: "append D os_ok e2 Blob d = (Inr (DocId 2), e3)"
    "commit_tear_safe D e3" "commit D os3 e3 = (Inl (Io (OsError 5)), e4)" and t: "torn_file D bs (se_file e4)"
    by (rule second_commit_fails [OF assms(1,2) 1(4) assms(3,5)])
  let ?e5 = "loaded D path (se_file e4) Header_initial 0 MasterIndex_default"
  have 3: "?step e4 EReopen ?e5"
    by (rule engine_event.ev_reopen [OF _ torn_file_opens [OF t torn_slot_header [OF assms(5)]]])
      (simp add: tears_detected_def)
  obtain e6 where 4: "append D os_ok ?e5 Blob [] = (Inr (DocId 1), e6)"
    "versions (se_file e6) = [pwrite (content (se_file e4)) 128 (encode_frame (crc32 D) Blob []), content (se_file e4), bs]"
    by (rule torn_file_append [OF t])
  have "crash_image (se_file e6) (revived_file D bs)"
    unfolding revived_file_def using 4(2) t
    by (intro undone_header_image [where b = "take 28 (Header_encode (crc32 D) second_header)"])
      (auto simp: torn_file_def rec_in_def)
  moreover obtain idx where "engine_open D os_ok path (Some (disk_file (revived_file D bs))) =
      (Inr (loaded D path (disk_file (revived_file D bs)) first_header 1 idx), disk_file (revived_file D bs))"
    by (rule revived_file_opens [OF t])
  ultimately have 5: "?step e6 ECrash (loaded D path (disk_file (revived_file D bs)) first_header 1 idx)"
    by (rule engine_event.ev_crash)
  show ?thesis
    using put [OF 1(1)] com [OF 1(2,3)] put [OF 2(1)] com [OF 2(2,3)] 3 put [OF 4(1)] 5 revived_file_corrupt [OF t]
    by (intro exI conjI) (rule trace_cons | assumption | rule trace_nil)+
qed

text \<open>A checksum that tells the headers of this run apart, and every torn write of one of them.\<close>

definition header_crc :: "bytes \<Rightarrow> u32" where
  "header_crc bs = (if bs = slot_image first_header 0 then 1 else if bs = slot_image second_header 0 then 2 else 4)"

lemma header_crc_headers:
  "Header_encode header_crc first_header = slot_image first_header 1"
  "Header_encode header_crc second_header = slot_image second_header 2"
proof -
  have "(le_word (bslice (slot_image first_header 0) 16 24) :: u64) \<noteq> le_word (bslice (slot_image second_header 0) 16 24)"
    by (simp add: slot_image_fields first_header_def second_header_def)
  then have "slot_image second_header 0 \<noteq> slot_image first_header 0" by metis
  then show "Header_encode header_crc first_header = slot_image first_header 1"
    "Header_encode header_crc second_header = slot_image second_header 2"
    by (simp_all add: Header_encode_image header_crc_def)
qed

lemma slot_image_crc: "slot_image h c = put_at (slot_image h 0) 40 (le_bytes 4 c)"
  by (simp add: slot_image_def put_at_def)

lemma crc_bytes: "le_bytes 4 (1 :: u32) = [1, 0, 0, 0]" "le_bytes 4 (2 :: u32) = [2, 0, 0, 0]"
  by code_simp+

lemma slot_image_nth:
  assumes "j < 4"
  shows "slot_image h c ! (40 + j) = le_bytes 4 c ! j"
  using assms nth_bslice [of j 44 40 "slot_image h c"] by (simp add: slot_image_fields)

lemma header_crc_decoded:
  assumes len: "length b = 64" and dec: "slot_header (sample_deps header_crc) b \<noteq> None"
    and b40: "b ! 40 \<in> {0, 1, 2}" and zero: "b ! 41 = 0" "b ! 42 = 0" "b ! 43 = 0"
  shows "b = slot_image first_header 1 \<or> b = slot_image second_header 2"
proof -
  let ?z = "put_at b 40 (replicate 4 0)"
  have crc: "header_crc ?z = le_word (bslice b 40 44)"
    using dec by (auto simp: slot_header_def Header_decode_def Let_def split: if_splits)
  have four: "bslice b 40 44 = [b ! 40, 0, 0, 0]" using bslice_four [OF len] zero by simp
  have "take 4 (drop 40 b) @ drop 44 b = drop 40 b" using append_take_drop_id [of 4 "drop 40 b"] by simp
  then have "take 40 b @ take 4 (drop 40 b) @ drop 44 b = b" by simp
  then have whole: "b = put_at ?z 40 (bslice b 40 44)" using len by (simp add: put_at_def bslice_def)
  have "header_crc ?z \<noteq> 4" using crc four b40 by auto
  then consider "?z = slot_image first_header 0" "header_crc ?z = 1" | "?z = slot_image second_header 0" "header_crc ?z = 2"
    by (auto simp: header_crc_def split: if_splits)
  then show ?thesis
  proof cases
    case 1
    then have "bslice b 40 44 = [1, 0, 0, 0]" using crc four b40 by auto
    then show ?thesis using whole 1(1) slot_image_crc [of first_header 1] crc_bytes(1) by metis
  next
    case 2
    then have "bslice b 40 44 = [2, 0, 0, 0]" using crc four b40 by auto
    then show ?thesis using whole 2(1) slot_image_crc [of second_header 2] crc_bytes(2) by metis
  qed
qed

lemma header_crc_torn:
  "torn_ok (sample_deps header_crc) (replicate 64 0) (Header_encode header_crc first_header)"
  "torn_ok (sample_deps header_crc) (Header_encode header_crc first_header) (Header_encode header_crc second_header)"
proof -
  have n: "[1, 0, 0, 0 :: u8] ! j = (if j = 0 then 1 else 0)" "[2, 0, 0, 0 :: u8] ! j = (if j = 0 then 2 else 0)"
    if "j < 4" for j using that by (auto simp: numeral_eq_Suc less_Suc_eq)
  note sc = slot_image_nth [of _ first_header 1] slot_image_nth [of _ second_header 2]
  have 1: "slot_image first_header 1 ! 40 = 1" "slot_image second_header 2 ! 40 = 2"
    "j \<in> {41, 42, 43} \<Longrightarrow> slot_image first_header 1 ! j = 0 \<and> slot_image second_header 2 ! j = 0" for j
    using sc [of 0] sc [of 1] sc [of 2] sc [of 3] n by (auto simp: crc_bytes)
  show "torn_ok (sample_deps header_crc) (replicate 64 0) (Header_encode header_crc first_header)"
    unfolding torn_ok_def header_crc_headers
  proof (intro allI impI)
    fix b h assume b: "mix (replicate 64 0) (slot_image first_header 1) b \<and> slot_header (sample_deps header_crc) b = Some h"
    then have mx: "b ! j = 0 \<or> b ! j = slot_image first_header 1 ! j" if "j < 64" for j
      using that by (auto simp: mix_def)
    have "b = slot_image first_header 1 \<or> b = slot_image second_header 2"
      by (rule header_crc_decoded) (use b mx [of 40] mx [of 41] mx [of 42] mx [of 43] 1 in \<open>auto simp: mix_def\<close>)
    then show "slot_header (sample_deps header_crc) (replicate 64 0) = Some h \<or> b = slot_image first_header 1"
      using mx [of 40] 1 by auto
  qed
  show "torn_ok (sample_deps header_crc) (Header_encode header_crc first_header) (Header_encode header_crc second_header)"
    unfolding torn_ok_def header_crc_headers
  proof (intro allI impI)
    fix b h assume b: "mix (slot_image first_header 1) (slot_image second_header 2) b \<and> slot_header (sample_deps header_crc) b = Some h"
    then have mx: "b ! j = slot_image first_header 1 ! j \<or> b ! j = slot_image second_header 2 ! j" if "j < 64" for j
      using that by (auto simp: mix_def)
    have "b = slot_image first_header 1 \<or> b = slot_image second_header 2"
      by (rule header_crc_decoded) (use b mx [of 40] mx [of 41] mx [of 42] mx [of 43] 1 in \<open>auto simp: mix_def\<close>)
    then show "slot_header (sample_deps header_crc) (slot_image first_header 1) = Some h \<or> b = slot_image second_header 2"
      using b by auto
  qed
qed

theorem unsafe_restart_corrupts_witness:
  "\<exists>e. trace (engine_event tears_detected (sample_deps header_crc)) (fresh (sample_deps header_crc) ''db'')
      [EPut Blob doomed (Inr (DocId 1)), ECommit (Inl (Io (OsError 5))),
       EPut Blob (replicate 100 1) (Inr (DocId 2)), ECommit (Inl (Io (OsError 5))),
       EReopen, EPut Blob [] (Inr (DocId 1)), ECrash] e \<and>
    verify (sample_deps header_crc) os_ok e = Inl (RecordTooLarge 137 0xFFFFFFFF MAX_RECORD_LEN)"
  by (rule unsafe_restart_corrupts) (simp_all add: header_crc_torn)

end
