(* ===== verification/Pos_Io_Windows.thy ===== *)
theory Pos_Io_Windows
  imports Pos_Io
begin

text \<open>
  Positioned I/O on Windows (\<open>src/src/storage/pos_io.rs\<close>, the \<open>#[cfg(windows)]\<close> half): loops
  around \<open>seek_read\<close> and \<open>seek_write\<close>, which may move fewer bytes than asked, be interrupted, or
  fail, and which leave the file cursor at the end of what they moved. With an operating system
  that interrupts forever the loops do not return, so they are partial functions.
\<close>

section \<open>The device\<close>

text \<open>The answer to the \<open>k\<close>-th call: an upper bound on the bytes it moves, or an error.\<close>

datatype answer = Moves nat | Fails io_error

type_synonym device = "nat \<Rightarrow> answer"

text \<open>A device that keeps working: after \<open>K\<close> calls no interruption, never another failure.\<close>

definition kind_device :: "nat \<Rightarrow> device \<Rightarrow> bool" where
  "kind_device K dev \<longleftrightarrow> (\<forall>k. case dev k of Moves n \<Rightarrow> 0 < n | Fails e \<Rightarrow> e = InterruptedKind \<and> k < K)"

section \<open>Reading\<close>

text \<open>
  \<open>done\<close> bytes of \<open>buf\<close> are filled and \<open>k\<close> calls were made; \<open>cursor\<close> is the file cursor. A read
  at the end of the file moves nothing, which the code reports as \<open>UnexpectedEof\<close>.
\<close>

partial_function (option) win_read_loop :: "device \<Rightarrow> bytes \<Rightarrow> u64 \<Rightarrow> bytes \<Rightarrow> nat \<Rightarrow> nat \<Rightarrow> nat \<Rightarrow>
    ((io_error + bytes) \<times> nat) option" where
  "win_read_loop dev bs offset buf filled k cursor =
     (if filled < length buf then
        (case dev k of
           Moves n \<Rightarrow>
             (let at = unat (offset + of_nat filled);
                  m = min n (min (length buf - filled) (length bs - at)) in
              if m = 0 then Some (Inl UnexpectedEofKind, at)
              else win_read_loop dev bs offset (put_at buf filled (bslice bs at (at + m))) (filled + m) (Suc k) (at + m))
         | Fails e \<Rightarrow>
             (if e = InterruptedKind then win_read_loop dev bs offset buf filled (Suc k) cursor
              else Some (Inl e, cursor)))
      else Some (Inr buf, cursor))"

definition win_read_exact_at :: "device \<Rightarrow> bytes \<Rightarrow> nat \<Rightarrow> u64 \<Rightarrow> nat \<Rightarrow> ((io_error + bytes) \<times> nat) option" where
  "win_read_exact_at dev bs n offset cursor = win_read_loop dev bs offset (replicate n 0) 0 0 cursor"

section \<open>Writing\<close>

partial_function (option) win_write_loop :: "device \<Rightarrow> bytes \<Rightarrow> bytes \<Rightarrow> u64 \<Rightarrow> nat \<Rightarrow> nat \<Rightarrow> nat \<Rightarrow>
    ((io_error + unit) \<times> bytes \<times> nat) option" where
  "win_write_loop dev bs buf offset written k cursor =
     (if written < length buf then
        (case dev k of
           Moves n \<Rightarrow>
             (let at = unat (offset + of_nat written);
                  m = min n (length buf - written) in
              if m = 0 then Some (Inl WriteZeroKind, bs, at)
              else win_write_loop dev (pwrite bs at (take m (drop written buf))) buf offset (written + m) (Suc k) (at + m))
         | Fails e \<Rightarrow>
             (if e = InterruptedKind then win_write_loop dev bs buf offset written (Suc k) cursor
              else Some (Inl e, bs, cursor)))
      else Some (Inr (), bs, cursor))"

definition win_write_all_at :: "device \<Rightarrow> bytes \<Rightarrow> bytes \<Rightarrow> u64 \<Rightarrow> nat \<Rightarrow>
    ((io_error + unit) \<times> bytes \<times> nat) option" where
  "win_write_all_at dev bs buf offset cursor = win_write_loop dev bs buf offset 0 0 cursor"

section \<open>They return, and agree with the calls on Unix\<close>

lemma at_no_wrap: "unat (offset :: u64) + n \<le> max_off \<Longrightarrow> m \<le> n \<Longrightarrow> unat (offset + of_nat m) = unat offset + m"
  by (simp add: word_nat max_off_def)

lemma put_at_progress:
  assumes "a + m \<le> length buf" and "length xs = m" and "m \<noteq> 0"
  shows "take (a + m) (put_at buf a xs) = take a buf @ xs" and "length (put_at buf a xs) = length buf"
  using assms by (simp_all add: put_at_def)

lemma win_read_loop_returns:
  assumes "kind_device K dev" and "unat offset + length buf \<le> max_off" and "filled \<le> length buf"
    and "take filled buf = bslice bs (unat offset) (unat offset + filled)"
    and "unat offset + filled \<le> length bs \<or> filled = 0"
  shows "\<exists>c. win_read_loop dev bs offset buf filled k cursor =
    Some (if unat offset + length buf \<le> length bs \<or> buf = []
          then Inr (bslice bs (unat offset) (unat offset + length buf)) else Inl UnexpectedEofKind, c) \<and>
    (unat offset + length buf \<le> length bs \<and> filled < length buf \<longrightarrow> c = unat offset + length buf)"
  using assms(2-)
proof (induction "(length buf - filled) + (K - k)" arbitrary: buf filled k cursor rule: less_induct)
  case less
  show ?case
  proof (cases "filled < length buf")
    case False
    then have eq: "filled = length buf" using less.prems(2) by simp
    then have "buf = bslice bs (unat offset) (unat offset + length buf)" using less.prems(3) by simp
    moreover have "unat offset + length buf \<le> length bs \<or> buf = []" using less.prems(4) eq by auto
    ultimately show ?thesis using eq by (subst win_read_loop.simps) simp
  next
    case True
    show ?thesis
    proof (cases "dev k")
      case (Fails e)
      then have e: "e = InterruptedKind" "k < K" using assms(1) by (auto simp: kind_device_def split: answer.splits dest: spec [of _ k])
      have "win_read_loop dev bs offset buf filled k cursor = win_read_loop dev bs offset buf filled (Suc k) cursor"
        using Fails e True by (subst win_read_loop.simps) simp
      then show ?thesis using less.hyps [of buf filled "Suc k" cursor] less.prems e(2) by simp
    next
      case (Moves n)
      then have n: "0 < n" using assms(1) by (auto simp: kind_device_def split: answer.splits dest: spec [of _ k])
      have at: "unat (offset + of_nat filled) = unat offset + filled"
        using less.prems(1) True by (intro at_no_wrap) auto
      let ?at = "unat offset + filled"
      let ?m = "min n (min (length buf - filled) (length bs - ?at))"
      show ?thesis
      proof (cases "?m = 0")
        case z: True
        then have "length bs \<le> ?at" using n True by auto
        then show ?thesis using Moves True z at by (subst win_read_loop.simps) (auto simp: Let_def)
      next
        case nz: False
        let ?chunk = "bslice bs ?at (?at + ?m)"
        have m: "filled + ?m \<le> length buf" "?at + ?m \<le> length bs" using nz True by auto
        then have lc: "length ?chunk = ?m" by (simp add: length_bslice) linarith
        note pr = put_at_progress [OF m(1) lc nz]
        have tk: "take (filled + ?m) (put_at buf filled ?chunk) = bslice bs (unat offset) (unat offset + (filled + ?m))"
          unfolding pr(1) less.prems(3) using bslice_split [of "unat offset" ?at "?at + ?m" bs] by (simp add: add.assoc)
        have step: "win_read_loop dev bs offset buf filled k cursor =
            win_read_loop dev bs offset (put_at buf filled ?chunk) (filled + ?m) (Suc k) (?at + ?m)"
          using Moves True at by (subst win_read_loop.simps) (simp only: Let_def answer.case nz if_True if_False)
        have less': "length (put_at buf filled ?chunk) - (filled + ?m) + (K - Suc k) < length buf - filled + (K - k)"
          unfolding pr(2) using nz m(1) by linarith
        have ne: "put_at buf filled ?chunk = [] \<longleftrightarrow> buf = []" using pr(2) by (metis length_0_conv)
        note ih = less.hyps [OF less', of "?at + ?m", unfolded pr(2) ne, OF less.prems(1) m(1) tk]
        show ?thesis
        proof (cases "filled + ?m < length buf")
          case more: True
          then show ?thesis using ih m(2) step by (simp add: add.assoc)
        next
          case False
          then have full: "filled + ?m = length buf" using m(1) by simp
          have "win_read_loop dev bs offset (put_at buf filled ?chunk) (filled + ?m) (Suc k) (?at + ?m) =
              Some (Inr (put_at buf filled ?chunk), ?at + ?m)"
            using full pr(2) by (subst win_read_loop.simps) simp
          moreover have "put_at buf filled ?chunk = bslice bs (unat offset) (unat offset + length buf)"
            using tk full pr(2) by simp
          ultimately show ?thesis using step full m(2) by simp
        qed
      qed
    qed
  qed
qed

text \<open>
  C39: on a device that keeps working, however it splits the transfer and whenever it is
  interrupted, \<open>read_exact_at\<close> on Windows returns, with what the Unix call returns: the bytes
  of the file, or \<open>UnexpectedEof\<close> where the file ends first.
\<close>

theorem windows_read_agrees:
  assumes "kind_device K dev" and "unat offset + n \<le> max_off" and "length bs \<le> max_off"
  shows "\<exists>c. win_read_exact_at dev bs n offset cursor = Some (read_exact_at os_ok (disk_file bs) n offset, c)"
  using win_read_loop_returns [OF assms(1), of offset "replicate n 0" 0 bs 0 cursor] assms(2)
  by (auto simp: win_read_exact_at_def read_exact_at_def pread_def disk_file_def os_ok_def bslice_empty)

definition byte_device :: device where
  "byte_device k = (if k = 0 then Fails InterruptedKind else Moves 1)"

lemma byte_device_kind: "kind_device 1 byte_device"
  by (simp add: kind_device_def byte_device_def)

theorem windows_read_agrees_witness:
  "\<exists>c. win_read_exact_at byte_device [1, 2, 3, 4] 2 1 0 = Some (read_exact_at os_ok (disk_file [1, 2, 3, 4]) 2 1, c) \<and>
     read_exact_at os_ok (disk_file [1, 2, 3, 4]) 2 1 = Inr [2, 3]"
  using windows_read_agrees [OF byte_device_kind, of 1 2 "[1, 2, 3, 4]" 0]
  by (auto simp: max_off_def read_exact_at_def os_ok_def disk_file_def pread_def bslice_def)

lemma pwrite_pwrite_adjacent:
  assumes "xs \<noteq> []"
  shows "pwrite (pwrite bs off xs) (off + length xs) ys = pwrite bs off (xs @ ys)"
proof (cases "ys = []")
  case False
  then have len: "length (pwrite (pwrite bs off xs) (off + length xs) ys) = length (pwrite bs off (xs @ ys))"
    using assms by (simp add: length_pwrite)
  show ?thesis
  proof (rule nth_equalityI [OF len])
    fix i assume i: "i < length (pwrite (pwrite bs off xs) (off + length xs) ys)"
    have l1: "length (pwrite bs off xs) = max (length bs) (off + length xs)" using assms by (simp add: length_pwrite)
    show "pwrite (pwrite bs off xs) (off + length xs) ys ! i = pwrite bs off (xs @ ys) ! i"
      using i i [unfolded len] l1 by (auto simp: nth_pwrite nth_append)
  qed
qed simp

lemma win_write_loop_returns:
  assumes "kind_device K dev" and "unat offset + length buf \<le> max_off" and "written \<le> length buf"
  shows "\<exists>c. win_write_loop dev (pwrite bs (unat offset) (take written buf)) buf offset written k cursor =
    Some (Inr (), pwrite bs (unat offset) buf, c) \<and>
    (written < length buf \<longrightarrow> c = unat offset + length buf)"
  using assms(3)
proof (induction "(length buf - written) + (K - k)" arbitrary: written k cursor rule: less_induct)
  case less
  show ?case
  proof (cases "written < length buf")
    case False
    then show ?thesis using less.prems by (subst win_write_loop.simps) simp
  next
    case True
    show ?thesis
    proof (cases "dev k")
      case (Fails e)
      then have e: "e = InterruptedKind" "k < K" using assms(1) by (auto simp: kind_device_def split: answer.splits dest: spec [of _ k])
      then show ?thesis using less.hyps [of written "Suc k" cursor] less.prems Fails True
        by (subst win_write_loop.simps) simp
    next
      case (Moves n)
      then have n: "0 < n" using assms(1) by (auto simp: kind_device_def split: answer.splits dest: spec [of _ k])
      let ?m = "min n (length buf - written)" and ?at = "unat offset + written"
      have at: "unat (offset + of_nat written) = ?at"
        using assms(2) True by (intro at_no_wrap) auto
      have m: "?m \<noteq> 0" "written + ?m \<le> length buf" using n True by auto
      have ext: "pwrite (pwrite bs (unat offset) (take written buf)) ?at (take ?m (drop written buf)) =
          pwrite bs (unat offset) (take (written + ?m) buf)"
      proof (cases "written = 0")
        case False
        then have "take written buf \<noteq> []" "length (take written buf) = written" using True by auto
        then show ?thesis using pwrite_pwrite_adjacent [of "take written buf" bs "unat offset"] by (simp add: take_add)
      qed simp
      have step: "win_write_loop dev (pwrite bs (unat offset) (take written buf)) buf offset written k cursor =
          win_write_loop dev (pwrite bs (unat offset) (take (written + ?m) buf)) buf offset (written + ?m) (Suc k) (?at + ?m)"
        using Moves True at ext by (subst win_write_loop.simps) (simp only: Let_def answer.case m(1) if_True if_False)
      have "length buf - (written + ?m) + (K - Suc k) < length buf - written + (K - k)" using m by linarith
      note ih = less.hyps [OF this m(2), of "?at + ?m"]
      show ?thesis
      proof (cases "written + ?m < length buf")
        case more: True
        then show ?thesis using ih unfolding step by blast
      next
        case False
        then have full: "written + ?m = length buf" using m(2) by simp
        have "win_write_loop dev (pwrite bs (unat offset) (take (written + ?m) buf)) buf offset (written + ?m) (Suc k) (?at + ?m) =
            Some (Inr (), pwrite bs (unat offset) buf, ?at + ?m)"
          using full by (subst win_write_loop.simps) simp
        then show ?thesis using step full by simp
      qed
    qed
  qed
qed

text \<open>
  C40: likewise \<open>write_all_at\<close> on Windows returns \<open>Ok\<close> with the whole buffer in the file and
  every other byte unchanged, as on Unix; and, unlike there, the file cursor has moved.
\<close>

theorem windows_write_agrees:
  assumes "kind_device K dev" and "unat offset + length buf \<le> max_off" and "buf \<noteq> []"
  shows "win_write_all_at dev bs buf offset cursor =
      Some (Inr (), content (snd (write_all_at os_ok (disk_file bs) buf offset)), unat offset + length buf) \<and>
    fst (write_all_at os_ok (disk_file bs) buf offset) = Inr ()"
  using win_write_loop_returns [OF assms(1,2), of 0 bs 0 cursor] assms(2,3)
  by (auto simp: win_write_all_at_def write_all_at_def os_ok_def disk_file_def Let_def)

theorem windows_write_agrees_witness:
  "win_write_all_at byte_device [1, 2, 3, 4] [9, 8] 1 0 =
      Some (Inr (), content (snd (write_all_at os_ok (disk_file [1, 2, 3, 4]) [9, 8] 1)), unat (1 :: u64) + length [9, 8 :: u8]) \<and>
    fst (write_all_at os_ok (disk_file [1, 2, 3, 4]) [9, 8] 1) = Inr ()"
  by (rule windows_write_agrees [OF byte_device_kind]) (simp_all add: max_off_def)

end
