(* ===== verification/Spec2Isabelle.thy ===== *)
theory Spec2Isabelle
  imports Test_Suite Provenance Prefixes Safe_Restarts Unsafe_Restart Pos_Io_Windows
begin

text \<open>
  A verification of \<^emph>\<open>cndb\<close>, a single-file embedded document store with crash-safe commits
  (milestone M1 of the repository: the storage core).

  \<^bold>\<open>The program.\<close> A database is one file: two 64-byte header slots, then an append-only log of
  framed records. Documents and deletions are appended to the log; a commit appends the master
  index (which document is at which offset, which are deleted, the next id) as one more record
  and then writes a header with the next generation into the slot that is not live. Opening
  picks the valid header of the highest generation and loads the index it points to. The public
  handle \<open>Cndb\<close> encodes JSON objects as BSON and delegates to the engine.

  \<^bold>\<open>The theories, in the order of the code.\<close>
  \<^item> \<open>Cndb_Prelude\<close>: machine integers, byte buffers and slices, little-endian integers, \<open>Result\<close>
    and the question mark operator, iterator extrema.
  \<^item> \<open>Cndb_Error\<close>: \<open>src/src/error.rs\<close> and \<open>DocId\<close>.
  \<^item> \<open>Pos_Io\<close>: the Unix half of \<open>src/src/storage/pos_io.rs\<close> over a model of a file. A file is its
    content, its versions since the last successful sync and a count of operations; the record
    \<open>os\<close> decides which call fails and how much of a failing write lands. \<open>crash_image\<close> is what a
    power loss may leave: every byte from some version since the last sync. So a commit that is
    cut short is a commit in which a call fails, followed by a crash image.
  \<^item> \<open>Pos_Io_Windows\<close>: the Windows half, as partial functions over a device that splits
    transfers, interrupts and fails; they return and agree with the Unix calls.
  \<^item> \<open>Header\<close>: \<open>src/src/storage/header.rs\<close>; \<open>Record_Log\<close>: \<open>src/src/storage/record.rs\<close>;
    \<open>Master_Index\<close>: \<open>src/src/storage/index.rs\<close>; \<open>Engine\<close>: \<open>src/src/storage/engine.rs\<close>, with the
    record \<open>StorageEngine\<close> for the struct and one definition per method, faults and early
    returns included; \<open>Doc_Codec\<close>: \<open>src/src/document/codec.rs\<close>; \<open>Cndb_Api\<close>: \<open>src/src/api.rs\<close>.
  \<^item> \<open>Log_Store\<close>, \<open>Disk_State\<close>, \<open>Engine_Inv\<close>, \<open>Recovery\<close>: the invariant. \<open>log_is\<close> and \<open>snap\<close>
    say what the bytes of a file and a header mean, \<open>disk_ok\<close> which headers a slot may hold after
    a power loss, \<open>engine_inv\<close> is preserved by every operation under every failure, and
    \<open>recover_disk_ok\<close> shows that every crash image loads.
  \<^item> \<open>Engine_Run\<close>: runs of the engine as labelled steps (\<open>engine_event\<close>): operations with any
    failures, failing reads included, reopenings and power losses. A guard says which commits
    and reopenings a run admits: \<open>any_step\<close> all of them, as the code does; \<open>tears_detected\<close> those
    whose torn headers fail their checksum; \<open>safe_step\<close> of these the reopenings of files in which
    no header can come back that is ahead of what the file shows (\<open>reopen_safe\<close>).
  \<^item> \<open>Store_Spec\<close>, \<open>Store_Refines\<close>: the abstract specification, a transactional store without
    files, and the simulation that the engine implements it. After a commit that failed the
    store is in doubt between two states, as the code is; a reopening shows one of them and
    leaves both possible, because \<open>open\<close> flushes nothing (\<open>reopened_state_may_vanish\<close>).
  \<^item> \<open>Progress\<close>: when operations succeed. \<open>Samples\<close>, \<open>Sample_Run\<close>: concrete checksums, a
    serializer with bincode's layout and a concrete database, for the witnesses.
  \<^item> \<open>Durability\<close>, \<open>Operations\<close>, \<open>Provenance\<close>, \<open>Reopening\<close>, \<open>Safe_Restarts\<close>, \<open>Unsafe_Restart\<close>,
    \<open>Integrity\<close>, \<open>Prefixes\<close>: the properties of the engine; those of the components are in their theories, those of the handle in \<open>Cndb_Api\<close>.
  \<^item> \<open>Float64\<close>, \<open>Dead_Ratio\<close>: binary64 rounding, executable and proved monotone, exact where it
    can be and within half a unit in the last place; the statistics of the index over it.
  \<^item> \<open>Header_Tests\<close>, \<open>Record_Tests\<close>, \<open>Index_Tests\<close>, \<open>Engine_Tests\<close>, \<open>Codec_Tests\<close>, \<open>Api_Tests\<close>:
    the unit tests that stand beside the code and the examples of its documentation, one
    definition per test function under its name (\<open>roundtrips\<close> of the header is
    \<open>header_roundtrips\<close>). A test is a chain of calls whose value says that no \<open>unwrap\<close> failed and
    every assertion held. \<open>Scenario\<close> sums up an engine on an undisturbed system by a \<open>view\<close> and
    has a rule per operation; \<open>Engine_Tests_Pass\<close> and \<open>Engine_Tests_Damage\<close> run the tests by
    these rules, the latter those that overwrite, cut or tear the file. \<open>Test_Suite\<close> states that
    all of them pass.

  \<^bold>\<open>Interfaces.\<close> \<open>byte_store\<close> (positioned reads and writes), \<open>fixed_codec\<close> (headers),
  \<open>doc_directory\<close> (ids, lookups and deletions; interpreted by the index and by the documents of
  the specification), \<open>invariant_system\<close> and its extension \<open>refinement\<close> (runs and simulations),
  each interpreted on the definitions of the model.

  \<^bold>\<open>Parameters.\<close> Third-party code is an argument: \<open>crc32fast::hash\<close>, \<open>bincode\<close> and \<open>bson\<close>.
  What is assumed of it is named: \<open>bincode_ok\<close> and \<open>bson_ok\<close> (reading inverts writing, for BSON
  on values without the keys of extended JSON; other values come back as the crate reads them,
  \<open>as_stored\<close>),
  \<open>detects_one_byte\<close> (a documented property of CRC-32, for the damage properties only) and
  \<open>commit_tear_safe\<close> (no torn write of a header passes its checksum, which is what the checksum
  is for; needed for commits that fail, not for those that return \<open>Ok\<close>). Serialization may order
  the entries of a map differently in every commit. The unit tests further use the size of a
  serialized index (\<open>bincode_total\<close>), that a blob cut short is refused (\<open>bincode_prefix\<close>), the
  length that opens a BSON document (\<open>bson_framed\<close>) and that the library takes the documents of
  the tests (\<open>storable\<close>); the numbers of \<open>serde_json\<close> are the record \<open>numbers\<close>.

  \<^bold>\<open>Bounds.\<close> Integers have their widths; \<open>usize\<close> is 64 bits. A file is at most \<open>max_off\<close>, the
  largest signed 64-bit offset, which is why no counter wraps: nine bytes of log back every id
  and every generation. \<open>verify_loop\<close> terminates by the distance to the end of the log.

  \<^bold>\<open>Committed states.\<close> An engine is clean when it has nothing to commit (\<open>is_dirty\<close>) and
  settled when no header is in flight (\<open>settled\<close>). Both hold after a commit that had something
  to write and after recovery from a power loss; a reopening makes an engine clean but not
  settled. Durability starts from settled states.

  \<^bold>\<open>Safe runs.\<close> What is proved of runs, and of the states they reach (\<open>safely_reachable\<close>), is
  proved of safe runs. The code makes no such restriction: it reopens every file. What is left out
  is a header write torn over the header of an earlier commit that failed, and then a
  restart without a power loss. \<open>open\<close> goes back to the commit before both and appends where its
  log ends, while the disk may still hold the earlier header: \<open>Unsafe_Restart\<close> runs the code into
  a database that opens and does not verify, although every torn header is detected. A client
  stays clear of it by a rule on the results it has seen (\<open>calm\<close>): restart without a power loss
  only while at most one commit has failed since the last commit that wrote something, or the
  last power loss. \<open>Safe_Restarts\<close> proves that all runs under this rule are safe. Power losses
  are not restricted.

  \<^bold>\<open>The file.\<close> A successful sync makes everything written before it durable, also what an
  earlier sync failed to flush: this is the contract of \<open>File::sync_all\<close>, and \<open>commit\<close> counts
  on it when it is called again after an error. A kernel that drops dirty pages after a failed
  sync does not keep it; what is proved after a failed commit holds on systems that do.

  \<^bold>\<open>Not modelled.\<close> The serde derives, module wiring, the integration tests of
  \<open>src/tests/durability.rs\<close> (what they sample, the durability properties state in general) and
  documentation. Memory exhaustion and concurrent handles on one file are outside the model.
\<close>

end
